(* ===== verification/Prelude.thy ===== *)
theory Prelude
  imports Main "HOL-Library.Word"
begin

text \<open>
  Shared vocabulary of the development: the machine types of the code, the outcome of a
  C++ computation, little-endian byte images of integers, bounded memory copies and the
  decimal formatting of \<^verbatim>\<open>std::to_string\<close> and \<^verbatim>\<open>inet_ntop\<close>.

  The library targets Linux on a little-endian LP64 machine, so \<^verbatim>\<open>memcpy\<close> of an unsigned
  integer into a byte buffer stores its low byte first, \<^verbatim>\<open>size_t\<close> and \<^verbatim>\<open>ssize_t\<close> have 64
  bits and \<^verbatim>\<open>int\<close> has 32.
\<close>

named_theorems outcome_simps "how computations that may be undefined or block compose"
text \<open>Comparisons with lengths stay on natural numbers.\<close>

declare of_nat_unat [simp del]

lemma word_of_unat [simp]: "(of_nat (unat x) :: 'a :: len word) = x"
  for x :: "'a :: len word"
  by (simp add: of_nat_unat)

named_theorems codec_simps "byte images of machine integers and headers"

type_synonym byte = "8 word"
type_synonym u16 = "16 word"
type_synonym u32 = "32 word"
type_synonym fd = int

section \<open>Outcomes\<close>

text \<open>
  A C++ call returns a value, runs into undefined behaviour (a null dereference, an access
  outside a buffer) or waits for an event that nothing in the model produces.
\<close>

datatype 'a outcome = Ret 'a | Undef | Block

primrec bind_outcome :: "'a outcome \<Rightarrow> ('a \<Rightarrow> 'b outcome) \<Rightarrow> 'b outcome" where
  "bind_outcome (Ret x) f = f x"
| "bind_outcome Undef f = Undef"
| "bind_outcome Block f = Block"

lemma bind_outcome_eq_Ret [outcome_simps]:
  "bind_outcome m f = Ret y \<longleftrightarrow> (\<exists>x. m = Ret x \<and> f x = Ret y)"
  by (cases m) auto

lemma bind_outcome_eq_Undef [outcome_simps]:
  "bind_outcome m f = Undef \<longleftrightarrow> m = Undef \<or> (\<exists>x. m = Ret x \<and> f x = Undef)"
  by (cases m) auto

lemma bind_outcome_eq_Block [outcome_simps]:
  "bind_outcome m f = Block \<longleftrightarrow> m = Block \<or> (\<exists>x. m = Ret x \<and> f x = Block)"
  by (cases m) auto

lemma bind_outcome_assoc:
  "bind_outcome (bind_outcome m f) g = bind_outcome m (\<lambda>x. bind_outcome (f x) g)"
  by (cases m) simp_all

lemma bind_outcome_cong [fundef_cong]:
  "m = m' \<Longrightarrow> (\<And>x. m' = Ret x \<Longrightarrow> f x = f' x) \<Longrightarrow> bind_outcome m f = bind_outcome m' f'"
  by (cases m') auto

section \<open>Little-endian byte images\<close>

primrec nat_le :: "nat \<Rightarrow> nat \<Rightarrow> byte list" where
  "nat_le 0 x = []"
| "nat_le (Suc k) x = of_nat x # nat_le k (x div 256)"

primrec le_nat :: "byte list \<Rightarrow> nat" where
  "le_nat [] = 0"
| "le_nat (b # bs) = unat b + 256 * le_nat bs"

lemma length_nat_le [simp]: "length (nat_le k x) = k"
  by (induction k arbitrary: x) simp_all

lemma unat_byte_of_nat: "unat (of_nat x :: byte) = x mod 256"
  by (simp add: unat_of_nat)

lemma le_nat_nat_le: "le_nat (nat_le k x) = x mod 256 ^ k"
  by (induction k arbitrary: x) (simp_all add: unat_byte_of_nat mod_mult2_eq)

lemma unat_byte_less [simp]: "unat (b :: byte) < 256"
  using unsigned_less [where 'a = nat, of b] by simp

lemma le_nat_less: "le_nat bs < 256 ^ length bs"
proof (induction bs)
  case (Cons b bs)
  have "unat b + 256 * le_nat bs < 256 * Suc (le_nat bs)"
    by (simp add: trans_less_add1)
  also have "\<dots> \<le> 256 * 256 ^ length bs"
    using Cons.IH by (intro mult_le_mono2) simp
  finally show ?case by simp
qed simp

lemma nat_le_le_nat: "nat_le (length bs) (le_nat bs) = bs"
proof (induction bs)
  case (Cons b bs)
  have "(unat b + 256 * le_nat bs) div 256 = le_nat bs"
    by (simp add: div_mult_self2)
  moreover have "of_nat (unat b + 256 * le_nat bs) = b"
    by (rule word_unat_eq_iff [THEN iffD2])
      (simp only: unat_byte_of_nat mod_mult_self2 mod_less unat_byte_less)
  ultimately show ?case
    using Cons.IH by simp
qed simp

definition le32 :: "u32 \<Rightarrow> byte list" where
  "le32 x = nat_le 4 (unat x)"

definition un32 :: "byte list \<Rightarrow> u32" where
  "un32 bs = of_nat (le_nat bs)"

definition le16 :: "u16 \<Rightarrow> byte list" where
  "le16 x = nat_le 2 (unat x)"

definition un16 :: "byte list \<Rightarrow> u16" where
  "un16 bs = of_nat (le_nat bs)"

lemma length_le32 [simp]: "length (le32 x) = 4"
  by (simp add: le32_def)

lemma length_le16 [simp]: "length (le16 x) = 2"
  by (simp add: le16_def)

lemma unat_u32_less [simp]: "unat (x :: u32) < 4294967296"
  using unsigned_less [where 'a = nat, of x] by simp

lemma unat_u16_less [simp]: "unat (x :: u16) < 65536"
  using unsigned_less [where 'a = nat, of x] by simp

lemma un32_le32 [simp, codec_simps]: "un32 (le32 x) = x"
  by (simp add: un32_def le32_def le_nat_nat_le)

lemma un16_le16 [simp, codec_simps]: "un16 (le16 x) = x"
  by (simp add: un16_def le16_def le_nat_nat_le)

lemma le32_un32 [codec_simps]: "length bs = 4 \<Longrightarrow> le32 (un32 bs) = bs"
  using le_nat_less [of bs] nat_le_le_nat [of bs]
  by (simp add: un32_def le32_def unat_of_nat)

lemma unat_of_nat_u32: "n < 4294967296 \<Longrightarrow> unat (of_nat n :: u32) = n"
  by (simp add: unat_of_nat)

section \<open>Bounded memory\<close>

text \<open>
  \<^verbatim>\<open>std::vector::resize\<close> keeps a prefix and appends zeros. A \<^verbatim>\<open>memcpy\<close> into or out of a
  vector's buffer is defined only inside the buffer.
\<close>

definition resize :: "nat \<Rightarrow> byte list \<Rightarrow> byte list" where
  "resize n bs = take n bs @ replicate (n - length bs) 0"

definition mem_write :: "byte list \<Rightarrow> nat \<Rightarrow> byte list \<Rightarrow> byte list outcome" where
  "mem_write buf off bs =
     (if off + length bs \<le> length buf
      then Ret (take off buf @ bs @ drop (off + length bs) buf) else Undef)"

definition mem_read :: "byte list \<Rightarrow> nat \<Rightarrow> nat \<Rightarrow> byte list outcome" where
  "mem_read buf off n =
     (if off + n \<le> length buf then Ret (take n (drop off buf)) else Undef)"

lemma length_resize [simp]: "length (resize n bs) = n"
  by (simp add: resize_def)

lemma resize_grow: "length bs \<le> n \<Longrightarrow> resize n bs = bs @ replicate (n - length bs) 0"
  by (simp add: resize_def)

lemma mem_read_append:
  "off = length xs \<Longrightarrow> n = length ys \<Longrightarrow> mem_read (xs @ ys @ zs) off n = Ret ys"
  by (simp add: mem_read_def)

lemma mem_read_not_Block [simp]: "mem_read buf off n \<noteq> Block"
  by (simp add: mem_read_def)

lemma mem_read_length: "mem_read buf off n = Ret bs \<Longrightarrow> length bs = n"
  by (auto simp: mem_read_def split: if_splits)

section \<open>Decimal formatting\<close>

fun show_nat :: "nat \<Rightarrow> string" where
  "show_nat n = (if n < 10 then [char_of (48 + n)]
                 else show_nat (n div 10) @ [char_of (48 + n mod 10)])"

declare show_nat.simps [simp del]

definition to_string :: "int \<Rightarrow> string" where
  "to_string i = (if i < 0 then CHR ''-'' # show_nat (nat (- i)) else show_nat (nat i))"

primrec read_nat :: "string \<Rightarrow> nat \<Rightarrow> nat" where
  "read_nat [] acc = acc"
| "read_nat (c # cs) acc = read_nat cs (10 * acc + (of_char c - 48))"

lemma read_nat_append: "read_nat (xs @ ys) acc = read_nat ys (read_nat xs acc)"
  by (induction xs arbitrary: acc) simp_all

lemma read_nat_show_nat [simp]: "read_nat (show_nat n) 0 = n"
proof (induction n rule: show_nat.induct)
  case (1 n)
  show ?case
  proof (cases "n < 10")
    case True
    then show ?thesis by (simp add: show_nat.simps [of n])
  next
    case False
    with "1.IH" show ?thesis
      by (simp add: show_nat.simps [of n] read_nat_append)
  qed
qed

lemma show_nat_inj: "show_nat m = show_nat n \<longleftrightarrow> m = n"
  by (metis read_nat_show_nat)

lemma show_nat_digits: "c \<in> set (show_nat n) \<Longrightarrow> 48 \<le> (of_char c :: nat) \<and> (of_char c :: nat) < 58"
proof (induction n rule: show_nat.induct)
  case (1 n)
  show ?case
  proof (cases "n < 10")
    case True
    with "1.prems" show ?thesis by (simp add: show_nat.simps [of n])
  next
    case False
    then consider "c \<in> set (show_nat (n div 10))" | "c = char_of (48 + n mod 10)"
      using "1.prems" by (auto simp: show_nat.simps [of n])
    then show ?thesis
    proof cases
      case 1
      with False "1.IH" show ?thesis by simp
    next
      case 2
      then show ?thesis by simp
    qed
  qed
qed

end
