(* ===== verification/Status.thy ===== *)
theory Status
  imports Prelude
begin

text \<open>
  The values of \<^verbatim>\<open>absl::Status\<close> the sources build and inspect (a code and a message, or
  OK), and the early-return macro of \<^verbatim>\<open>servercc/types/include/macros.h\<close>. Only the
  constructors, \<^verbatim>\<open>ok()\<close>, \<^verbatim>\<open>code()\<close> and \<^verbatim>\<open>message()\<close> are used by the code.
\<close>

datatype status_code =
    InvalidArgument
  | DeadlineExceeded
  | NotFound
  | AlreadyExists
  | FailedPrecondition
  | Internal
  | Unimplemented

datatype status = OkStatus | ErrStatus status_code string

abbreviation InvalidArgumentError :: "string \<Rightarrow> status" where
  "InvalidArgumentError \<equiv> ErrStatus InvalidArgument"

abbreviation DeadlineExceededError :: "string \<Rightarrow> status" where
  "DeadlineExceededError \<equiv> ErrStatus DeadlineExceeded"

abbreviation NotFoundError :: "string \<Rightarrow> status" where
  "NotFoundError \<equiv> ErrStatus NotFound"

abbreviation AlreadyExistsError :: "string \<Rightarrow> status" where
  "AlreadyExistsError \<equiv> ErrStatus AlreadyExists"

abbreviation FailedPreconditionError :: "string \<Rightarrow> status" where
  "FailedPreconditionError \<equiv> ErrStatus FailedPrecondition"

abbreviation InternalError :: "string \<Rightarrow> status" where
  "InternalError \<equiv> ErrStatus Internal"

abbreviation UnimplementedError :: "string \<Rightarrow> status" where
  "UnimplementedError \<equiv> ErrStatus Unimplemented"

primrec status_ok :: "status \<Rightarrow> bool" where
  "status_ok OkStatus = True"
| "status_ok (ErrStatus c m) = False"

primrec status_message :: "status \<Rightarrow> string" where
  "status_message OkStatus = []"
| "status_message (ErrStatus c m) = m"

lemma status_ok_iff [simp]: "status_ok st \<longleftrightarrow> st = OkStatus"
  by (cases st) simp_all

text \<open>
  \<^verbatim>\<open>ASSERT_OK(expr, context)\<close> leaves the function with the status of \<^verbatim>\<open>expr\<close>, its code kept
  and the context put before its message, unless the status is OK. The rest of the
  function is the continuation \<open>k\<close>, the way the function returns a status is \<open>ret\<close>.
\<close>

primrec with_context :: "string \<Rightarrow> status \<Rightarrow> status" where
  "with_context ctx OkStatus = OkStatus"
| "with_context ctx (ErrStatus c m) = ErrStatus c (ctx @ '': '' @ m)"

definition ASSERT_OK :: "status \<Rightarrow> string \<Rightarrow> (status \<Rightarrow> 'r) \<Rightarrow> 'r \<Rightarrow> 'r" where
  "ASSERT_OK st ctx ret k = (if status_ok st then k else ret (with_context ctx st))"

text \<open>
  \<^verbatim>\<open>ASSERT_OK_AND_ASSIGN(variable, expr, context)\<close> is the same for an expression that gives
  a pair of a status and a value; the value is bound in the continuation.
\<close>

definition ASSERT_OK_AND_ASSIGN ::
    "status \<times> 'v \<Rightarrow> string \<Rightarrow> (status \<Rightarrow> 'r) \<Rightarrow> ('v \<Rightarrow> 'r) \<Rightarrow> 'r" where
  "ASSERT_OK_AND_ASSIGN p ctx ret k =
     (if status_ok (fst p) then k (snd p) else ret (with_context ctx (fst p)))"

lemma ASSERT_OK_simps [simp]:
  "ASSERT_OK OkStatus ctx ret k = k"
  "ASSERT_OK (ErrStatus c m) ctx ret k = ret (ErrStatus c (ctx @ '': '' @ m))"
  by (simp_all add: ASSERT_OK_def)

lemma ASSERT_OK_AND_ASSIGN_simps [simp]:
  "ASSERT_OK_AND_ASSIGN (OkStatus, v) ctx ret kk = kk v"
  "ASSERT_OK_AND_ASSIGN (ErrStatus c m, v) ctx ret kk = ret (ErrStatus c (ctx @ '': '' @ m))"
  by (simp_all add: ASSERT_OK_AND_ASSIGN_def)

end
