(* ===== verification/Sockets.thy ===== *)
theory Sockets
  imports Prelude
begin

text \<open>
  The part of the POSIX socket interface the sources call, as state passing over a record of
  what the process can observe of the kernel. The kernel's free choices (a call that fails, a
  stream read or write that is cut short) are read from a script of raw answers; once the
  script is used up every call succeeds in full. A statement over every script is a statement
  over every behaviour of the kernel, and a statement with an empty script is about a kernel
  that injects no fault.

  The component records of the program extend \<open>world\<close>, so every call works on \<open>'z world_scheme\<close>.
\<close>

record sockaddr =
  sin_family :: u16
  sin_port :: u16   \<comment> \<open>in network byte order, as the field holds it\<close>
  sin_addr :: u32   \<comment> \<open>\<^verbatim>\<open>in_addr_t\<close>, in network byte order\<close>

record addrinfo =
  ai_family :: nat
  ai_addr :: sockaddr

definition AF_INET :: nat where "AF_INET = 2"
definition AF_INET6 :: nat where "AF_INET6 = 10"

text \<open>\<^verbatim>\<open>ai_addrlen\<close>: the size of the address structure of the family, 16 or 28 bytes.\<close>

definition ai_addrlen :: "addrinfo \<Rightarrow> nat" where
  "ai_addrlen ai = (if ai_family ai = AF_INET6 then 28 else 16)"

definition sizeof_sockaddr :: nat where "sizeof_sockaddr = 16"

definition null_sockaddr :: sockaddr where
  "null_sockaddr = \<lparr>sin_family = 0, sin_port = 0, sin_addr = 0\<rparr>"

record world =
  w_open :: "fd \<Rightarrow> bool"                  \<comment> \<open>descriptors of the process that are open\<close>
  w_next :: fd                             \<comment> \<open>the descriptor the kernel hands out next\<close>
  w_in :: "fd \<Rightarrow> byte list"               \<comment> \<open>bytes the peer of a stream sends before it closes\<close>
  w_out :: "fd \<Rightarrow> byte list"              \<comment> \<open>bytes the kernel took from the process\<close>
  w_dgrams :: "fd \<Rightarrow> (sockaddr \<times> byte list) list"  \<comment> \<open>datagrams waiting to be received\<close>
  w_sent :: "(fd \<times> sockaddr \<times> byte list) list"     \<comment> \<open>datagrams sent\<close>
  w_conns :: "fd \<Rightarrow> sockaddr list"        \<comment> \<open>connections waiting to be accepted\<close>
  w_bound :: "fd \<Rightarrow> sockaddr option"
  w_listening :: "fd \<Rightarrow> bool"
  w_connected :: "fd \<Rightarrow> sockaddr option"
  w_groups :: "fd \<Rightarrow> (u32 \<times> u32) list"   \<comment> \<open>multicast memberships, group and interface\<close>
  w_closes :: "fd list"                    \<comment> \<open>every argument of \<^verbatim>\<open>close\<close>, latest first\<close>
  w_resolve :: "string option \<Rightarrow> string \<Rightarrow> addrinfo list option"  \<comment> \<open>\<^verbatim>\<open>getaddrinfo\<close>\<close>
  w_freed :: addrinfo                      \<comment> \<open>what the memory of a freed \<^verbatim>\<open>addrinfo\<close> reads as\<close>
  w_stack :: sockaddr                      \<comment> \<open>what an uninitialised local \<^verbatim>\<open>sockaddr\<close> reads as\<close>
  w_inet_addr :: "string \<Rightarrow> u32"          \<comment> \<open>\<^verbatim>\<open>inet_addr\<close>\<close>
  w_script :: "int list"                   \<comment> \<open>raw answers of the kernel to the coming calls\<close>

section \<open>System calls\<close>

definition os_answer :: "int \<Rightarrow> 'z world_scheme \<Rightarrow> int \<times> 'z world_scheme" where
  "os_answer dflt w =
     (case w_script w of
        [] \<Rightarrow> (dflt, w)
      | a # as \<Rightarrow> (a, w\<lparr>w_script := as\<rparr>))"

text \<open>\<^verbatim>\<open>recv(fd, buf, n, 0)\<close>: the return value, the bytes stored and the new state.\<close>

definition os_recv :: "fd \<Rightarrow> nat \<Rightarrow> 'z world_scheme \<Rightarrow> int \<times> byte list \<times> 'z world_scheme" where
  "os_recv f n w =
     (if \<not> w_open w f then (- 1, [], w)
      else case os_answer (int n) w of (a, w) \<Rightarrow>
        if a < 0 then (- 1, [], w)
        else let bs = take (min n (nat a)) (w_in w f)
             in (int (length bs), bs, w\<lparr>w_in := (w_in w)(f := drop (length bs) (w_in w f))\<rparr>))"

text \<open>\<^verbatim>\<open>send(fd, buf, n, 0)\<close> of a buffer that holds the bytes \<open>bs\<close>.\<close>

definition os_send :: "fd \<Rightarrow> byte list \<Rightarrow> 'z world_scheme \<Rightarrow> int \<times> 'z world_scheme" where
  "os_send f bs w =
     (if \<not> w_open w f then (- 1, w)
      else case os_answer (int (length bs)) w of (a, w) \<Rightarrow>
        if a < 0 then (- 1, w)
        else let k = min (nat a) (length bs)
             in (int k, w\<lparr>w_out := (w_out w)(f := w_out w f @ take k bs)\<rparr>))"

text \<open>
  \<^verbatim>\<open>recvfrom\<close> on a datagram socket takes one datagram, cuts it to the buffer and reports its
  source; it waits when there is none. On failure nothing is stored.
\<close>

definition os_recvfrom ::
    "fd \<Rightarrow> nat \<Rightarrow> 'z world_scheme \<Rightarrow> (int \<times> byte list \<times> sockaddr option \<times> 'z world_scheme) outcome" where
  "os_recvfrom f n w =
     (if \<not> w_open w f then Ret (- 1, [], None, w)
      else case os_answer 0 w of (a, w) \<Rightarrow>
        if a < 0 then Ret (- 1, [], None, w)
        else case w_dgrams w f of
               [] \<Rightarrow> Block
             | (src, bs) # ds \<Rightarrow>
                 Ret (int (length (take n bs)), take n bs, Some src,
                      w\<lparr>w_dgrams := (w_dgrams w)(f := ds)\<rparr>))"

text \<open>\<^verbatim>\<open>sendto\<close> on a datagram socket sends the whole datagram or fails.\<close>

definition os_sendto :: "fd \<Rightarrow> byte list \<Rightarrow> sockaddr \<Rightarrow> 'z world_scheme \<Rightarrow> int \<times> 'z world_scheme" where
  "os_sendto f bs dst w =
     (if \<not> w_open w f then (- 1, w)
      else case os_answer 0 w of (a, w) \<Rightarrow>
        if a < 0 then (- 1, w)
        else (int (length bs), w\<lparr>w_sent := w_sent w @ [(f, dst, bs)]\<rparr>))"

definition os_new_fd :: "'z world_scheme \<Rightarrow> fd \<times> 'z world_scheme" where
  "os_new_fd w = (w_next w, w\<lparr>w_open := (w_open w)(w_next w := True), w_next := w_next w + 1\<rparr>)"

definition os_socket :: "'z world_scheme \<Rightarrow> fd \<times> 'z world_scheme" where
  "os_socket w = (case os_answer 0 w of (a, w) \<Rightarrow> if a < 0 then (- 1, w) else os_new_fd w)"

text \<open>Calls on a socket that only succeed or fail, \<open>upd\<close> being their effect.\<close>

definition os_control ::
    "('z world_scheme \<Rightarrow> 'z world_scheme) \<Rightarrow> 'z world_scheme \<Rightarrow> int \<times> 'z world_scheme" where
  "os_control upd w = (case os_answer 0 w of (a, w) \<Rightarrow> if a < 0 then (- 1, w) else (0, upd w))"

definition os_setsockopt :: "fd \<Rightarrow> 'z world_scheme \<Rightarrow> int \<times> 'z world_scheme" where
  "os_setsockopt f = os_control (\<lambda>w. w)"

definition os_add_membership :: "fd \<Rightarrow> u32 \<Rightarrow> u32 \<Rightarrow> 'z world_scheme \<Rightarrow> int \<times> 'z world_scheme" where
  "os_add_membership f grp ifc =
     os_control (\<lambda>w. w\<lparr>w_groups := (w_groups w)(f := w_groups w f @ [(grp, ifc)])\<rparr>)"

definition os_bind :: "fd \<Rightarrow> sockaddr \<Rightarrow> 'z world_scheme \<Rightarrow> int \<times> 'z world_scheme" where
  "os_bind f a = os_control (\<lambda>w. w\<lparr>w_bound := (w_bound w)(f := Some a)\<rparr>)"

definition os_listen :: "fd \<Rightarrow> 'z world_scheme \<Rightarrow> int \<times> 'z world_scheme" where
  "os_listen f = os_control (\<lambda>w. w\<lparr>w_listening := (w_listening w)(f := True)\<rparr>)"

definition os_connect :: "fd \<Rightarrow> sockaddr \<Rightarrow> 'z world_scheme \<Rightarrow> int \<times> 'z world_scheme" where
  "os_connect f a = os_control (\<lambda>w. w\<lparr>w_connected := (w_connected w)(f := Some a)\<rparr>)"

definition os_accept :: "fd \<Rightarrow> 'z world_scheme \<Rightarrow> (fd \<times> sockaddr option \<times> 'z world_scheme) outcome" where
  "os_accept f w =
     (case os_answer 0 w of (a, w) \<Rightarrow>
        if a < 0 then Ret (- 1, None, w)
        else case w_conns w f of
               [] \<Rightarrow> Block
             | c # cs \<Rightarrow> (case os_new_fd (w\<lparr>w_conns := (w_conns w)(f := cs)\<rparr>) of
                            (g, w) \<Rightarrow> Ret (g, Some c, w)))"

text \<open>\<^verbatim>\<open>close\<close>: the call is recorded even when the descriptor is not open.\<close>

definition os_close :: "fd \<Rightarrow> 'z world_scheme \<Rightarrow> 'z world_scheme" where
  "os_close f w = w\<lparr>w_open := (w_open w)(f := False), w_closes := f # w_closes w\<rparr>"

section \<open>Addresses\<close>

text \<open>
  \<^verbatim>\<open>inet_ntop(AF_INET, ...)\<close> prints the four bytes of the address in memory order, joined by
  dots; \<^verbatim>\<open>htons\<close> and \<^verbatim>\<open>ntohs\<close> swap the two bytes of a port on a little-endian machine.
\<close>

definition inet_ntop :: "u32 \<Rightarrow> string" where
  "inet_ntop a =
     (case le32 a of
        [b0, b1, b2, b3] \<Rightarrow>
          show_nat (unat b0) @ ''.'' @ show_nat (unat b1) @ ''.'' @
          show_nat (unat b2) @ ''.'' @ show_nat (unat b3)
      | _ \<Rightarrow> [])"

definition swap16 :: "u16 \<Rightarrow> u16" where
  "swap16 x = un16 (rev (le16 x))"

section \<open>What the calls leave alone\<close>

named_theorems os_frame "fields of the world a system call does not write"

lemma os_answer_frame [os_frame]:
  assumes "os_answer d w = (a, w')"
  shows "w_open w' = w_open w" "w_next w' = w_next w" "w_in w' = w_in w" "w_out w' = w_out w"
    "w_dgrams w' = w_dgrams w" "w_sent w' = w_sent w" "w_conns w' = w_conns w"
    "w_bound w' = w_bound w" "w_listening w' = w_listening w" "w_connected w' = w_connected w"
    "w_groups w' = w_groups w" "w_closes w' = w_closes w" "w_resolve w' = w_resolve w"
    "w_freed w' = w_freed w" "w_stack w' = w_stack w"
    "w_inet_addr w' = w_inet_addr w" "world.more w' = world.more w"
  using assms by (auto simp: os_answer_def split: list.splits)

lemma os_answer_no_fault [simp]: "w_script w = [] \<Longrightarrow> os_answer d w = (d, w)"
  by (simp add: os_answer_def)

lemma take_append_drop_min: "take k xs @ drop (min (length xs) k) xs = xs"
  by (cases "k \<le> length xs") (simp_all add: min_def)

lemma os_recv_result:
  assumes "os_recv f n w = (r, bs, w')"
  shows "r = -1 \<and> bs = [] \<and> w_in w' = w_in w \<or>
         r = int (length bs) \<and> length bs \<le> n \<and> w_in w f = bs @ w_in w' f \<and> w_open w f"
  using assms
  by (auto simp: os_recv_def Let_def os_answer_frame take_append_drop_min
      split: prod.splits if_splits)

lemma os_recv_frame [os_frame]:
  assumes "os_recv f n w = (r, bs, w')"
  shows "w_open w' = w_open w" "w_next w' = w_next w" "w_out w' = w_out w"
    "w_dgrams w' = w_dgrams w" "w_sent w' = w_sent w" "w_closes w' = w_closes w"
    "w_resolve w' = w_resolve w" "world.more w' = world.more w" "w_conns w' = w_conns w"
    "w_bound w' = w_bound w" "w_listening w' = w_listening w" "w_connected w' = w_connected w"
    "w_groups w' = w_groups w" "w_freed w' = w_freed w" "w_stack w' = w_stack w"
    "w_inet_addr w' = w_inet_addr w"
    "g \<noteq> f \<Longrightarrow> w_in w' g = w_in w g"
  using assms
  by (auto simp: os_recv_def Let_def os_answer_frame split: prod.splits if_splits)

lemma os_recv_no_fault:
  "w_script w = [] \<Longrightarrow> w_open w f \<Longrightarrow> n \<le> length (w_in w f) \<Longrightarrow>
   os_recv f n w =
     (int n, take n (w_in w f), w\<lparr>w_in := (w_in w)(f := drop n (w_in w f))\<rparr>)"
  by (simp add: os_recv_def min_absorb2)

lemma os_send_result:
  assumes "os_send f bs w = (r, w')"
  shows "r = -1 \<and> w_out w' = w_out w \<or>
         (\<exists>k \<le> length bs. r = int k \<and> w_open w f \<and> w_out w' = (w_out w)(f := w_out w f @ take k bs))"
proof (cases "r = -1")
  case True
  with assms show ?thesis
    by (auto simp: os_send_def Let_def os_answer_frame split: prod.splits if_splits)
next
  case False
  with assms show ?thesis
    by (auto simp: os_send_def Let_def os_answer_frame split: prod.splits if_splits
        intro!: exI [of _ "nat r"])
qed

lemma os_send_frame [os_frame]:
  assumes "os_send f bs w = (r, w')"
  shows "w_open w' = w_open w" "w_next w' = w_next w" "w_in w' = w_in w"
    "w_dgrams w' = w_dgrams w" "w_sent w' = w_sent w" "w_closes w' = w_closes w"
    "w_resolve w' = w_resolve w" "world.more w' = world.more w" "w_conns w' = w_conns w"
    "w_bound w' = w_bound w" "w_listening w' = w_listening w" "w_connected w' = w_connected w"
    "w_groups w' = w_groups w" "w_freed w' = w_freed w" "w_stack w' = w_stack w"
    "w_inet_addr w' = w_inet_addr w"
    "g \<noteq> f \<Longrightarrow> w_out w' g = w_out w g"
  using assms
  by (auto simp: os_send_def Let_def os_answer_frame split: prod.splits if_splits)

lemma os_send_no_fault:
  "w_script w = [] \<Longrightarrow> w_open w f \<Longrightarrow>
   os_send f bs w = (int (length bs), w\<lparr>w_out := (w_out w)(f := w_out w f @ bs)\<rparr>)"
  by (simp add: os_send_def)

section \<open>Descriptors\<close>

text \<open>
  The descriptors of the process: all open ones are below the next one the kernel hands out.
\<close>

definition fds_ok :: "'z world_scheme \<Rightarrow> bool" where
  "fds_ok w \<longleftrightarrow> 0 \<le> w_next w \<and> (\<forall>f. w_open w f \<longrightarrow> 0 \<le> f \<and> f < w_next w)"

lemma fds_okD: "fds_ok w \<Longrightarrow> \<not> w_open w (w_next w)" "fds_ok w \<Longrightarrow> 0 \<le> w_next w"
  by (auto simp: fds_ok_def)

lemma fds_ok_cong: "w_open w' = w_open w \<Longrightarrow> w_next w' = w_next w \<Longrightarrow> fds_ok w' = fds_ok w"
  by (simp add: fds_ok_def)

lemma os_socket_cases:
  assumes "os_socket w = (f, w')" "fds_ok w"
  obtains (failed) "f = - 1" "w_open w' = w_open w" "w_next w' = w_next w" "fds_ok w'"
      "w_closes w' = w_closes w" "w_inet_addr w' = w_inet_addr w"
  | (opened) "0 \<le> f" "f = w_next w" "w_open w' = (w_open w)(f := True)" "\<not> w_open w f"
      "w_next w' = f + 1" "fds_ok w'" "w_closes w' = w_closes w"
      "w_inet_addr w' = w_inet_addr w"
proof (cases "f < 0")
  case True
  with assms show ?thesis
    by (intro failed) (auto simp: os_socket_def os_new_fd_def fds_ok_def os_answer_frame
        split: prod.splits if_splits)
next
  case False
  with assms show ?thesis
    by (intro opened) (auto simp: os_socket_def os_new_fd_def fds_ok_def os_answer_frame
        split: prod.splits if_splits)
qed

lemma fds_ok_close: "fds_ok w \<Longrightarrow> fds_ok (os_close f w)"
  by (auto simp: fds_ok_def os_close_def)

lemma os_close_simps [simp]:
  "w_open (os_close f w) = (w_open w)(f := False)"
  "w_next (os_close f w) = w_next w"
  "w_closes (os_close f w) = f # w_closes w"
  "w_in (os_close f w) = w_in w"
  "w_out (os_close f w) = w_out w"
  "w_script (os_close f w) = w_script w"
  "w_bound (os_close f w) = w_bound w"
  "w_inet_addr (os_close f w) = w_inet_addr w"
  "w_freed (os_close f w) = w_freed w"
  "w_resolve (os_close f w) = w_resolve w"
  "w_dgrams (os_close f w) = w_dgrams w"
  "w_sent (os_close f w) = w_sent w"
  "w_conns (os_close f w) = w_conns w"
  "w_stack (os_close f w) = w_stack w"
  "w_connected (os_close f w) = w_connected w"
  "world.more (os_close f w) = world.more w"
  by (simp_all add: os_close_def)

text \<open>The calls that only configure a socket keep the descriptors as they are.\<close>

lemma os_control_frame:
  assumes "os_control upd w = (r, w')"
    and "\<And>v. w_open (upd v) = w_open v" "\<And>v. w_next (upd v) = w_next v"
    and "\<And>v. w_closes (upd v) = w_closes v" "\<And>v. w_inet_addr (upd v) = w_inet_addr v"
  shows "w_open w' = w_open w" "w_next w' = w_next w" "w_closes w' = w_closes w"
    "w_inet_addr w' = w_inet_addr w"
  using assms by (auto simp: os_control_def os_answer_frame split: prod.splits if_splits)

lemma os_setsockopt_frame [os_frame]:
  assumes "os_setsockopt f w = (r, w')"
  shows "w_open w' = w_open w" "w_next w' = w_next w" "w_closes w' = w_closes w"
    "w_inet_addr w' = w_inet_addr w"
  using os_control_frame [OF assms [unfolded os_setsockopt_def]] by simp_all

lemma os_bind_frame [os_frame]:
  assumes "os_bind f a w = (r, w')"
  shows "w_open w' = w_open w" "w_next w' = w_next w" "w_closes w' = w_closes w"
    "w_inet_addr w' = w_inet_addr w"
  using os_control_frame [OF assms [unfolded os_bind_def]] by simp_all

lemma os_listen_frame [os_frame]:
  assumes "os_listen f w = (r, w')"
  shows "w_open w' = w_open w" "w_next w' = w_next w" "w_closes w' = w_closes w"
    "w_inet_addr w' = w_inet_addr w"
  using os_control_frame [OF assms [unfolded os_listen_def]] by simp_all

lemma os_connect_frame [os_frame]:
  assumes "os_connect f a w = (r, w')"
  shows "w_open w' = w_open w" "w_next w' = w_next w" "w_closes w' = w_closes w"
    "w_inet_addr w' = w_inet_addr w"
  using os_control_frame [OF assms [unfolded os_connect_def]] by simp_all

lemma os_add_membership_frame [os_frame]:
  assumes "os_add_membership f g i w = (r, w')"
  shows "w_open w' = w_open w" "w_next w' = w_next w" "w_closes w' = w_closes w"
    "w_inet_addr w' = w_inet_addr w"
  using os_control_frame [OF assms [unfolded os_add_membership_def]] by simp_all

end
