(* ===== verification/Message.thy ===== *)
theory Message
  imports Status Sockets
begin

text \<open>
  \<^verbatim>\<open>servercc/types\<close>: protocol numbers, the packed message header, reading and writing messages
  on a stream descriptor (\<^verbatim>\<open>message.cc\<close>), and the wrapping of a message with a trailing value
  (\<^verbatim>\<open>message.h\<close>). A received message owns a body vector and a header whose length field is
  the sender's claim; \<open>wf_message\<close> says that the two agree.
\<close>

section \<open>Protocols, header, message\<close>

type_synonym protocol_t = u32

definition kConnectRequestProtocol :: protocol_t where "kConnectRequestProtocol = 0x00"
definition kConnectAckRequestProtocol :: protocol_t where "kConnectAckRequestProtocol = 0x01"
definition kConnectAckResponseProtocol :: protocol_t where "kConnectAckResponseProtocol = 0x02"
definition kInternalRequestProtocol :: protocol_t where "kInternalRequestProtocol = 0x10"
definition kInternalRequestEndProtocol :: protocol_t where "kInternalRequestEndProtocol = 0x11"
definition kInternalResponseProtocol :: protocol_t where "kInternalResponseProtocol = 0x13"
definition kInternalResponseEndProtocol :: protocol_t where "kInternalResponseEndProtocol = 0x14"
definition kInternalErrorProtocol :: protocol_t where "kInternalErrorProtocol = 0x15"

record message_header =
  len :: u32
  protocol :: protocol_t

record message =
  header :: message_header
  data :: "byte list"

definition kMessageHeaderLength :: nat where "kMessageHeaderLength = 8"

text \<open>The value-initialised message of \<^verbatim>\<open>std::make_unique<Message>()\<close>.\<close>

definition empty_message :: message where
  "empty_message = \<lparr>header = \<lparr>len = 0, protocol = 0\<rparr>, data = []\<rparr>"

definition encode_header :: "message_header \<Rightarrow> byte list" where
  "encode_header h = le32 (len h) @ le32 (protocol h)"

definition decode_header :: "byte list \<Rightarrow> message_header" where
  "decode_header bs = \<lparr>len = un32 (take 4 bs), protocol = un32 (take 4 (drop 4 bs))\<rparr>"

text \<open>The number of body bytes the header announces.\<close>

abbreviation body_len :: "message \<Rightarrow> nat" where
  "body_len m \<equiv> unat (len (header m))"

lemma message_eta [simp]: "\<lparr>header = header m, data = data m\<rparr> = m"
  by (cases m) simp

definition wf_message :: "message \<Rightarrow> bool" where
  "wf_message m \<longleftrightarrow> length (data m) = body_len m"

text \<open>The bytes of a message on a stream.\<close>

definition frame :: "message \<Rightarrow> byte list" where
  "frame m = encode_header (header m) @ data m"

text \<open>\<^verbatim>\<open>message->header.length = message->body.data.size()\<close>, a \<^verbatim>\<open>size_t\<close> cut to 32 bits.\<close>

definition sync_length :: "message \<Rightarrow> message" where
  "sync_length m = m\<lparr>header := (header m)\<lparr>len := of_nat (length (data m))\<rparr>\<rparr>"

section \<open>Values that are copied as bytes\<close>

text \<open>
  \<^verbatim>\<open>wrapMessage\<close>, \<^verbatim>\<open>unwrapMessage\<close> and the handlers copy trivially copyable values to and
  from byte buffers. The contract such a type offers: a fixed size, and an image that gives
  the value back.
\<close>

locale byte_codec =
  fixes enc :: "'v \<Rightarrow> byte list"
    and dec :: "byte list \<Rightarrow> 'v"
    and sz :: nat
  assumes length_enc: "length (enc v) = sz"
    and dec_enc: "dec (enc v) = v"
    and enc_dec: "length bs = sz \<Longrightarrow> enc (dec bs) = bs"
begin

lemma enc_inj: "enc v = enc v' \<longleftrightarrow> v = v'"
  by (metis dec_enc)

lemma read_back: "dec (take sz (enc v @ rest)) = v"
  by (simp add: length_enc dec_enc)

lemma split_stream: "take sz (enc v @ rest) = enc v" "drop sz (enc v @ rest) = rest"
  by (simp_all add: length_enc)

end

lemma encode_decode_header: "length bs = 8 \<Longrightarrow> encode_header (decode_header bs) = bs"
proof -
  assume "length bs = 8"
  moreover have "take 4 bs @ take 4 (drop 4 bs) = take 8 bs"
    using take_add [of 4 4 bs] by simp
  ultimately show ?thesis
    by (simp add: encode_header_def decode_header_def codec_simps)
qed

lemma le16_un16: "length bs = 2 \<Longrightarrow> le16 (un16 bs) = bs"
  using le_nat_less [of bs] nat_le_le_nat [of bs]
  by (simp add: un16_def le16_def unat_of_nat)

interpretation channel_id_codec: byte_codec le32 un32 4
  by unfold_locales (simp_all add: le32_un32)

interpretation port_codec: byte_codec le16 un16 2
  by unfold_locales (simp_all add: le16_un16)

interpretation header_codec: byte_codec encode_header decode_header 8
  by unfold_locales
    (simp_all add: encode_decode_header, simp_all add: encode_header_def decode_header_def)

lemmas encode_header_simps [simp] =
  header_codec.length_enc header_codec.dec_enc header_codec.split_stream

section \<open>Reading and writing on a stream\<close>

text \<open>\<^verbatim>\<open>readMessage(int fd)\<close>. Both \<^verbatim>\<open>recv\<close> results are signed 64-bit values when compared.\<close>

definition readMessage :: "fd \<Rightarrow> 'z world_scheme \<Rightarrow> (status \<times> message option) \<times> 'z world_scheme" where
  "readMessage f w =
     (case os_recv f kMessageHeaderLength w of (bytesRead, hb, w) \<Rightarrow>
        if bytesRead < int kMessageHeaderLength
        then ((InvalidArgumentError ''Error reading message header'', None), w)
        else let h = decode_header hb in
          if 0 < unat (len h)
          then (case os_recv f (unat (len h)) w of (bytesRead, bs, w) \<Rightarrow>
                  if bytesRead < int (unat (len h))
                  then ((InvalidArgumentError ''Error reading message body'', None), w)
                  else ((OkStatus, Some \<lparr>header = h, data = bs\<rparr>), w))
          else ((OkStatus, Some \<lparr>header = h, data = []\<rparr>), w))"

text \<open>
  \<^verbatim>\<open>readMessage(int fd, int timeout)\<close>: the read runs in a \<^verbatim>\<open>std::async\<close> task. Whether the task
  has finished when \<^verbatim>\<open>wait_for\<close> gives up is the environment's choice \<open>in_time\<close>. The destructor
  of the future waits for the task in any case, so the read has always happened when the
  function returns; on a timeout its result is dropped.
\<close>

definition readMessage_timeout ::
    "bool \<Rightarrow> fd \<Rightarrow> 'z world_scheme \<Rightarrow> (status \<times> message option) \<times> 'z world_scheme" where
  "readMessage_timeout in_time f w =
     (case readMessage f w of (result, w) \<Rightarrow>
        if \<not> in_time then ((DeadlineExceededError ''Timeout reading message'', None), w)
        else (result, w))"

text \<open>\<^verbatim>\<open>writeMessage\<close>. The header takes the size of the body before anything is sent.\<close>

definition writeMessage :: "fd \<Rightarrow> message \<Rightarrow> 'z world_scheme \<Rightarrow> status \<times> 'z world_scheme" where
  "writeMessage f m w =
     (if f < 0 then (InvalidArgumentError ''Invalid file descriptor'', w)
      else let m = sync_length m in
        case os_send f (encode_header (header m)) w of (bytesWritten, w) \<Rightarrow>
          if bytesWritten < int kMessageHeaderLength
          then (InvalidArgumentError ''Error writing message header'', w)
          else case os_send f (take (body_len m) (data m)) w of (bytesWritten, w) \<Rightarrow>
            if bytesWritten < int (body_len m)
            then (InvalidArgumentError ''Error writing message body'', w)
            else (OkStatus, w))"

section \<open>Wrapping\<close>

text \<open>
  \<^verbatim>\<open>wrapMessage<T, Protocol>\<close> appends the header and a value to the body in place. The size
  \<^verbatim>\<open>header.length + kMessageHeaderLength\<close> is a 32-bit sum, the addition of \<^verbatim>\<open>sizeof(T)\<close> a 64-bit
  one, and \<^verbatim>\<open>offset\<close> is a 32-bit variable.
\<close>

definition wrapMessage ::
    "('v \<Rightarrow> byte list) \<Rightarrow> nat \<Rightarrow> protocol_t \<Rightarrow> 'v \<Rightarrow> message \<Rightarrow> message outcome" where
  "wrapMessage enc sz Protocol v m =
     (let buf = resize (unat (len (header m) + of_nat kMessageHeaderLength) + sz) (data m);
          offset = len (header m)
      in bind_outcome (mem_write buf (unat offset) (encode_header (header m))) (\<lambda>buf.
         let offset = offset + of_nat kMessageHeaderLength
         in bind_outcome (mem_write buf (unat offset) (enc v)) (\<lambda>buf.
            Ret \<lparr>header = \<lparr>len = of_nat (unat offset + sz), protocol = Protocol\<rparr>, data = buf\<rparr>)))"

text \<open>\<^verbatim>\<open>unwrapMessage<T>\<close>; \<^verbatim>\<open>offset\<close> is a \<^verbatim>\<open>size_t\<close> here and the first check keeps it from wrapping.\<close>

definition unwrapMessage ::
    "(byte list \<Rightarrow> 'v) \<Rightarrow> nat \<Rightarrow> message \<Rightarrow> (status \<times> 'v option \<times> message option) outcome" where
  "unwrapMessage dec sz m =
     (if body_len m < sz + kMessageHeaderLength
      then Ret (InvalidArgumentError ''Invalid message length'', None, None)
      else let offset = body_len m - sz in
        bind_outcome (mem_read (data m) offset sz) (\<lambda>value.
        let offset = offset - kMessageHeaderLength in
        bind_outcome (mem_read (data m) offset kMessageHeaderLength) (\<lambda>hb.
        let h = decode_header hb in
        if unat (len h) \<noteq> offset
        then Ret (InvalidArgumentError ''Invalid message length'', None, None)
        else Ret (OkStatus, Some (dec value), Some \<lparr>header = h, data = take offset (data m)\<rparr>))))"

section \<open>Frames on a stream\<close>

lemma frame_simps [simp]:
  "take 8 (frame m @ rest) = encode_header (header m)"
  "drop 8 (frame m @ rest) = data m @ rest"
  "take 8 (frame m) = encode_header (header m)"
  "drop 8 (frame m) = data m"
  "length (frame m) = 8 + length (data m)"
  by (simp_all add: frame_def)

lemma wf_message_sync: "length (data m) < 4294967296 \<Longrightarrow> wf_message (sync_length m)"
  by (simp add: wf_message_def sync_length_def unat_of_nat_u32)

lemma sync_length_wf: "wf_message m \<Longrightarrow> sync_length m = m"
  by (simp add: wf_message_def sync_length_def)

lemma data_sync_length [simp]: "data (sync_length m) = data m"
  by (simp add: sync_length_def)

lemma protocol_sync_length [simp]: "protocol (header (sync_length m)) = protocol (header m)"
  by (simp add: sync_length_def)

text \<open>What a read took from the stream, for every behaviour of the kernel.\<close>

lemma readMessage_sound:
  assumes "readMessage f w = ((st, mo), w')"
  shows "st = OkStatus \<and> (\<exists>m. mo = Some m \<and> wf_message m \<and> w_in w f = frame m @ w_in w' f) \<or>
         (\<exists>msg. st = InvalidArgumentError msg) \<and> mo = None"
proof -
  obtain r hb w1 where r1: "os_recv f 8 w = (r, hb, w1)"
    by (metis prod_cases3)
  show ?thesis
  proof (cases "r < 8")
    case True
    with assms r1 show ?thesis by (auto simp: readMessage_def kMessageHeaderLength_def)
  next
    case False
    with os_recv_result [OF r1] have hb: "length hb = 8" and in1: "w_in w f = hb @ w_in w1 f"
      by auto
    let ?h = "decode_header hb"
    have enc: "encode_header ?h = hb" using hb by (rule encode_decode_header)
    obtain k bs w2 where r2: "os_recv f (unat (len ?h)) w1 = (k, bs, w2)"
      by (metis prod_cases3)
    from os_recv_result [OF r2] assms r1 r2 False in1 enc show ?thesis
      by (auto simp: readMessage_def kMessageHeaderLength_def Let_def frame_def wf_message_def
          split: if_splits)
  qed
qed

lemma readMessage_frame [os_frame]:
  assumes "readMessage f w = (res, w')"
  shows "w_open w' = w_open w" "w_next w' = w_next w" "w_out w' = w_out w"
    "w_dgrams w' = w_dgrams w" "w_sent w' = w_sent w" "w_closes w' = w_closes w"
    "w_resolve w' = w_resolve w" "world.more w' = world.more w"
    "g \<noteq> f \<Longrightarrow> w_in w' g = w_in w g"
  using assms
  by (auto simp: readMessage_def Let_def os_recv_frame split: prod.splits if_splits)

text \<open>A kernel that delivers in full lets the reader take exactly the first frame.\<close>

lemma readMessage_complete:
  assumes "w_script w = []" "w_open w f" "wf_message m" "w_in w f = frame m @ rest"
  shows "readMessage f w = ((OkStatus, Some m), w\<lparr>w_in := (w_in w)(f := rest)\<rparr>)"
proof -
  have "\<lparr>header = header m, data = data m\<rparr> = m" by (cases m) simp
  with assms show ?thesis
    by (cases "body_len m = 0") (simp_all add: readMessage_def kMessageHeaderLength_def os_recv_no_fault wf_message_def Let_def)
qed

primrec read_all :: "nat \<Rightarrow> fd \<Rightarrow> 'z world_scheme \<Rightarrow> message list \<times> 'z world_scheme" where
  "read_all 0 f w = ([], w)"
| "read_all (Suc n) f w =
     (case readMessage f w of
        ((st, Some m), w) \<Rightarrow> (case read_all n f w of (ms, w) \<Rightarrow> (m # ms, w))
      | ((st, None), w) \<Rightarrow> ([], w))"

lemma read_all_frames:
  assumes "w_script w = []" "w_open w f" "\<forall>m \<in> set ms. wf_message m"
    "w_in w f = concat (map frame ms) @ rest"
  shows "read_all (length ms) f w = (ms, w\<lparr>w_in := (w_in w)(f := rest)\<rparr>)"
  using assms
proof (induction ms arbitrary: w)
  case (Cons m ms)
  let ?w = "w\<lparr>w_in := (w_in w)(f := concat (map frame ms) @ rest)\<rparr>"
  have "readMessage f w = ((OkStatus, Some m), ?w)"
    using Cons.prems by (intro readMessage_complete) simp_all
  moreover have "read_all (length ms) f ?w = (ms, ?w\<lparr>w_in := (w_in ?w)(f := rest)\<rparr>)"
    using Cons.prems by (intro Cons.IH) simp_all
  ultimately show ?case by (simp del: fun_upd_apply)
qed (auto simp: fun_upd_idem)

section \<open>The writers of the library\<close>

text \<open>
  Several functions put one message on a stream descriptor. Their contract: on OK exactly the
  frame of the message that \<open>img\<close> gives has been sent, on an error a prefix of it, and no
  other stream is touched.
\<close>

locale stream_writer =
  fixes sends :: "fd \<Rightarrow> message \<Rightarrow> 'z world_scheme \<Rightarrow> status \<Rightarrow> 'z world_scheme \<Rightarrow> bool"
    and img :: "message \<Rightarrow> message"
    and sendable :: "message \<Rightarrow> bool"
  assumes sends_ok:
      "sends f m w OkStatus w' \<Longrightarrow> sendable m \<Longrightarrow> w_out w' f = w_out w f @ frame (img m)"
    and sends_err:
      "sends f m w st w' \<Longrightarrow> sendable m \<Longrightarrow> \<exists>k. w_out w' f = w_out w f @ take k (frame (img m))"
    and sends_other: "sends f m w st w' \<Longrightarrow> g \<noteq> f \<Longrightarrow> w_out w' g = w_out w g"
    and sends_in: "sends f m w st w' \<Longrightarrow> w_in w' = w_in w"
    and img_wf: "sendable m \<Longrightarrow> wf_message (img m)"

primrec send_all ::
    "(fd \<Rightarrow> message \<Rightarrow> 'w \<Rightarrow> status \<Rightarrow> 'w \<Rightarrow> bool) \<Rightarrow> fd \<Rightarrow> message list \<Rightarrow> 'w \<Rightarrow> 'w \<Rightarrow> bool" where
  "send_all R f [] w w' \<longleftrightarrow> w' = w"
| "send_all R f (m # ms) w w' \<longleftrightarrow> (\<exists>v. R f m w OkStatus v \<and> send_all R f ms v w')"

context stream_writer
begin

lemma send_all_out:
  "send_all sends f ms w w' \<Longrightarrow> \<forall>m \<in> set ms. sendable m \<Longrightarrow>
   w_out w' f = w_out w f @ concat (map (frame \<circ> img) ms)"
  by (induction ms arbitrary: w) (auto dest!: sends_ok)

lemma send_all_other: "send_all sends f ms w w' \<Longrightarrow> g \<noteq> f \<Longrightarrow> w_out w' g = w_out w g"
  by (induction ms arbitrary: w) (auto dest: sends_other)

text \<open>
  The far end of the stream, reading as many messages as were sent, gets them all and in
  order, whatever follows them on the wire.
\<close>

lemma send_all_read_all:
  assumes sent: "send_all sends f ms w w'" and ok: "\<forall>m \<in> set ms. sendable m"
    and reader: "w_script r = []" "w_open r g"
    and wire: "w_out w f = []" "w_in r g = w_out w' f @ rest"
  shows "read_all (length ms) g r = (map img ms, r\<lparr>w_in := (w_in r)(g := rest)\<rparr>)"
proof -
  have "w_in r g = concat (map frame (map img ms)) @ rest"
    using send_all_out [OF sent ok] wire by (simp add: comp_def)
  moreover have "\<forall>m \<in> set (map img ms). wf_message m"
    using ok img_wf by auto
  ultimately have "read_all (length (map img ms)) g r =
      (map img ms, r\<lparr>w_in := (w_in r)(g := rest)\<rparr>)"
    using reader by (intro read_all_frames)
  then show ?thesis by simp
qed

end

text \<open>\<^verbatim>\<open>writeMessage\<close> keeps the contract for every message whose body fits the length field.\<close>

lemma writeMessage_result:
  assumes "writeMessage f m w = (st, w')"
  shows "\<exists>k. w_out w' = (w_out w)(f := w_out w f @ take k
           (encode_header (header (sync_length m)) @ take (body_len (sync_length m)) (data m))) \<and>
         (st = OkStatus \<longrightarrow> 8 + body_len (sync_length m) \<le> k)"
proof (cases "f < 0")
  case True
  with assms show ?thesis by (intro exI [of _ 0]) (auto simp: writeMessage_def)
next
  case False
  let ?m = "sync_length m"
  let ?hb = "encode_header (header ?m)" and ?db = "take (body_len ?m) (data m)"
  obtain r w1 where s1: "os_send f ?hb w = (r, w1)" by fastforce
  obtain q w2 where s2: "os_send f ?db w1 = (q, w2)" by fastforce
  show ?thesis
  proof (cases "r < 8")
    case True
    with assms s1 False have w': "w' = w1" and "st \<noteq> OkStatus"
      by (auto simp: writeMessage_def kMessageHeaderLength_def)
    from os_send_result [OF s1] obtain k where "k \<le> 8" "w_out w1 = (w_out w)(f := w_out w f @ take k ?hb)"
      by (auto simp: fun_upd_idem intro: that [of 0])
    with w' \<open>st \<noteq> OkStatus\<close> show ?thesis by (intro exI [of _ k]) simp
  next
    case not_short: False
    with os_send_result [OF s1] have o1: "w_out w1 = (w_out w)(f := w_out w f @ ?hb)" by auto
    from assms s1 s2 False not_short
    have w': "w' = w2" and ok: "st = OkStatus \<longrightarrow> \<not> q < int (body_len ?m)"
      by (auto simp: writeMessage_def kMessageHeaderLength_def Let_def split: if_splits)
    from os_send_result [OF s2] show ?thesis
    proof
      assume "q = - 1 \<and> w_out w2 = w_out w1"
      with o1 w' ok show ?thesis by (intro exI [of _ 8]) auto
    next
      assume "\<exists>k\<le>length ?db. q = int k \<and> w_open w1 f \<and> w_out w2 = (w_out w1)(f := w_out w1 f @ take k ?db)"
      then obtain k where "q = int k" "w_out w2 = (w_out w1)(f := w_out w1 f @ take k ?db)" by blast
      with o1 w' have "w_out w' = (w_out w)(f := w_out w f @ take (8 + k) (?hb @ ?db))" by simp
      moreover have "st = OkStatus \<longrightarrow> 8 + body_len ?m \<le> 8 + k"
        using ok \<open>q = int k\<close> by auto
      ultimately show ?thesis by blast
    qed
  qed
qed

lemma writeMessage_frame [os_frame]:
  assumes "writeMessage f m w = (st, w')"
  shows "w_open w' = w_open w" "w_next w' = w_next w" "w_in w' = w_in w"
    "w_dgrams w' = w_dgrams w" "w_sent w' = w_sent w" "w_closes w' = w_closes w"
    "w_resolve w' = w_resolve w" "world.more w' = world.more w"
    "g \<noteq> f \<Longrightarrow> w_out w' g = w_out w g"
  using assms
  by (auto simp: writeMessage_def Let_def os_send_frame split: prod.splits if_splits)

lemma frame_sync: "frame (sync_length m) =
    encode_header (header (sync_length m)) @ data m"
  by (simp add: frame_def)

lemma writeMessage_frames:
  assumes wr: "writeMessage f m w = (st, w')" and small: "length (data m) < 4294967296"
  shows "\<exists>k. w_out w' = (w_out w)(f := w_out w f @ take k (frame (sync_length m)))"
    and "st = OkStatus \<Longrightarrow> w_out w' = (w_out w)(f := w_out w f @ frame (sync_length m))"
proof -
  have "body_len (sync_length m) = length (data m)"
    using wf_message_sync [OF small] by (simp add: wf_message_def)
  then have img: "encode_header (header (sync_length m)) @ take (body_len (sync_length m)) (data m)
      = frame (sync_length m)" and "length (frame (sync_length m)) = 8 + body_len (sync_length m)"
    by (simp_all add: frame_sync)
  with writeMessage_result [OF wr] obtain k
    where "w_out w' = (w_out w)(f := w_out w f @ take k (frame (sync_length m)))"
      and "st = OkStatus \<longrightarrow> length (frame (sync_length m)) \<le> k"
    by auto
  then show "\<exists>k. w_out w' = (w_out w)(f := w_out w f @ take k (frame (sync_length m)))"
    and "st = OkStatus \<Longrightarrow> w_out w' = (w_out w)(f := w_out w f @ frame (sync_length m))"
    by auto
qed

interpretation message_writer: stream_writer
  "\<lambda>f m w st w'. writeMessage f m w = (st, w')" sync_length
  "\<lambda>m. length (data m) < 4294967296"
  by unfold_locales
    (auto simp: os_frame wf_message_sync writeMessage_frames(2),
     metis fun_upd_same writeMessage_frames(1))

section \<open>Wrapping and unwrapping\<close>

text \<open>
  The message \<^verbatim>\<open>wrapMessage\<close> produces while no 32-bit sum wraps: body, old header, value.
\<close>

definition wrapped :: "('v \<Rightarrow> byte list) \<Rightarrow> nat \<Rightarrow> protocol_t \<Rightarrow> 'v \<Rightarrow> message \<Rightarrow> message" where
  "wrapped enc sz P v m =
     \<lparr>header = \<lparr>len = of_nat (body_len m + 8 + sz), protocol = P\<rparr>,
      data = resize (body_len m) (data m) @ encode_header (header m) @ enc v\<rparr>"

lemma unat_plus_header:
  "unat (l + of_nat kMessageHeaderLength :: u32) =
     (if unat l < 4294967288 then unat l + 8 else unat l - 4294967288)"
  by (simp add: unat_plus_if' kMessageHeaderLength_def)

lemma resize_resize_append:
  "n \<le> k \<Longrightarrow> take n (resize k bs) = resize n bs"
  by (auto simp: resize_def min_def)

lemma mem_write_at_end:
  "mem_write buf off bs = Ret buf' \<Longrightarrow> off + length bs = length buf \<Longrightarrow> buf' = take off buf @ bs"
  by (simp add: mem_write_def)

lemma unwrapMessage_split:
  assumes "data m = body @ hb @ vb" "length hb = 8" "length vb = sz"
    "body_len m = length body + 8 + sz"
  shows "unwrapMessage dec sz m =
    (if unat (len (decode_header hb)) = length body
     then Ret (OkStatus, Some (dec vb), Some \<lparr>header = decode_header hb, data = body\<rparr>)
     else Ret (InvalidArgumentError ''Invalid message length'', None, None))"
  using assms by (simp add: unwrapMessage_def kMessageHeaderLength_def mem_read_def)

text \<open>A message whose body has the announced size is never read out of bounds.\<close>

lemma unwrapMessage_wf:
  assumes wf: "wf_message m"
  obtains (short) "body_len m < sz + 8"
      "unwrapMessage dec sz m = Ret (InvalidArgumentError ''Invalid message length'', None, None)"
  | (long) body hb vb where "data m = body @ hb @ vb" "length hb = 8" "length vb = sz"
      "body_len m = length body + 8 + sz"
proof (cases "body_len m < sz + 8")
  case True
  then show ?thesis by (intro short) (simp_all add: unwrapMessage_def kMessageHeaderLength_def)
next
  case False
  let ?k = "body_len m - sz - 8"
  show ?thesis
  proof (rule long [of "take ?k (data m)" "take 8 (drop ?k (data m))" "drop (?k + 8) (data m)"])
    show "data m = take ?k (data m) @ take 8 (drop ?k (data m)) @ drop (?k + 8) (data m)"
      using append_take_drop_id [of ?k "data m"] append_take_drop_id [of 8 "drop ?k (data m)"]
      by (simp add: add.commute)
  qed (use False wf in \<open>simp_all add: wf_message_def\<close>)
qed

lemma body_len_wrapped [simp]:
  "body_len m + 8 + sz < 4294967296 \<Longrightarrow> body_len (wrapped enc sz P v m) = body_len m + 8 + sz"
  using unat_of_nat_u32 [of "body_len m + 8 + sz"]
  by (simp add: wrapped_def del: of_nat_add)

context byte_codec
begin

lemma wrapMessage_wrapped:
  assumes "body_len m + 8 < 4294967296"
  shows "wrapMessage enc sz P v m = Ret (wrapped enc sz P v m)"
  using assms
  by (simp add: wrapMessage_def wrapped_def unat_plus_header mem_write_def length_enc
      kMessageHeaderLength_def [symmetric] Let_def)
    (simp add: kMessageHeaderLength_def resize_resize_append add.assoc)

lemma wrapMessage_overflow:
  assumes "4294967296 \<le> body_len m + 8" "sz < 4294967296"
  shows "wrapMessage enc sz P v m = Undef"
proof -
  have "unat (len (header m) + of_nat kMessageHeaderLength) + sz < body_len m + 8"
    unfolding unat_plus_header using assms by simp
  then show ?thesis
    by (simp add: wrapMessage_def mem_write_def)
qed

text \<open>
  Unwrapping gives back the value and the message, header included: the wrapped length must
  fit the length field, and the body must have the announced size.
\<close>

lemma unwrap_wrapped:
  assumes "wf_message m" "body_len m + 8 + sz < 4294967296"
  shows "unwrapMessage dec sz (wrapped enc sz P v m) = Ret (OkStatus, Some v, Some m)"
proof -
  let ?w = "wrapped enc sz P v m"
  have "resize (body_len m) (data m) = data m"
    using assms by (simp add: wf_message_def resize_def)
  then have "data ?w = data m @ encode_header (header m) @ enc v"
    by (simp add: wrapped_def)
  moreover have "body_len ?w = length (data m) + 8 + sz"
    using assms by (simp add: wf_message_def)
  ultimately show ?thesis
    using assms by (subst unwrapMessage_split)
      (auto simp: length_enc dec_enc wf_message_def)
qed

lemma wf_wrapped:
  "body_len m + 8 + sz < 4294967296 \<Longrightarrow> wf_message (wrapped enc sz P v m)"
  by (simp add: wf_message_def) (simp add: wrapped_def length_enc)

text \<open>Conversely, whatever unwraps is the wrapping of its parts under its own protocol.\<close>

lemma wrapped_unwrap:
  assumes "wf_message m" "unwrapMessage dec sz m = Ret (OkStatus, Some v, Some m')"
  shows "m = wrapped enc sz (protocol (header m)) v m' \<and> wf_message m'"
  using assms(1)
proof (cases rule: unwrapMessage_wf [where sz = sz and dec = dec])
  case short
  with assms(2) show ?thesis by simp
next
  case (long body hb vb)
  from assms(2) unwrapMessage_split [OF long, of dec]
  have v: "v = dec vb" and m': "m' = \<lparr>header = decode_header hb, data = body\<rparr>"
    and l: "unat (len (decode_header hb)) = length body"
    by (auto split: if_splits)
  have "wf_message m'" using m' l by (simp add: wf_message_def)
  moreover have "header m = \<lparr>len = of_nat (length body + 8 + sz), protocol = protocol (header m)\<rparr>"
    using long(4) by (metis (full_types) message_header.surjective old.unit.exhaust word_of_unat)
  moreover have "data m = resize (body_len m') (data m') @ encode_header (header m') @ enc v"
    using long l m' v by (simp add: resize_def encode_decode_header enc_dec)
  ultimately show ?thesis
    using l m' by (simp add: wrapped_def message.equality)
qed

end

section \<open>Properties\<close>

definition sample_message :: message where
  "sample_message = \<lparr>header = \<lparr>len = 3, protocol = 7\<rparr>, data = [1, 2, 3]\<rparr>"

definition sample_world :: world where
  "sample_world =
     \<lparr>w_open = (\<lambda>f. f = 4), w_next = 5, w_in = (\<lambda>_. []), w_out = (\<lambda>_. []),
      w_dgrams = (\<lambda>_. []), w_sent = [], w_conns = (\<lambda>_. []), w_bound = (\<lambda>_. None),
      w_listening = (\<lambda>_. False), w_connected = (\<lambda>_. None), w_groups = (\<lambda>_. []),
      w_closes = [], w_resolve = (\<lambda>_ _. None),
      w_freed = \<lparr>ai_family = 2, ai_addr = null_sockaddr\<rparr>, w_stack = null_sockaddr,
      w_inet_addr = (\<lambda>_. 0), w_script = []\<rparr>"

lemma sample_world_simps [simp]:
  "w_open sample_world = (\<lambda>f. f = 4)" "w_next sample_world = 5" "w_in sample_world = (\<lambda>_. [])"
  "w_out sample_world = (\<lambda>_. [])" "w_dgrams sample_world = (\<lambda>_. [])" "w_sent sample_world = []"
  "w_conns sample_world = (\<lambda>_. [])" "w_closes sample_world = []" "w_script sample_world = []"
  "w_stack sample_world = null_sockaddr" "w_inet_addr sample_world = (\<lambda>_. 0)"
  "w_freed sample_world = \<lparr>ai_family = 2, ai_addr = null_sockaddr\<rparr>"
  by (simp_all add: sample_world_def)

lemma sample_message_simps [simp]:
  "header sample_message = \<lparr>len = 3, protocol = 7\<rparr>" "data sample_message = [1, 2, 3]"
  by (simp_all add: sample_message_def)

lemma wf_sample [simp]: "wf_message sample_message"
  by (simp add: wf_message_def)

text \<open>
  C29. Messages written one after the other with \<^verbatim>\<open>writeMessage\<close> on a stream are read back at the
  far end by as many calls of \<^verbatim>\<open>readMessage\<close>: the same messages, in the same order, their
  length field set to the size of the body, and nothing after them is consumed.
\<close>

theorem write_read_stream:
  assumes "send_all (\<lambda>f m w st w'. writeMessage f m w = (st, w')) f ms w w'"
    and "\<forall>m \<in> set ms. length (data m) < 4294967296"
    and "w_script r = []" "w_open r g"
    and "w_out w f = []" "w_in r g = w_out w' f @ rest"
  shows "read_all (length ms) g r = (map sync_length ms, r\<lparr>w_in := (w_in r)(g := rest)\<rparr>)"
  using assms by (rule message_writer.send_all_read_all)

theorem write_read_stream_witness:
  "let w = sample_world;
       w' = snd (writeMessage 4 sample_message w);
       r = sample_world\<lparr>w_in := (\<lambda>_. w_out w' 4 @ [9, 9])\<rparr>
   in read_all 1 4 r = ([sample_message], r\<lparr>w_in := (w_in r)(4 := [9, 9])\<rparr>)"
proof -
  let ?w = sample_world
  let ?w' = "snd (writeMessage 4 sample_message ?w)"
  let ?r = "sample_world\<lparr>w_in := (\<lambda>_. w_out ?w' 4 @ [9, 9])\<rparr>"
  have ok: "fst (writeMessage 4 sample_message ?w) = OkStatus"
    by (simp add: writeMessage_def os_send_def sample_world_def sample_message_def
        kMessageHeaderLength_def sync_length_def Let_def)
  then have "send_all (\<lambda>f m w st w'. writeMessage f m w = (st, w')) 4 [sample_message] ?w ?w'"
    by (simp add: prod_eq_iff)
  then have "read_all (length [sample_message]) 4 ?r =
      (map sync_length [sample_message], ?r\<lparr>w_in := (w_in ?r)(4 := [9, 9])\<rparr>)"
    by (rule write_read_stream) (simp_all add: sample_world_def sample_message_def)
  then show ?thesis
    by (simp add: sync_length_wf Let_def del: read_all.simps)
qed

text \<open>
  C31. Whatever the kernel does, a read that returns OK has taken exactly one frame off the
  stream and its body has the announced length; otherwise it returns an invalid-argument
  status and no message.
\<close>

theorem readMessage_frames:
  "case readMessage f w of
     ((OkStatus, Some m), w') \<Rightarrow> wf_message m \<and> w_in w f = frame m @ w_in w' f
   | ((ErrStatus c _, None), w') \<Rightarrow> c = InvalidArgument
   | _ \<Rightarrow> False"
  by (auto split: prod.splits status.splits option.splits dest!: readMessage_sound)

text \<open>
  A kernel that delivers fewer than eight bytes to the first \<^verbatim>\<open>recv\<close> makes the read fail,
  although the whole message is there, and leaves the stream in the middle of the header:
  \<^verbatim>\<open>readMessage\<close> does not put partial reads together.
\<close>

theorem readMessage_short_read:
  assumes "w_script w = [int k]" "k < 8" "w_open w f" "w_in w f = frame m @ rest"
  shows "readMessage f w =
    ((InvalidArgumentError ''Error reading message header'', None),
     w\<lparr>w_script := [], w_in := (w_in w)(f := drop k (frame m) @ rest)\<rparr>)"
  using assms
  by (simp add: readMessage_def kMessageHeaderLength_def os_recv_def os_answer_def Let_def
      min_def)

theorem readMessage_short_read_witness:
  "fst (fst (readMessage 4 (sample_world\<lparr>w_script := [5], w_in := (\<lambda>_. frame sample_message)\<rparr>))) =
     InvalidArgumentError ''Error reading message header''"
  using readMessage_short_read [of "sample_world\<lparr>w_script := [5], w_in := (\<lambda>_. frame sample_message)\<rparr>"
      5 4 sample_message "[]"]
  by (simp add: sample_world_def)

text \<open>
  A read with a timeout that expires returns a deadline error, but the task it started has
  run to its end: the message is off the stream and lost to the caller.
\<close>

theorem readMessage_timeout_loses_message:
  assumes "w_script w = []" "w_open w f" "wf_message m" "w_in w f = frame m @ rest"
  shows "readMessage_timeout False f w =
    ((DeadlineExceededError ''Timeout reading message'', None), w\<lparr>w_in := (w_in w)(f := rest)\<rparr>)"
  using readMessage_complete [OF assms] by (simp add: readMessage_timeout_def)

theorem readMessage_timeout_loses_message_witness:
  "w_in (snd (readMessage_timeout False 4 (sample_world\<lparr>w_in := (\<lambda>_. frame sample_message)\<rparr>))) 4 = []"
  using readMessage_timeout_loses_message
    [of "sample_world\<lparr>w_in := (\<lambda>_. frame sample_message)\<rparr>" 4 sample_message "[]"]
  by (simp add: sample_world_def)

text \<open>
  C30. Wrapping a message with a channel id and unwrapping the result gives back the id and the
  message, its original header included, as long as the wrapped length fits 32 bits.
\<close>

theorem wrap_unwrap:
  assumes "wf_message m" "body_len m + 12 < 4294967296"
  shows "bind_outcome (wrapMessage le32 4 P i m) (unwrapMessage un32 4) =
    Ret (OkStatus, Some i, Some m)"
  using assms
  by (simp add: channel_id_codec.wrapMessage_wrapped channel_id_codec.unwrap_wrapped)

theorem wrap_unwrap_witness:
  "bind_outcome (wrapMessage le32 4 16 1023 sample_message) (unwrapMessage un32 4) =
    Ret (OkStatus, Some 1023, Some sample_message)"
  by (rule wrap_unwrap) simp_all

lemma wrap_unwrap_channel:
  "wf_message m \<Longrightarrow> body_len m + 12 < 4294967296 \<Longrightarrow> wrapMessage le32 4 P i m = Ret m' \<Longrightarrow>
   unwrapMessage un32 4 m' = Ret (OkStatus, Some i, Some m)"
  by (auto simp: channel_id_codec.wrapMessage_wrapped channel_id_codec.unwrap_wrapped)

lemma unwrap_ok_wrapMessage:
  assumes wf: "wf_message m" and ok: "unwrapMessage un32 4 m = Ret (OkStatus, Some i, Some m')"
  shows "wf_message m' \<and> body_len m' + 12 < 4294967296 \<and>
         wrapMessage le32 4 (protocol (header m)) i m' = Ret m"
proof -
  from channel_id_codec.wrapped_unwrap [OF wf ok]
  have m: "m = wrapped le32 4 (protocol (header m)) i m'" and wf': "wf_message m'" by auto
  have "length (data m) = body_len m' + 12"
    using arg_cong [OF m, of "\<lambda>m. length (data m)"] by (simp add: wrapped_def)
  then have "body_len m = body_len m' + 12" using wf by (simp add: wf_message_def)
  then have "body_len m' + 12 < 4294967296" using unat_u32_less [of "len (header m)"] by simp
  moreover from this m have "wrapMessage le32 4 (protocol (header m)) i m' = Ret m"
    by (subst channel_id_codec.wrapMessage_wrapped) simp_all
  ultimately show ?thesis using wf' by simp
qed

text \<open>
  C32. \<^verbatim>\<open>unwrapMessage\<close> on a received message accepts exactly the messages \<^verbatim>\<open>wrapMessage\<close> can
  produce, and rejects every other one with an invalid-argument status; it never reads
  outside the body.
\<close>

theorem unwrap_accepts_wrapped:
  assumes wf: "wf_message m"
  shows "unwrapMessage un32 4 m =
    (if \<exists>i m'. wf_message m' \<and> body_len m' + 12 < 4294967296 \<and>
              wrapMessage le32 4 (protocol (header m)) i m' = Ret m
     then Ret (OkStatus, Some (un32 (drop (body_len m - 4) (data m))),
               Some \<lparr>header = decode_header (take 8 (drop (body_len m - 12) (data m))),
                     data = take (body_len m - 12) (data m)\<rparr>)
     else Ret (InvalidArgumentError ''Invalid message length'', None, None))"
  using wf
proof (cases rule: unwrapMessage_wf [where sz = 4 and dec = un32])
  case short
  then show ?thesis
    by (auto dest: wrap_unwrap_channel)
next
  case (long body hb vb)
  note split = unwrapMessage_split [OF long, of un32]
  show ?thesis
  proof (cases "unat (len (decode_header hb)) = length body")
    case True
    then have ok: "unwrapMessage un32 4 m =
        Ret (OkStatus, Some (un32 vb), Some \<lparr>header = decode_header hb, data = body\<rparr>)"
      by (simp add: split)
    have ex: "\<exists>i m'. wf_message m' \<and> body_len m' + 12 < 4294967296 \<and>
        wrapMessage le32 4 (protocol (header m)) i m' = Ret m"
      using unwrap_ok_wrapMessage [OF wf ok] by blast
    have "un32 (drop (body_len m - 4) (data m)) = un32 vb"
      "take 8 (drop (body_len m - 12) (data m)) = hb" "take (body_len m - 12) (data m) = body"
      using long by simp_all
    with ok show ?thesis by (simp only: if_P [OF ex])
  next
    case False
    then have no: "unwrapMessage un32 4 m =
        Ret (InvalidArgumentError ''Invalid message length'', None, None)"
      by (simp add: split)
    then have "\<not> (\<exists>i m'. wf_message m' \<and> body_len m' + 12 < 4294967296 \<and>
        wrapMessage le32 4 (protocol (header m)) i m' = Ret m)"
      by (auto dest: wrap_unwrap_channel)
    with no show ?thesis by (simp only: if_False)
  qed
qed

theorem unwrap_accepts_wrapped_witness:
  "unwrapMessage un32 4 sample_message =
     Ret (InvalidArgumentError ''Invalid message length'', None, None)"
proof -
  have "\<not> (\<exists>i m'. wf_message m' \<and> body_len m' + 12 < 4294967296 \<and>
      wrapMessage le32 4 (protocol (header sample_message)) i m' = Ret sample_message)"
    by (auto dest!: wrap_unwrap_channel
        simp: sample_message_def unwrapMessage_def kMessageHeaderLength_def)
  then show ?thesis
    by (subst unwrap_accepts_wrapped [OF wf_sample]) simp
qed

text \<open>
  \<^verbatim>\<open>wrapMessage\<close> writes outside the body exactly when the header length is so large that
  the 32-bit sum with the header size wraps around.
\<close>

theorem wrapMessage_bounds:
  "wrapMessage le32 4 P i m = Undef \<longleftrightarrow> 4294967288 \<le> body_len m"
proof (cases "body_len m + 8 < 4294967296")
  case True
  then show ?thesis by (simp add: channel_id_codec.wrapMessage_wrapped)
next
  case False
  then show ?thesis by (simp add: channel_id_codec.wrapMessage_overflow)
qed

end
