(* ===== verification/Requests.thy ===== *)
theory Requests
  imports Message
begin

text \<open>
  The two requests a server hands to its handlers: \<^verbatim>\<open>TcpRequest\<close> (\<^verbatim>\<open>tcp_request.cc\<close>) owns the
  accepted descriptor until it is told to keep it alive, \<^verbatim>\<open>UdpRequest\<close> (\<^verbatim>\<open>udp_request.cc\<close>)
  holds the one message of a datagram pair. Both give out their first message once. A request
  is passed to its handler by \<^verbatim>\<open>unique_ptr\<close>, so its destructor runs when the handler is done
  with it.
\<close>

section \<open>TcpRequest\<close>

record tcp_request =
  tr_clientSocketFd :: fd
  tr_clientAddr :: sockaddr
  tr_protocol :: protocol_t
  tr_message :: "message option"
  tr_keepAlive :: bool

definition TcpRequest_new :: "fd \<Rightarrow> sockaddr \<Rightarrow> message \<Rightarrow> tcp_request" where
  "TcpRequest_new f a m =
     \<lparr>tr_clientSocketFd = f, tr_clientAddr = a, tr_protocol = protocol (header m),
      tr_message = Some m, tr_keepAlive = False\<rparr>"

definition TcpRequest_receiveMessage ::
    "tcp_request \<Rightarrow> 'z world_scheme \<Rightarrow> (status \<times> message option) \<times> tcp_request \<times> 'z world_scheme" where
  "TcpRequest_receiveMessage r w =
     (case tr_message r of
        Some m \<Rightarrow> ((OkStatus, Some m), r\<lparr>tr_message := None\<rparr>, w)
      | None \<Rightarrow> (case readMessage (tr_clientSocketFd r) w of (res, w) \<Rightarrow> (res, r, w)))"

definition TcpRequest_receiveMessage_timeout ::
    "bool \<Rightarrow> tcp_request \<Rightarrow> 'z world_scheme \<Rightarrow>
     (status \<times> message option) \<times> tcp_request \<times> 'z world_scheme" where
  "TcpRequest_receiveMessage_timeout in_time r w =
     (case tr_message r of
        Some m \<Rightarrow> ((OkStatus, Some m), r\<lparr>tr_message := None\<rparr>, w)
      | None \<Rightarrow> (case readMessage_timeout in_time (tr_clientSocketFd r) w of (res, w) \<Rightarrow> (res, r, w)))"

definition TcpRequest_sendMessage ::
    "tcp_request \<Rightarrow> message \<Rightarrow> 'z world_scheme \<Rightarrow> status \<times> 'z world_scheme" where
  "TcpRequest_sendMessage r m w = writeMessage (tr_clientSocketFd r) m w"

definition TcpRequest_terminate :: "tcp_request \<Rightarrow> 'z world_scheme \<Rightarrow> 'z world_scheme" where
  "TcpRequest_terminate r w = (if \<not> tr_keepAlive r then os_close (tr_clientSocketFd r) w else w)"

definition TcpRequest_setKeepAlive :: "tcp_request \<Rightarrow> fd \<times> tcp_request" where
  "TcpRequest_setKeepAlive r = (tr_clientSocketFd r, r\<lparr>tr_keepAlive := True\<rparr>)"

text \<open>The destructor.\<close>

definition TcpRequest_destroy :: "tcp_request \<Rightarrow> 'z world_scheme \<Rightarrow> 'z world_scheme" where
  "TcpRequest_destroy r w = TcpRequest_terminate r w"

section \<open>UdpRequest\<close>

record udp_request =
  ur_clientAddr :: sockaddr
  ur_protocol :: protocol_t
  ur_message :: "message option"

definition UdpRequest_new :: "sockaddr \<Rightarrow> message \<Rightarrow> udp_request" where
  "UdpRequest_new a m =
     \<lparr>ur_clientAddr = a, ur_protocol = protocol (header m), ur_message = Some m\<rparr>"

definition UdpRequest_receiveMessage :: "udp_request \<Rightarrow> (status \<times> message option) \<times> udp_request" where
  "UdpRequest_receiveMessage r =
     (case ur_message r of
        Some m \<Rightarrow> ((OkStatus, Some m), r\<lparr>ur_message := None\<rparr>)
      | None \<Rightarrow> ((NotFoundError ''No remaining messages'', None), r))"

definition UdpRequest_receiveMessage_timeout ::
    "int \<Rightarrow> udp_request \<Rightarrow> (status \<times> message option) \<times> udp_request" where
  "UdpRequest_receiveMessage_timeout timeout r = UdpRequest_receiveMessage r"

definition UdpRequest_sendMessage :: "udp_request \<Rightarrow> message \<Rightarrow> status" where
  "UdpRequest_sendMessage r m = UnimplementedError ''Cannot write to UDP socket''"

definition UdpRequest_terminate :: "udp_request \<Rightarrow> 'z world_scheme \<Rightarrow> 'z world_scheme" where
  "UdpRequest_terminate r w = w"

section \<open>The request interface\<close>

text \<open>Successive receives on a request, and successive answers of what is behind it.\<close>

primrec receives ::
    "('r \<Rightarrow> 'w \<Rightarrow> (status \<times> message option) \<times> 'r \<times> 'w) \<Rightarrow> nat \<Rightarrow> 'r \<Rightarrow> 'w \<Rightarrow>
     (status \<times> message option) list" where
  "receives recv 0 r w = []"
| "receives recv (Suc n) r w = (case recv r w of (res, r', w') \<Rightarrow> res # receives recv n r' w')"

primrec answers ::
    "('w \<Rightarrow> (status \<times> message option) \<times> 'w) \<Rightarrow> nat \<Rightarrow> 'w \<Rightarrow> (status \<times> message option) list" where
  "answers nxt 0 w = []"
| "answers nxt (Suc n) w = (case nxt w of (res, w') \<Rightarrow> res # answers nxt n w')"

text \<open>
  What a handler can rely on from any request that carries its first message
  (\<^verbatim>\<open>request.h\<close>): the first receive gives that message without touching the world, the
  protocol and the address of the request do not change as it is used, and once the message
  is gone a receive is answered from elsewhere (\<open>next_message\<close>).
\<close>

locale first_message_request =
  fixes receive :: "'r \<Rightarrow> 'w \<Rightarrow> (status \<times> message option) \<times> 'r \<times> 'w"
    and pending :: "'r \<Rightarrow> message option"
    and prot :: "'r \<Rightarrow> protocol_t"
    and addr :: "'r \<Rightarrow> sockaddr"
    and next_message :: "'r \<Rightarrow> 'w \<Rightarrow> (status \<times> message option) \<times> 'w"
  assumes receive_pending:
      "pending r = Some m \<Longrightarrow> \<exists>r'. receive r w = ((OkStatus, Some m), r', w) \<and> pending r' = None"
    and receive_next:
      "pending r = None \<Longrightarrow> receive r w = (fst (next_message r w), r, snd (next_message r w))"
    and receive_keeps: "receive r w = (res, r', w') \<Longrightarrow> prot r' = prot r \<and> addr r' = addr r"
    and next_of_drained: "receive r w = (res, r', w') \<Longrightarrow> next_message r' v = next_message r v"
begin

lemma receives_drained: "pending r = None \<Longrightarrow> receives receive n r w = answers (next_message r) n w"
  by (induction n arbitrary: w) (simp_all add: receive_next split: prod.splits)

lemma conversation:
  assumes "pending r = Some m"
  shows "receives receive (Suc n) r w = (OkStatus, Some m) # answers (next_message r) n w"
proof -
  obtain r' where r': "receive r w = ((OkStatus, Some m), r', w)" "pending r' = None"
    using receive_pending [OF assms] by blast
  moreover from r' have "next_message r' = next_message r"
    by (intro ext) (rule next_of_drained)
  ultimately show ?thesis by (simp add: receives_drained)
qed

end

interpretation tcp_request: first_message_request
  TcpRequest_receiveMessage tr_message tr_protocol tr_clientAddr
  "\<lambda>r. readMessage (tr_clientSocketFd r)"
  by unfold_locales
    (auto simp: TcpRequest_receiveMessage_def split: option.splits prod.splits)

interpretation udp_request: first_message_request
  "\<lambda>r w. case UdpRequest_receiveMessage r of (res, r') \<Rightarrow> (res, r', w)"
  ur_message ur_protocol ur_clientAddr
  "\<lambda>r w. ((NotFoundError ''No remaining messages'', None), w)"
  by unfold_locales
    (auto simp: UdpRequest_receiveMessage_def split: option.splits prod.splits)

section \<open>Properties\<close>

text \<open>
  A handler that keeps receiving on a TCP request sees the message the server read to
  dispatch the request, then the messages of the connection in order.
\<close>

theorem tcp_request_conversation:
  "receives TcpRequest_receiveMessage (Suc n) (TcpRequest_new f a m) w =
     (OkStatus, Some m) # answers (readMessage f) n w"
  using tcp_request.conversation [of "TcpRequest_new f a m" m n w]
  by (simp add: TcpRequest_new_def)

text \<open>
  A UDP request gives its one message and then reports that there are no more, however
  often it is asked.
\<close>

theorem udp_request_conversation:
  "receives (\<lambda>r w. case UdpRequest_receiveMessage r of (res, r') \<Rightarrow> (res, r', w))
     (Suc n) (UdpRequest_new a m) w =
   (OkStatus, Some m) # replicate n (NotFoundError ''No remaining messages'', None)"
proof -
  have "answers (Pair (NotFoundError ''No remaining messages'', None)) n w =
      replicate n (NotFoundError ''No remaining messages'', None)"
    by (induction n) simp_all
  then show ?thesis
    using udp_request.conversation [of "UdpRequest_new a m" m n w]
    by (simp add: UdpRequest_new_def)
qed

text \<open>
  Ownership of the descriptor: destroying a request closes its descriptor unless it was
  told to keep it alive, and a handler that terminates a request it still owns makes the
  destructor close the same descriptor a second time.
\<close>

theorem tcp_request_ownership:
  "w_closes (TcpRequest_destroy (TcpRequest_new f a m) w) = f # w_closes w \<and>
   w_closes (TcpRequest_destroy (snd (TcpRequest_setKeepAlive (TcpRequest_new f a m))) w) = w_closes w \<and>
   w_closes (TcpRequest_destroy (TcpRequest_new f a m) (TcpRequest_terminate (TcpRequest_new f a m) w)) =
     f # f # w_closes w"
  by (simp add: TcpRequest_destroy_def TcpRequest_terminate_def TcpRequest_setKeepAlive_def
      TcpRequest_new_def)

end
