(* ===== verification/Registry.thy ===== *)
theory Registry
  imports Message
begin

text \<open>
  The contract of the three handler tables of the library (\<^verbatim>\<open>Server\<close>, \<^verbatim>\<open>Connector\<close>,
  \<^verbatim>\<open>DistributedServer\<close>), each with its own \<^verbatim>\<open>addHandler\<close> and its own way to pick the handler of
  a protocol. Each component interprets the locale on its own operations.
\<close>

text \<open>Registering several handlers in turn, with the statuses in order.\<close>

primrec register_all ::
    "(protocol_t \<Rightarrow> 'h \<Rightarrow> 't \<Rightarrow> status \<times> 't) \<Rightarrow> (protocol_t \<times> 'h) list \<Rightarrow> 't \<Rightarrow> status list \<times> 't" where
  "register_all add [] t = ([], t)"
| "register_all add (ph # phs) t =
     (case add (fst ph) (snd ph) t of (st, t) \<Rightarrow>
        case register_all add phs t of (sts, t) \<Rightarrow> (st # sts, t))"

lemma register_all_Cons [simp]:
  "register_all add (ph # phs) t =
     (let (st, t1) = add (fst ph) (snd ph) t
      in (st # fst (register_all add phs t1), snd (register_all add phs t1)))"
  by (simp add: split_beta)

declare register_all.simps(2) [simp del]

locale handler_registry =
  fixes add :: "protocol_t \<Rightarrow> 'h \<Rightarrow> 't \<Rightarrow> status \<times> 't"
    and taken :: "protocol_t \<Rightarrow> 't \<Rightarrow> bool"
    and target :: "protocol_t \<Rightarrow> 't \<Rightarrow> 'h"
  assumes add_taken:
      "taken p t \<Longrightarrow> \<exists>msg. add p h t = (AlreadyExistsError msg, t)"
    and add_free:
      "\<not> taken p t \<Longrightarrow> \<exists>t'. add p h t = (OkStatus, t') \<and> taken p t' \<and> target p t' = h \<and>
         (\<forall>q. q \<noteq> p \<longrightarrow> taken q t' = taken q t \<and> target q t' = target q t)"
begin

lemma add_other:
  assumes "add p h t = (st, t')" "q \<noteq> p"
  shows "taken q t' = taken q t" "target q t' = target q t"
  using add_taken [of p t h] add_free [of p t h] assms by (cases "taken p t"; auto)+

lemma add_ok_iff: "fst (add p h t) = OkStatus \<longleftrightarrow> \<not> taken p t"
  using add_taken [of p t h] add_free [of p t h] by (cases "taken p t") auto

lemma taken_mono: "taken q t \<Longrightarrow> taken q (snd (add p h t)) \<and> target q (snd (add p h t)) = target q t"
  using add_taken [of p t h] add_free [of p t h] by (cases "taken p t"; cases "q = p") auto

text \<open>The first registration of a protocol wins; a later one is refused and changes nothing.\<close>

lemma second_refused:
  assumes "\<not> taken p t"
  shows "\<exists>t' msg. add p h t = (OkStatus, t') \<and> add p h' t' = (AlreadyExistsError msg, t') \<and>
    target p t' = h"
  using add_free [OF assms, of h] add_taken by blast

lemma register_all_taken:
  "taken q t \<Longrightarrow> taken q (snd (register_all add phs t)) \<and>
     target q (snd (register_all add phs t)) = target q t"
proof (induction phs arbitrary: t)
  case (Cons ph phs)
  from Cons.prems have "taken q (snd (add (fst ph) (snd ph) t)) \<and>
      target q (snd (add (fst ph) (snd ph) t)) = target q t"
    by (rule taken_mono)
  with Cons.IH [of "snd (add (fst ph) (snd ph) t)"] show ?case
    by (simp add: split_beta)
qed simp

lemma register_all_other:
  "q \<notin> fst ` set phs \<Longrightarrow> target q (snd (register_all add phs t)) = target q t \<and>
     taken q (snd (register_all add phs t)) = taken q t"
proof (induction phs arbitrary: t)
  case (Cons ph phs)
  obtain st t' where a: "add (fst ph) (snd ph) t = (st, t')" by fastforce
  with Cons add_other [OF a] show ?case by (auto split: prod.splits)
qed simp

text \<open>
  Handlers for distinct free protocols are all accepted, and each protocol then goes to its
  own handler.
\<close>

lemma register_all_ok:
  assumes "distinct (map fst phs)" "\<forall>p \<in> fst ` set phs. \<not> taken p t"
  shows "fst (register_all add phs t) = replicate (length phs) OkStatus \<and>
    (\<forall>(p, h) \<in> set phs. target p (snd (register_all add phs t)) = h)"
  using assms
proof (induction phs arbitrary: t)
  case (Cons ph phs)
  obtain p h where ph: "ph = (p, h)" by fastforce
  from Cons.prems ph obtain t' where t': "add p h t = (OkStatus, t')" "target p t' = h"
    "\<forall>q. q \<noteq> p \<longrightarrow> taken q t' = taken q t"
    using add_free [of p t h] by auto
  from Cons.prems ph have free: "\<forall>q \<in> fst ` set phs. \<not> taken q t'" and new: "p \<notin> fst ` set phs"
    using t'(3) by force+
  with Cons.IH [of t'] Cons.prems ph have
    "fst (register_all add phs t') = replicate (length phs) OkStatus"
    "\<forall>(q, k) \<in> set phs. target q (snd (register_all add phs t')) = k" by auto
  with t' ph register_all_other [OF new, of t'] show ?case by (auto split: prod.splits)
qed simp

end

end
