(* ===== verification/Servers.thy ===== *)
theory Servers
  imports Requests Registry
begin

text \<open>
  \<^verbatim>\<open>servercc/servers\<close>: the handler table of \<^verbatim>\<open>Server\<close> (\<^verbatim>\<open>server.h\<close>), the construction of the TCP
  and UDP servers from the addresses \<^verbatim>\<open>getaddrinfo\<close> gives, and one turn of their accept and
  receive loops. A handler is a parameter: how a handler of type \<open>'h\<close> acts on a request and
  the world is an argument of the operations that call it.
\<close>

section \<open>Server\<close>

text \<open>
  The table maps a protocol to a \<^verbatim>\<open>std::function\<close>, which may be empty (\<open>None\<close>): \<^verbatim>\<open>operator[]\<close>
  of \<^verbatim>\<open>handleRequest\<close> inserts an empty one for a protocol it does not find.
\<close>

record 'h server =
  srv_port :: u16
  srv_handlers :: "protocol_t \<Rightarrow> 'h option option"
  srv_defaultHandler :: 'h
  srv_serverSocketFd :: fd

definition Server_addHandler :: "protocol_t \<Rightarrow> 'h \<Rightarrow> 'h server \<Rightarrow> status \<times> 'h server" where
  "Server_addHandler p h s =
     (if srv_handlers s p \<noteq> None
      then (AlreadyExistsError ''Handler already exists for protocol.'', s)
      else (OkStatus, s\<lparr>srv_handlers := (srv_handlers s)(p \<mapsto> Some h)\<rparr>))"

definition Server_updateHandler :: "protocol_t \<Rightarrow> 'h \<Rightarrow> 'h server \<Rightarrow> status \<times> 'h server" where
  "Server_updateHandler p h s =
     (case srv_handlers s p of
        None \<Rightarrow> (NotFoundError ''Handler does not exist for protocol.'', s)
      | Some _ \<Rightarrow> (OkStatus, s\<lparr>srv_handlers := (srv_handlers s)(p \<mapsto> Some h)\<rparr>))"

text \<open>The table look-up of \<^verbatim>\<open>handleRequest\<close>, with its insertion, and the choice of the handler.\<close>

definition Server_lookup :: "protocol_t \<Rightarrow> 'h server \<Rightarrow> 'h option \<times> 'h server" where
  "Server_lookup p s =
     (case srv_handlers s p of
        None \<Rightarrow> (None, s\<lparr>srv_handlers := (srv_handlers s)(p \<mapsto> None)\<rparr>)
      | Some oh \<Rightarrow> (oh, s))"

definition Server_target :: "protocol_t \<Rightarrow> 'h server \<Rightarrow> 'h" where
  "Server_target p s =
     (case fst (Server_lookup p s) of None \<Rightarrow> srv_defaultHandler s | Some h \<Rightarrow> h)"

definition Server_handleRequest ::
    "('h \<Rightarrow> 'r \<Rightarrow> 'w \<Rightarrow> (status \<times> 'w) outcome) \<Rightarrow> protocol_t \<Rightarrow> 'r \<Rightarrow> 'h server \<Rightarrow> 'w \<Rightarrow>
     (status \<times> 'h server \<times> 'w) outcome" where
  "Server_handleRequest run p req s w =
     (case Server_lookup p s of (oh, s) \<Rightarrow>
        let handler = (case oh of None \<Rightarrow> srv_defaultHandler s | Some h \<Rightarrow> h)
        in bind_outcome (run handler req w) (\<lambda>(st, w). Ret (st, s, w)))"

lemma Server_handleRequest_target:
  "Server_handleRequest run p req s w =
     bind_outcome (run (Server_target p s) req w) (\<lambda>(st, w). Ret (st, snd (Server_lookup p s), w))"
  by (auto simp: Server_handleRequest_def Server_target_def Server_lookup_def Let_def
      split: option.splits)

interpretation server_registry: handler_registry Server_addHandler
  "\<lambda>p s. srv_handlers s p \<noteq> None" Server_target
  by unfold_locales
    (auto simp: Server_addHandler_def Server_target_def Server_lookup_def split: option.splits)

section \<open>Trying the addresses in turn\<close>

text \<open>
  Both constructors walk the address list, open a socket for each entry, set it up, and close
  it and go on when a step fails. \<open>prepare\<close> is what they do with a fresh socket.
\<close>

primrec bind_loop ::
    "(fd \<Rightarrow> addrinfo \<Rightarrow> 'z world_scheme \<Rightarrow> bool \<times> 'z world_scheme) \<Rightarrow> addrinfo list \<Rightarrow>
     'z world_scheme \<Rightarrow> fd option \<times> 'z world_scheme" where
  "bind_loop prepare [] w = (None, w)"
| "bind_loop prepare (addr # next) w =
     (case os_socket w of (f, w) \<Rightarrow>
        if f < 0 then bind_loop prepare next w
        else case prepare f addr w of (success, w) \<Rightarrow>
          if success then (Some f, w) else bind_loop prepare next (os_close f w))"

definition tcp_setup :: "fd \<Rightarrow> addrinfo \<Rightarrow> 'z world_scheme \<Rightarrow> bool \<times> 'z world_scheme" where
  "tcp_setup f addr w =
     (case os_setsockopt f w of (r, w) \<Rightarrow>
        if r < 0 then (False, w)
        else case os_bind f (ai_addr addr) w of (r, w) \<Rightarrow>
          if r < 0 then (False, w) else (True, w))"

primrec udp_join :: "fd \<Rightarrow> u32 \<Rightarrow> string list \<Rightarrow> 'z world_scheme \<Rightarrow> bool \<times> 'z world_scheme" where
  "udp_join f imr_multiaddr [] w = (True, w)"
| "udp_join f imr_multiaddr (ifc # interfaces) w =
     (case os_add_membership f imr_multiaddr (w_inet_addr w ifc) w of (r, w) \<Rightarrow>
        if r < 0 then (False, w) else udp_join f imr_multiaddr interfaces w)"

definition udp_setup ::
    "u32 \<Rightarrow> string list \<Rightarrow> fd \<Rightarrow> addrinfo \<Rightarrow> 'z world_scheme \<Rightarrow> bool \<times> 'z world_scheme" where
  "udp_setup imr_multiaddr interfaces f addr w =
     (case os_setsockopt f w of (r, w) \<Rightarrow>
        if r < 0 then (False, w)
        else case os_bind f (ai_addr addr) w of (r, w) \<Rightarrow>
          if r < 0 then (False, w) else udp_join f imr_multiaddr interfaces w)"

text \<open>
  The service name of a constructor. The port arrives as an \<^verbatim>\<open>int16_t\<close>, although the callers
  pass a \<^verbatim>\<open>uint16_t\<close>, so \<^verbatim>\<open>std::to_string\<close> prints it as a signed number.
\<close>

definition service_of_port :: "u16 \<Rightarrow> string" where
  "service_of_port port = to_string (sint port)"

text \<open>The constructors throw a string (\<open>Inl\<close>) or give the server (\<open>Inr\<close>).\<close>

definition TcpServer_new ::
    "u16 \<Rightarrow> 'h \<Rightarrow> 'z world_scheme \<Rightarrow> (string + 'h server) \<times> 'z world_scheme" where
  "TcpServer_new port defaultProcessor w =
     (case w_resolve w None (service_of_port port) of
        None \<Rightarrow> (Inl ''Error getting address info'', w)
      | Some result \<Rightarrow>
          (case bind_loop tcp_setup result w of
             (None, w) \<Rightarrow> (Inl ''Error binding to address'', w)
           | (Some f, w) \<Rightarrow>
               (case os_listen f w of (r, w) \<Rightarrow>
                  if r < 0 then (Inl ''Error listening'', w)
                  else (Inr \<lparr>srv_port = port, srv_handlers = Map.empty,
                             srv_defaultHandler = defaultProcessor, srv_serverSocketFd = f\<rparr>, w))))"

definition UdpServer_new ::
    "u16 \<Rightarrow> string \<Rightarrow> string list \<Rightarrow> 'h \<Rightarrow> 'z world_scheme \<Rightarrow>
     (string + 'h server) \<times> 'z world_scheme" where
  "UdpServer_new port groupAddress interfaces defaultProcessor w =
     (case w_resolve w None (service_of_port port) of
        None \<Rightarrow> (Inl ''Error getting address info'', w)
      | Some result \<Rightarrow>
          (case bind_loop (udp_setup (w_inet_addr w groupAddress) interfaces) result w of
             (None, w) \<Rightarrow> (Inl ''Error binding to address'', w)
           | (Some f, w) \<Rightarrow>
               (Inr \<lparr>srv_port = port, srv_handlers = Map.empty,
                     srv_defaultHandler = defaultProcessor, srv_serverSocketFd = f\<rparr>, w)))"

text \<open>The destructors.\<close>

definition Server_destroy :: "'h server \<Rightarrow> 'z world_scheme \<Rightarrow> 'z world_scheme" where
  "Server_destroy s w = os_close (srv_serverSocketFd s) w"

section \<open>The accept loop of the TCP server\<close>

text \<open>
  One turn of \<^verbatim>\<open>TcpServer::run\<close>. The handler runs inline; \<open>run\<close> is its effect, the destruction
  of the request it was given included.
\<close>

definition TcpServer_run_turn ::
    "('h \<Rightarrow> tcp_request \<Rightarrow> 'z world_scheme \<Rightarrow> (status \<times> 'z world_scheme) outcome) \<Rightarrow>
     'h server \<Rightarrow> 'z world_scheme \<Rightarrow> ('h server \<times> 'z world_scheme) outcome" where
  "TcpServer_run_turn run s w =
     bind_outcome (os_accept (srv_serverSocketFd s) w) (\<lambda>(clientSocketFd, peer, w).
       if clientSocketFd < 0 then Ret (s, w)
       else let clientAddr = (case peer of None \<Rightarrow> w_stack w | Some a \<Rightarrow> a) in
         case readMessage clientSocketFd w of ((st, message), w) \<Rightarrow>
           if \<not> status_ok st then Ret (s, os_close clientSocketFd w)
           else case message of
                  None \<Rightarrow> Undef
                | Some m \<Rightarrow>
                    let request = TcpRequest_new clientSocketFd clientAddr m
                    in bind_outcome (Server_handleRequest run (tr_protocol request) request s w)
                         (\<lambda>(res, s, w). Ret (s, w)))"

primrec TcpServer_run ::
    "('h \<Rightarrow> tcp_request \<Rightarrow> 'z world_scheme \<Rightarrow> (status \<times> 'z world_scheme) outcome) \<Rightarrow>
     nat \<Rightarrow> 'h server \<Rightarrow> 'z world_scheme \<Rightarrow> ('h server \<times> 'z world_scheme) outcome" where
  "TcpServer_run run 0 s w = Ret (s, w)"
| "TcpServer_run run (Suc n) s w =
     bind_outcome (TcpServer_run_turn run s w) (\<lambda>(s, w). TcpServer_run run n s w)"

text \<open>
  A handler gets the request by \<^verbatim>\<open>unique_ptr\<close>. \<open>act\<close> is the body of the handler and says what
  is left of the request at its end: \<open>None\<close> when the handler has moved it elsewhere.
\<close>

definition own_tcp_request ::
    "('h \<Rightarrow> tcp_request \<Rightarrow> 'z world_scheme \<Rightarrow> (status \<times> tcp_request option \<times> 'z world_scheme) outcome) \<Rightarrow>
     'h \<Rightarrow> tcp_request \<Rightarrow> 'z world_scheme \<Rightarrow> (status \<times> 'z world_scheme) outcome" where
  "own_tcp_request act h r w =
     bind_outcome (act h r w) (\<lambda>(st, left, w).
       Ret (st, case left of None \<Rightarrow> w | Some r \<Rightarrow> TcpRequest_destroy r w))"

section \<open>The receive loop of the UDP server\<close>

text \<open>
  In \<^verbatim>\<open>UdpServer::run\<close> the result of \<^verbatim>\<open>recvfrom\<close> is an \<^verbatim>\<open>int\<close> that is compared with an unsigned
  32-bit number, so C++ converts it to unsigned first.
\<close>

definition int_less_u32 :: "int \<Rightarrow> u32 \<Rightarrow> bool" where
  "int_less_u32 a b \<longleftrightarrow> (of_int a :: u32) < b"

definition UdpServer_run_turn ::
    "('h \<Rightarrow> udp_request \<Rightarrow> 'z world_scheme \<Rightarrow> (status \<times> 'z world_scheme) outcome) \<Rightarrow>
     'h server \<Rightarrow> 'z world_scheme \<Rightarrow> ('h server \<times> 'z world_scheme) outcome" where
  "UdpServer_run_turn run s w =
     (let addr = w_stack w in
      bind_outcome (os_recvfrom (srv_serverSocketFd s) kMessageHeaderLength w)
       (\<lambda>(bytes_read, hb, src, w).
        let addr = (case src of None \<Rightarrow> addr | Some a \<Rightarrow> a) in
        if int_less_u32 bytes_read (of_nat kMessageHeaderLength) then Ret (s, w)
        else let h = (if bytes_read < 0 then header empty_message else decode_header hb) in
        bind_outcome (os_recvfrom (srv_serverSocketFd s) (unat (len h)) w)
         (\<lambda>(bytes_read, bs, src, w).
          let addr = (case src of None \<Rightarrow> addr | Some a \<Rightarrow> a) in
          if int_less_u32 bytes_read (len h) then Ret (s, w)
          else let m = \<lparr>header = h, data = resize (unat (len h)) bs\<rparr>;
                   request = UdpRequest_new addr m
               in bind_outcome (Server_handleRequest run (ur_protocol request) request s w)
                    (\<lambda>(res, s, w). Ret (s, w)))))"

primrec UdpServer_run ::
    "('h \<Rightarrow> udp_request \<Rightarrow> 'z world_scheme \<Rightarrow> (status \<times> 'z world_scheme) outcome) \<Rightarrow>
     nat \<Rightarrow> 'h server \<Rightarrow> 'z world_scheme \<Rightarrow> ('h server \<times> 'z world_scheme) outcome" where
  "UdpServer_run run 0 s w = Ret (s, w)"
| "UdpServer_run run (Suc n) s w =
     bind_outcome (UdpServer_run_turn run s w) (\<lambda>(s, w). UdpServer_run run n s w)"

section \<open>Descriptors of the constructors\<close>

text \<open>
  What the address loop needs from the set-up of a socket: it does not open or close
  descriptors, and when it succeeds it establishes \<open>post\<close> for the socket and the address.
\<close>

locale socket_setup =
  fixes prepare :: "fd \<Rightarrow> addrinfo \<Rightarrow> 'z world_scheme \<Rightarrow> bool \<times> 'z world_scheme"
    and post :: "fd \<Rightarrow> addrinfo \<Rightarrow> 'z world_scheme \<Rightarrow> bool"
  assumes setup_fds:
      "prepare f a w = (b, w') \<Longrightarrow> w_open w' = w_open w \<and> w_next w' = w_next w \<and>
         w_closes w' = w_closes w \<and> w_inet_addr w' = w_inet_addr w"
    and setup_post: "prepare f a w = (True, w') \<Longrightarrow> post f a w'"
begin

lemma setup_fds_ok: "prepare f a w = (b, w') \<Longrightarrow> fds_ok w' = fds_ok w"
  by (rule fds_ok_cong) (simp_all add: setup_fds)

lemma bind_loop_fds:
  assumes "bind_loop prepare as w = (r, w')" "fds_ok w"
  shows "fds_ok w' \<and>
    (case r of
       None \<Rightarrow> w_open w' = w_open w
     | Some f \<Rightarrow> 0 \<le> f \<and> \<not> w_open w f \<and> w_open w' = (w_open w)(f := True) \<and>
                (\<exists>a \<in> set as. post f a w') \<and> w_inet_addr w' = w_inet_addr w)"
  using assms
proof (induction as arbitrary: w)
  case (Cons a as)
  obtain f w1 where sock: "os_socket w = (f, w1)" by fastforce
  show ?case
  proof (rule os_socket_cases [OF sock Cons.prems(2)], goal_cases failed opened)
    case failed
    with Cons.prems sock have "bind_loop prepare as w1 = (r, w')" by simp
    from Cons.IH [OF this failed(4)] failed show ?thesis by (auto split: option.splits)
  next
    case opened
    obtain b w2 where set: "prepare f a w1 = (b, w2)" by fastforce
    note fds = setup_fds [OF set] setup_fds_ok [OF set]
    show ?thesis
    proof (cases b)
      case True
      with Cons.prems sock set opened have "r = Some f" "w' = w2" by auto
      with fds opened setup_post [of f a w1 w2] set True show ?thesis by auto
    next
      case False
      with Cons.prems sock set opened have loop: "bind_loop prepare as (os_close f w2) = (r, w')" by auto
      have "fds_ok (os_close f w2)" using fds opened by (simp add: fds_ok_close)
      moreover have "w_open (os_close f w2) = w_open w"
        using fds opened by (simp add: fun_upd_idem)
      ultimately show ?thesis
        using Cons.IH [OF loop] fds opened(8) by (auto split: option.splits)
    qed
  qed
qed auto

end

lemma os_bind_bound: "os_bind f a w = (r, w') \<Longrightarrow> \<not> r < 0 \<Longrightarrow> w_bound w' f = Some a"
  by (auto simp: os_bind_def os_control_def split: prod.splits if_splits)

lemma os_add_membership_result:
  assumes "os_add_membership f g i w = (r, w')"
  shows "w_bound w' = w_bound w" "w_inet_addr w' = w_inet_addr w"
    "\<not> r < 0 \<Longrightarrow> w_groups w' f = w_groups w f @ [(g, i)]"
  using assms
  by (auto simp: os_add_membership_def os_control_def os_answer_frame split: prod.splits if_splits)

lemma udp_join_frame:
  "udp_join f g ifs w = (b, w') \<Longrightarrow>
   w_open w' = w_open w \<and> w_next w' = w_next w \<and> w_closes w' = w_closes w \<and>
   w_bound w' = w_bound w \<and> w_inet_addr w' = w_inet_addr w"
  by (induction ifs arbitrary: w)
    (auto simp: os_add_membership_frame os_add_membership_result split: prod.splits if_splits)

lemma udp_join_groups:
  "udp_join f g ifs w = (True, w') \<Longrightarrow>
   w_groups w' f = w_groups w f @ map (\<lambda>ifc. (g, w_inet_addr w ifc)) ifs"
  by (induction ifs arbitrary: w) (auto simp: os_add_membership_result split: prod.splits if_splits)

lemma udp_join_True:
  assumes "udp_join f g ifs w = (True, w')"
  shows "w_bound w' = w_bound w \<and> (\<forall>ifc \<in> set ifs. (g, w_inet_addr w' ifc) \<in> set (w_groups w' f))"
  using udp_join_frame [OF assms] udp_join_groups [OF assms] by auto

interpretation tcp_setup: socket_setup tcp_setup "\<lambda>f a w. w_bound w f = Some (ai_addr a)"
  by unfold_locales
    (auto simp: tcp_setup_def os_setsockopt_frame os_bind_frame os_bind_bound
      split: prod.splits if_splits)

interpretation udp_setup: socket_setup "udp_setup grp ifs"
  "\<lambda>f a w. w_bound w f = Some (ai_addr a) \<and>
     (\<forall>ifc \<in> set ifs. (grp, w_inet_addr w ifc) \<in> set (w_groups w f))"
  by unfold_locales
    (auto simp: udp_setup_def os_setsockopt_frame os_bind_frame os_bind_bound
      split: prod.splits if_splits dest: udp_join_frame udp_join_True)

section \<open>Datagrams\<close>

lemma os_recvfrom_no_fault:
  "w_script w = [] \<Longrightarrow> w_open w f \<Longrightarrow> w_dgrams w f = (src, bs) # ds \<Longrightarrow>
   os_recvfrom f n w =
     Ret (int (length (take n bs)), take n bs, Some src, w\<lparr>w_dgrams := (w_dgrams w)(f := ds)\<rparr>)"
  by (simp add: os_recvfrom_def)

section \<open>Descriptors of the accept loop\<close>

lemma os_accept_cases:
  assumes "os_accept f w = Ret (c, peer, w')" "fds_ok w"
  obtains (failed) "c < 0" "w_open w' = w_open w" "fds_ok w'"
  | (accepted) "0 \<le> c" "w_open w' = (w_open w)(c := True)" "\<not> w_open w c" "fds_ok w'"
proof (cases "c < 0")
  case True
  with assms show ?thesis
    by (intro failed) (auto simp: os_accept_def os_new_fd_def fds_ok_def os_answer_frame
        split: prod.splits if_splits list.splits)
next
  case False
  with assms show ?thesis
    by (intro accepted) (auto simp: os_accept_def os_new_fd_def fds_ok_def os_answer_frame
        split: prod.splits if_splits list.splits)
qed

lemma own_tcp_request_fds:
  assumes "own_tcp_request act h r w = Ret (st, w')" "\<not> tr_keepAlive r"
    and "\<forall>h r v st left v'. act h r v = Ret (st, left, v') \<longrightarrow>
      w_open v' = w_open v \<and> w_next v' = w_next v \<and>
      (\<exists>r'. left = Some r' \<and> tr_clientSocketFd r' = tr_clientSocketFd r \<and>
            tr_keepAlive r' = tr_keepAlive r)"
  shows "w_open w' = (w_open w)(tr_clientSocketFd r := False) \<and> w_next w' = w_next w"
proof -
  from assms(1) obtain left v where act: "act h r w = Ret (st, left, v)"
    and w': "w' = (case left of None \<Rightarrow> v | Some r \<Rightarrow> TcpRequest_destroy r v)"
    by (auto simp: own_tcp_request_def outcome_simps)
  from assms(2,3) act obtain r' where "left = Some r'" "tr_clientSocketFd r' = tr_clientSocketFd r"
    "\<not> tr_keepAlive r'" "w_open v = w_open w" "w_next v = w_next w" by blast
  with w' show ?thesis by (simp add: TcpRequest_destroy_def TcpRequest_terminate_def)
qed

lemma TcpServer_turn_fds:
  assumes turn: "TcpServer_run_turn (own_tcp_request act) s w = Ret (s', w')" and ok: "fds_ok w"
    and handlers: "\<forall>h r v st left v'. act h r v = Ret (st, left, v') \<longrightarrow>
      w_open v' = w_open v \<and> w_next v' = w_next v \<and>
      (\<exists>r'. left = Some r' \<and> tr_clientSocketFd r' = tr_clientSocketFd r \<and>
            tr_keepAlive r' = tr_keepAlive r)"
  shows "w_open w' = w_open w \<and> fds_ok w'"
proof -
  from turn obtain c peer w1 where acc: "os_accept (srv_serverSocketFd s) w = Ret (c, peer, w1)"
    by (auto simp: TcpServer_run_turn_def outcome_simps)
  show ?thesis
  proof (rule os_accept_cases [OF acc ok], goal_cases failed accepted)
    case failed
    with turn acc show ?case by (simp add: TcpServer_run_turn_def)
  next
    case accepted
    obtain st mo w2 where read: "readMessage c w1 = ((st, mo), w2)" by (metis prod.exhaust)
    note fds = readMessage_frame(1,2) [OF read]
    have ok2: "fds_ok w2" using accepted(4) fds by (simp add: fds_ok_def)
    have restored: "(w_open w1)(c := False) = w_open w" using accepted by (simp add: fun_upd_idem)
    show ?case
    proof (cases mo)
      case None
      with turn acc read accepted have "w' = os_close c w2"
        using readMessage_sound [OF read] by (auto simp: TcpServer_run_turn_def)
      with restored fds ok2 show ?thesis by (simp add: fds_ok_close)
    next
      case (Some m)
      with turn acc read accepted obtain a st' where
        "own_tcp_request act (Server_target (protocol (header m)) s) (TcpRequest_new c a m) w2 =
           Ret (st', w')"
        using readMessage_sound [OF read]
        by (auto simp: TcpServer_run_turn_def Server_handleRequest_target outcome_simps Let_def
            TcpRequest_new_def)
      from own_tcp_request_fds [OF this _ handlers]
      have "w_open w' = (w_open w2)(c := False)" "w_next w' = w_next w2"
        by (simp_all add: TcpRequest_new_def)
      moreover from this have "fds_ok w' = fds_ok (os_close c w2)" by (intro fds_ok_cong) simp_all
      ultimately show ?thesis using restored fds ok2 by (simp add: fds_ok_close)
    qed
  qed
qed

section \<open>Properties\<close>

text \<open>
  A server dispatches by its table: after registering handlers for distinct protocols on a
  new server, a request goes to the handler of its protocol and to the default handler when
  there is none.
\<close>

theorem server_dispatch:
  assumes "distinct (map fst phs)" "srv_handlers s = Map.empty"
  shows "Server_handleRequest run p req (snd (register_all Server_addHandler phs s)) w =
    bind_outcome
      (run (case map_of phs p of None \<Rightarrow> srv_defaultHandler s | Some h \<Rightarrow> h) req w)
      (\<lambda>(st, w). Ret (st, snd (Server_lookup p (snd (register_all Server_addHandler phs s))), w))"
proof -
  let ?s = "snd (register_all Server_addHandler phs s)"
  have "Server_target p ?s = (case map_of phs p of None \<Rightarrow> srv_defaultHandler s | Some h \<Rightarrow> h)"
  proof (cases "map_of phs p")
    case None
    then have "p \<notin> fst ` set phs" by (simp add: map_of_eq_None_iff)
    then show ?thesis
      using None assms(2) server_registry.register_all_other [of p phs s]
      by (simp add: Server_target_def [of p s] Server_lookup_def [of p s])
  next
    case (Some h)
    then have "(p, h) \<in> set phs" by (rule map_of_SomeD)
    with server_registry.register_all_ok [OF assms(1), of s] assms(2) Some show ?thesis by auto
  qed
  then show ?thesis by (simp add: Server_handleRequest_target)
qed

theorem server_dispatch_witness:
  "let s = \<lparr>srv_port = 7000, srv_handlers = Map.empty, srv_defaultHandler = ''default'',
            srv_serverSocketFd = 3\<rparr>;
       s' = snd (register_all Server_addHandler [(5, ''five''), (6, ''six'')] s);
       run = (\<lambda>h (r :: unit) log. Ret (OkStatus, h # log))
   in bind_outcome (Server_handleRequest run 6 () s' []) (\<lambda>(st, s, log). Ret log) = Ret [''six''] \<and>
      bind_outcome (Server_handleRequest run 9 () s' []) (\<lambda>(st, s, log). Ret log) = Ret [''default'']"
proof -
  define s :: "string server" where
    "s = \<lparr>srv_port = 7000, srv_handlers = Map.empty, srv_defaultHandler = ''default'',
          srv_serverSocketFd = 3\<rparr>"
  have d: "distinct (map fst [(5 :: protocol_t, ''five''), (6, ''six'')])"
    and e: "srv_handlers s = Map.empty" by (simp_all add: s_def)
  note inst = server_dispatch [OF d e, of "\<lambda>h (r :: unit) log. Ret (OkStatus, h # log)" _ "()" "[]"]
  show ?thesis
    unfolding Let_def s_def [symmetric] inst by (simp add: s_def)
qed

text \<open>
  Serving one request of a protocol without a handler changes the table: \<^verbatim>\<open>operator[]\<close> leaves
  an empty entry, so registering a handler for that protocol afterwards is refused and its
  requests keep going to the default handler.
\<close>

theorem unknown_protocol_blocks_registration:
  assumes "srv_handlers s p = None"
    and "Server_handleRequest run p req s w = Ret (st, s', w')"
  shows "Server_addHandler p h s' =
      (AlreadyExistsError ''Handler already exists for protocol.'', s') \<and>
    Server_target p s' = srv_defaultHandler s"
  using assms
  by (auto simp: Server_handleRequest_target outcome_simps Server_lookup_def Server_addHandler_def
      Server_target_def split: option.splits)

theorem unknown_protocol_blocks_registration_witness:
  "let s = \<lparr>srv_port = 7000, srv_handlers = Map.empty, srv_defaultHandler = ''default'',
            srv_serverSocketFd = 3\<rparr>;
       s' = s\<lparr>srv_handlers := [9 \<mapsto> None]\<rparr>
   in Server_addHandler 9 ''late'' s' =
        (AlreadyExistsError ''Handler already exists for protocol.'', s') \<and>
      Server_target 9 s' = ''default''"
proof -
  let ?s = "\<lparr>srv_port = 7000, srv_handlers = Map.empty, srv_defaultHandler = ''default'',
             srv_serverSocketFd = 3\<rparr>"
  have "Server_handleRequest (\<lambda>h r w. Ret (OkStatus, ())) 9 () ?s () =
      Ret (OkStatus, ?s\<lparr>srv_handlers := [9 \<mapsto> None]\<rparr>, ())"
    by (simp add: Server_handleRequest_def Server_lookup_def)
  from unknown_protocol_blocks_registration [OF _ this, of "''late''"] show ?thesis
    by (simp add: Let_def)
qed

text \<open>
  The TCP constructor and the descriptors: on success exactly one new descriptor is open and
  it is bound to one of the addresses found, and on a binding error none is left open. When
  \<^verbatim>\<open>listen\<close> fails the bound socket stays open although no server exists.
\<close>

theorem TcpServer_new_descriptors:
  assumes "TcpServer_new port h w = (r, w')" "fds_ok w"
  shows "case r of
      Inr s \<Rightarrow> \<not> w_open w (srv_serverSocketFd s) \<and>
               w_open w' = (w_open w)(srv_serverSocketFd s := True)
    | Inl e \<Rightarrow> if e = ''Error listening'' then \<exists>f. \<not> w_open w f \<and> w_open w' = (w_open w)(f := True)
               else w_open w' = w_open w"
  using assms
  by (auto simp: TcpServer_new_def os_listen_frame split: option.splits prod.splits if_splits
      dest!: tcp_setup.bind_loop_fds)

definition serving_world :: world where
  "serving_world = sample_world
     \<lparr>w_resolve := (\<lambda>host service. Some [\<lparr>ai_family = AF_INET, ai_addr = null_sockaddr\<rparr>])\<rparr>"

lemma fds_ok_serving: "fds_ok serving_world"
  by (simp add: fds_ok_def serving_world_def sample_world_def)

theorem TcpServer_new_descriptors_witness:
  "let (r, w') = TcpServer_new 7000 () serving_world
   in (\<exists>s. r = Inr s \<and> srv_serverSocketFd s = 5) \<and> w_open w' 5"
proof -
  obtain r w' where new: "TcpServer_new 7000 () serving_world = (r, w')" by fastforce
  have "r = Inr \<lparr>srv_port = 7000, srv_handlers = Map.empty, srv_defaultHandler = (),
      srv_serverSocketFd = 5\<rparr>"
    using new
    by (simp add: TcpServer_new_def serving_world_def sample_world_def tcp_setup_def os_socket_def
        os_new_fd_def os_setsockopt_def os_bind_def os_listen_def os_control_def)
  with TcpServer_new_descriptors [OF new fds_ok_serving] new show ?thesis by simp
qed

text \<open>
  The UDP constructor on success opens exactly one descriptor, bound to one of the addresses
  found and joined to the multicast group on every interface; on failure it leaves no
  descriptor open.
\<close>

theorem UdpServer_new_descriptors:
  assumes "UdpServer_new port grp ifs h w = (r, w')" "fds_ok w"
    and "w_resolve w None (service_of_port port) = Some infos"
  shows "case r of
      Inr s \<Rightarrow> \<not> w_open w (srv_serverSocketFd s) \<and>
        w_open w' = (w_open w)(srv_serverSocketFd s := True) \<and>
        w_bound w' (srv_serverSocketFd s) \<in> Some ` ai_addr ` set infos \<and>
        (\<lambda>ifc. (w_inet_addr w grp, w_inet_addr w ifc)) ` set ifs
          \<subseteq> set (w_groups w' (srv_serverSocketFd s))
    | Inl e \<Rightarrow> w_open w' = w_open w"
  using assms
  by (auto simp: UdpServer_new_def split: option.splits prod.splits if_splits
      dest!: udp_setup.bind_loop_fds)

theorem UdpServer_new_descriptors_witness:
  "let (r, w') = UdpServer_new 6000 ''224.0.0.1'' [''10.0.0.1''] () serving_world
   in (\<exists>s. r = Inr s \<and> srv_serverSocketFd s = 5) \<and> w_open w' 5 \<and> (0, 0) \<in> set (w_groups w' 5)"
proof -
  obtain r w' where new:
    "UdpServer_new 6000 ''224.0.0.1'' [''10.0.0.1''] () serving_world = (r, w')" by fastforce
  have "r = Inr \<lparr>srv_port = 6000, srv_handlers = Map.empty, srv_defaultHandler = (),
      srv_serverSocketFd = 5\<rparr>"
    using new
    by (simp add: UdpServer_new_def serving_world_def sample_world_def udp_setup_def os_socket_def
        os_new_fd_def os_setsockopt_def os_bind_def os_add_membership_def os_control_def)
  moreover have "w_resolve serving_world None (service_of_port 6000) =
      Some [\<lparr>ai_family = AF_INET, ai_addr = null_sockaddr\<rparr>]" "w_inet_addr serving_world = (\<lambda>_. 0)"
    by (simp_all add: serving_world_def sample_world_def)
  ultimately show ?thesis
    using UdpServer_new_descriptors [OF new fds_ok_serving] new by simp
qed

text \<open>
  The constructors ask \<^verbatim>\<open>getaddrinfo\<close> for the decimal service of a port below 32768, but for
  every port from 32768 on for a name that starts with a minus sign, because the port is
  narrowed to a signed 16-bit number.
\<close>

theorem service_of_port_sign:
  "if unat port < 32768
   then service_of_port port = show_nat (unat port) \<and> read_nat (service_of_port port) 0 = unat port
   else service_of_port port = CHR ''-'' # show_nat (65536 - unat port)"
proof -
  have "sint port = (if unat port < 32768 then int (unat port) else int (unat port) - 65536)"
  proof -
    have u1: "uint port = int (unat port)" by (simp add: of_nat_unat)
    have u2: "int (unat port) < 65536" using unat_u16_less [of port] by linarith
    have sint: "sint port = (int (unat port) + 32768) mod 65536 - 32768"
      by (simp add: sint_uint signed_take_bit_eq_take_bit_shift take_bit_eq_mod u1)
    show ?thesis
    proof (cases "unat port < 32768")
      case True
      then show ?thesis by (simp add: sint)
    next
      case False
      then show ?thesis
        using mod_add_self2 [of "int (unat port) - 32768" 65536] u2 by (simp add: sint add.commute)
    qed
  qed
  then show ?thesis
    using unat_u16_less [of port] by (auto simp: service_of_port_def to_string_def nat_diff_distrib')
qed


definition one_client :: world where
  "one_client = sample_world
     \<lparr>w_conns := (\<lambda>f. if f = 4 then [null_sockaddr] else []), w_in := (\<lambda>_. frame sample_message)\<rparr>"

lemma fds_ok_one_client: "fds_ok one_client"
  by (simp add: fds_ok_def one_client_def sample_world_def)


lemma UdpServer_turn_pair:
  assumes "w_script w = []" "w_open w (srv_serverSocketFd s)" "wf_message m"
    and "w_dgrams w (srv_serverSocketFd s) = (a, encode_header (header m)) # (a, data m) # ds"
  shows "UdpServer_run_turn run s w =
    bind_outcome
      (run (Server_target (protocol (header m)) s) (UdpRequest_new a m)
         (w\<lparr>w_dgrams := (w_dgrams w)(srv_serverSocketFd s := ds)\<rparr>))
      (\<lambda>(st, w). Ret (snd (Server_lookup (protocol (header m)) s), w))"
proof -
  let ?f = "srv_serverSocketFd s"
  let ?w1 = "w\<lparr>w_dgrams := (w_dgrams w)(?f := (a, data m) # ds)\<rparr>"
  have m: "resize (body_len m) (data m) = data m"
    and len: "length (data m) = body_len m"
    using assms(3) by (simp_all add: wf_message_def resize_def)
  have "os_recvfrom ?f 8 w = Ret (8, encode_header (header m), Some a, ?w1)"
    using assms by (simp add: os_recvfrom_no_fault)
  moreover have "os_recvfrom ?f (body_len m) ?w1 =
      Ret (int (body_len m), data m, Some a, w\<lparr>w_dgrams := (w_dgrams w)(?f := ds)\<rparr>)"
    using os_recvfrom_no_fault [of ?w1 ?f a "data m" ds "body_len m"] assms len by simp
  ultimately show ?thesis
    using m len
    by (simp add: UdpServer_run_turn_def int_less_u32_def kMessageHeaderLength_def
        Server_handleRequest_target UdpRequest_new_def bind_outcome_assoc Let_def)
      (auto intro!: bind_outcome_cong split: prod.splits)
qed

text \<open>
  A message sent as two datagrams, the header and the body, reaches the handler of its
  protocol as it was sent, together with the address of its sender.
\<close>

theorem UdpServer_receives_pair:
  assumes "w_script w = []" "w_open w (srv_serverSocketFd s)" "wf_message m"
    and "w_dgrams w (srv_serverSocketFd s) = (a, encode_header (header m)) # (a, data m) # ds"
  shows "UdpServer_run_turn run s w =
    bind_outcome
      (run (Server_target (protocol (header m)) s) (UdpRequest_new a m)
         (w\<lparr>w_dgrams := (w_dgrams w)(srv_serverSocketFd s := ds)\<rparr>))
      (\<lambda>(st, w). Ret (snd (Server_lookup (protocol (header m)) s), w))"
  by (rule UdpServer_turn_pair [OF assms])

text \<open>
  When both calls of \<^verbatim>\<open>recvfrom\<close> fail, the server takes the failures for complete datagrams,
  since -1 converted to unsigned is not below any length: it runs the handler of protocol 0 on
  an empty message whose sender is uninitialised memory.
\<close>

theorem UdpServer_serves_failed_receive:
  assumes "w_script w = [- 1, - 1]" "w_open w (srv_serverSocketFd s)"
  shows "UdpServer_run_turn run s w =
    bind_outcome
      (run (Server_target 0 s) (UdpRequest_new (w_stack w) empty_message) (w\<lparr>w_script := []\<rparr>))
      (\<lambda>(st, w). Ret (snd (Server_lookup 0 s), w))"
proof -
  have "\<not> int_less_u32 (- 1) 8" "\<not> int_less_u32 (- 1) 0"
    by (simp_all add: int_less_u32_def)
  then show ?thesis
    using assms
    by (simp add: UdpServer_run_turn_def os_recvfrom_def os_answer_def kMessageHeaderLength_def
        empty_message_def resize_def Server_handleRequest_target UdpRequest_new_def
        bind_outcome_assoc Let_def)
      (auto intro!: bind_outcome_cong split: prod.splits)
qed

definition udp_sample_server :: "unit server" where
  "udp_sample_server = \<lparr>srv_port = 6000, srv_handlers = Map.empty, srv_defaultHandler = (),
     srv_serverSocketFd = 4\<rparr>"

text \<open>A handler that leaves what it was given in the world's list of sent datagrams.\<close>

definition udp_logger :: "unit \<Rightarrow> udp_request \<Rightarrow> world \<Rightarrow> (status \<times> world) outcome" where
  "udp_logger h r w =
     Ret (OkStatus, w\<lparr>w_sent := (0, ur_clientAddr r, case ur_message r of None \<Rightarrow> [] | Some m \<Rightarrow> frame m)
                                 # w_sent w\<rparr>)"

theorem UdpServer_receives_pair_witness:
  "let w = sample_world\<lparr>w_dgrams := (\<lambda>_. [(null_sockaddr, encode_header (header sample_message)),
             (null_sockaddr, data sample_message)])\<rparr>
   in bind_outcome (UdpServer_run_turn udp_logger udp_sample_server w) (\<lambda>(s, w). Ret (w_sent w)) =
      Ret [(0, null_sockaddr, frame sample_message)]"
  using UdpServer_receives_pair
    [of "sample_world\<lparr>w_dgrams := (\<lambda>_. [(null_sockaddr, encode_header (header sample_message)),
          (null_sockaddr, data sample_message)])\<rparr>" udp_sample_server sample_message null_sockaddr "[]"
      udp_logger]
  by (simp add: sample_world_def udp_sample_server_def udp_logger_def UdpRequest_new_def Let_def)

theorem UdpServer_serves_failed_receive_witness:
  "bind_outcome (UdpServer_run_turn udp_logger udp_sample_server (sample_world\<lparr>w_script := [- 1, - 1]\<rparr>))
     (\<lambda>(s, w). Ret (w_sent w)) = Ret [(0, null_sockaddr, frame empty_message)]"
  using UdpServer_serves_failed_receive
    [of "sample_world\<lparr>w_script := [- 1, - 1]\<rparr>" udp_sample_server udp_logger]
  by (simp add: sample_world_def udp_sample_server_def udp_logger_def UdpRequest_new_def)

text \<open>
  Two senders whose datagrams alternate are mixed up: after the header of the first comes
  the header of the second, which is taken for the body when the first announces at most eight
  bytes, and the message is attributed to the second sender.
\<close>

theorem UdpServer_mixes_senders:
  assumes "w_script w = []" "w_open w (srv_serverSocketFd s)" "body_len m \<le> 8"
    and "w_dgrams w (srv_serverSocketFd s) =
      (a, encode_header (header m)) # (b, encode_header (header m')) # ds"
  shows "UdpServer_run_turn run s w =
    bind_outcome
      (run (Server_target (protocol (header m)) s)
         (UdpRequest_new b (m\<lparr>data := take (body_len m) (encode_header (header m'))\<rparr>))
         (w\<lparr>w_dgrams := (w_dgrams w)(srv_serverSocketFd s := ds)\<rparr>))
      (\<lambda>(st, w). Ret (snd (Server_lookup (protocol (header m)) s), w))"
proof -
  let ?f = "srv_serverSocketFd s"
  let ?hb = "encode_header (header m')"
  let ?w1 = "w\<lparr>w_dgrams := (w_dgrams w)(?f := (b, ?hb) # ds)\<rparr>"
  have m: "resize (body_len m) (take (body_len m) ?hb) = take (body_len m) ?hb"
    and cut: "\<lparr>header = header m, data = bs\<rparr> = m\<lparr>data := bs\<rparr>" for bs
    using assms(3) by (simp_all add: resize_def)
  have "os_recvfrom ?f 8 w = Ret (8, encode_header (header m), Some a, ?w1)"
    using assms by (simp add: os_recvfrom_no_fault)
  moreover have "os_recvfrom ?f (body_len m) ?w1 =
      Ret (int (body_len m), take (body_len m) ?hb, Some b, w\<lparr>w_dgrams := (w_dgrams w)(?f := ds)\<rparr>)"
    using os_recvfrom_no_fault [of ?w1 ?f b ?hb ds "body_len m"] assms by (simp add: min_absorb2)
  ultimately show ?thesis
    using m
    by (simp add: UdpServer_run_turn_def int_less_u32_def kMessageHeaderLength_def cut
        Server_handleRequest_target UdpRequest_new_def bind_outcome_assoc Let_def)
      (auto intro!: bind_outcome_cong split: prod.splits)
qed

theorem UdpServer_mixes_senders_witness:
  "let a = null_sockaddr; b = null_sockaddr\<lparr>sin_addr := 1\<rparr>;
       w = sample_world\<lparr>w_dgrams := (\<lambda>_. [(a, encode_header (header sample_message)),
             (b, encode_header (header sample_message))])\<rparr>
   in bind_outcome (UdpServer_run_turn udp_logger udp_sample_server w) (\<lambda>(s, w). Ret (w_sent w)) =
      Ret [(0, b, encode_header (header sample_message) @ take 3 (encode_header (header sample_message)))]"
  using UdpServer_mixes_senders
    [of "sample_world\<lparr>w_dgrams := (\<lambda>_. [(null_sockaddr, encode_header (header sample_message)),
          (null_sockaddr\<lparr>sin_addr := 1\<rparr>, encode_header (header sample_message))])\<rparr>"
      udp_sample_server sample_message null_sockaddr "null_sockaddr\<lparr>sin_addr := 1\<rparr>" sample_message
      "[]" udp_logger]
  by (simp add: sample_world_def udp_sample_server_def udp_logger_def UdpRequest_new_def Let_def
      frame_def sample_message_def)

end
