(* ===== verification/Channels.thy ===== *)
theory Channels
  imports Message
begin

text \<open>
  \<^verbatim>\<open>servercc/connectors\<close>, the channels that share one connection: \<^verbatim>\<open>InternalChannel\<close>
  (\<^verbatim>\<open>internal_channel.h\<close>), the manager of the channels of a connection
  (\<^verbatim>\<open>internal_channel_manager.h\<close>) and \<^verbatim>\<open>InternalRequest\<close> (\<^verbatim>\<open>internal_request.h\<close>).

  Channels are shared by pointer: the manager's slots and the requests of the handlers refer
  to the same object. The model keeps the channels a manager has made in a list, and a pointer
  is a position in it. The message buffer of a channel is the class \<^verbatim>\<open>MessageBuffer\<close> of the
  external library libcc, so its operations are a parameter.

  A callback that a channel runs when it closes is one of the two lambdas of the manager. Each
  operation is one step: the mutexes of the code serialise the writes and the free list.
\<close>

type_synonym channel_id_t = u32

section \<open>The message buffer, a parameter\<close>

record 'b message_buffer =
  mb_new :: 'b
  mb_push :: "message \<Rightarrow> 'b \<Rightarrow> status \<times> 'b"
  mb_pop :: "'b \<Rightarrow> ((status \<times> message option) \<times> 'b) outcome"
  mb_pop_timeout :: "int \<Rightarrow> 'b \<Rightarrow> (status \<times> message option) \<times> 'b"
  mb_close :: "'b \<Rightarrow> 'b"

text \<open>
  What the channels rely on: an open buffer is a queue. \<open>contents b\<close> is the queue of the open
  buffer \<open>b\<close>. Nothing is assumed of a buffer that has been closed.
\<close>

definition fifo_buffer :: "'b message_buffer \<Rightarrow> ('b \<Rightarrow> message list option) \<Rightarrow> bool" where
  "fifo_buffer B contents \<longleftrightarrow>
     contents (mb_new B) = Some [] \<and>
     (\<forall>m b q. contents b = Some q \<longrightarrow>
        (\<exists>b'. mb_push B m b = (OkStatus, b') \<and> contents b' = Some (q @ [m]))) \<and>
     (\<forall>m b q. contents b = Some (m # q) \<longrightarrow>
        (\<exists>b'. mb_pop B b = Ret ((OkStatus, Some m), b') \<and> contents b' = Some q)) \<and>
     (\<forall>m b q t. contents b = Some (m # q) \<longrightarrow>
        (\<exists>b'. mb_pop_timeout B t b = ((OkStatus, Some m), b') \<and> contents b' = Some q)) \<and>
     (\<forall>b. contents b = Some [] \<longrightarrow> mb_pop B b = Block)"

section \<open>InternalChannel\<close>

datatype close_callback = RemoveRequest | RemoveResponse

record 'b channel =
  ch_id :: channel_id_t
  ch_writeFd :: fd
  ch_WriteProtocol :: protocol_t
  ch_WriteEndProtocol :: protocol_t
  ch_closeCallback :: close_callback
  ch_isClosed :: bool
  ch_buffer :: 'b

definition InternalChannel_new ::
    "'b message_buffer \<Rightarrow> protocol_t \<Rightarrow> protocol_t \<Rightarrow> channel_id_t \<Rightarrow> fd \<Rightarrow> close_callback \<Rightarrow> 'b channel" where
  "InternalChannel_new B WriteProtocol WriteEndProtocol i writeFd closeCallback =
     \<lparr>ch_id = i, ch_writeFd = writeFd, ch_WriteProtocol = WriteProtocol,
      ch_WriteEndProtocol = WriteEndProtocol, ch_closeCallback = closeCallback,
      ch_isClosed = False, ch_buffer = mb_new B\<rparr>"

definition InternalChannel_read ::
    "'b message_buffer \<Rightarrow> 'b channel \<Rightarrow> ((status \<times> message option) \<times> 'b channel) outcome" where
  "InternalChannel_read B c =
     bind_outcome (mb_pop B (ch_buffer c)) (\<lambda>(res, b). Ret (res, c\<lparr>ch_buffer := b\<rparr>))"

definition InternalChannel_read_timeout ::
    "'b message_buffer \<Rightarrow> int \<Rightarrow> 'b channel \<Rightarrow> (status \<times> message option) \<times> 'b channel" where
  "InternalChannel_read_timeout B timeout c =
     (case mb_pop_timeout B timeout (ch_buffer c) of (res, b) \<Rightarrow> (res, c\<lparr>ch_buffer := b\<rparr>))"

definition InternalChannel_write ::
    "'b channel \<Rightarrow> message \<Rightarrow> 'z world_scheme \<Rightarrow> (status \<times> 'z world_scheme) outcome" where
  "InternalChannel_write c m w =
     (if ch_isClosed c then Ret (FailedPreconditionError ''Channel is closed'', w)
      else bind_outcome (wrapMessage le32 4 (ch_WriteProtocol c) (ch_id c) m) (\<lambda>m.
             Ret (writeMessage (ch_writeFd c) m w)))"

definition InternalChannel_push ::
    "'b message_buffer \<Rightarrow> message \<Rightarrow> 'b channel \<Rightarrow> status \<times> 'b channel" where
  "InternalChannel_push B m c =
     (if ch_isClosed c then (FailedPreconditionError ''Channel is closed'', c)
      else case mb_push B m (ch_buffer c) of (st, b) \<Rightarrow> (st, c\<lparr>ch_buffer := b\<rparr>))"

text \<open>The message \<^verbatim>\<open>close\<close> sends.\<close>

definition close_message :: "protocol_t \<Rightarrow> channel_id_t \<Rightarrow> message" where
  "close_message WriteEndProtocol i =
     \<lparr>header = \<lparr>len = 4, protocol = WriteEndProtocol\<rparr>, data = le32 i\<rparr>"

section \<open>The state of a manager\<close>

text \<open>The template arguments, and those of \<^verbatim>\<open>connector_channel_manager_t\<close>.\<close>

record manager_config =
  RequestProtocol :: protocol_t
  RequestEndProtocol :: protocol_t
  ResponseProtocol :: protocol_t
  ResponseEndProtocol :: protocol_t
  ErrorProtocol :: protocol_t
  MaxChannels :: channel_id_t

definition connector_config :: manager_config where
  "connector_config =
     \<lparr>RequestProtocol = kInternalRequestProtocol, RequestEndProtocol = kInternalRequestEndProtocol,
      ResponseProtocol = kInternalResponseProtocol,
      ResponseEndProtocol = kInternalResponseEndProtocol,
      ErrorProtocol = kInternalResponseEndProtocol, MaxChannels = 1024\<rparr>"

type_synonym channel_ptr = nat

record 'b manager =
  mg_config :: manager_config
  mg_writeFd :: fd
  mg_freeList :: "channel_id_t list"   \<comment> \<open>a stack, its top first\<close>
  mg_semaphore :: nat
  mg_requestChannel :: "channel_ptr option list"
  mg_responseChannel :: "channel_ptr option list"
  mg_channels :: "'b channel list"     \<comment> \<open>every channel made, the target of the pointers\<close>

abbreviation max_channels :: "'b manager \<Rightarrow> nat" where
  "max_channels g \<equiv> unat (MaxChannels (mg_config g))"

definition InternalChannelManager_new :: "manager_config \<Rightarrow> fd \<Rightarrow> 'b manager" where
  "InternalChannelManager_new cfg writeFd =
     \<lparr>mg_config = cfg, mg_writeFd = writeFd,
      mg_freeList = rev (map of_nat [0..<unat (MaxChannels cfg)]),
      mg_semaphore = unat (MaxChannels cfg),
      mg_requestChannel = replicate (unat (MaxChannels cfg)) None,
      mg_responseChannel = replicate (unat (MaxChannels cfg)) None,
      mg_channels = []\<rparr>"

text \<open>Following a pointer, and reading an array at an id, which has no bounds check.\<close>

definition deref :: "'b manager \<Rightarrow> channel_ptr \<Rightarrow> 'b channel outcome" where
  "deref g r = (if r < length (mg_channels g) then Ret (mg_channels g ! r) else Undef)"

definition put_channel :: "channel_ptr \<Rightarrow> 'b channel \<Rightarrow> 'b manager \<Rightarrow> 'b manager" where
  "put_channel r c g = g\<lparr>mg_channels := (mg_channels g)[r := c]\<rparr>"

definition slot :: "channel_ptr option list \<Rightarrow> channel_id_t \<Rightarrow> channel_ptr option outcome" where
  "slot xs i = (if unat i < length xs then Ret (xs ! unat i) else Undef)"

section \<open>Closing a channel and removing it\<close>

text \<open>
  \<^verbatim>\<open>InternalChannel::close\<close> runs its callback, which removes the channel from the manager, and
  the removal closes the channel. The recursion ends because a channel is marked closed before
  its callback runs and a slot is emptied before its channel is closed.
\<close>

definition live_channels :: "'b manager \<Rightarrow> nat" where
  "live_channels g =
     length (filter (\<lambda>c. \<not> ch_isClosed c) (mg_channels g)) +
     length (filter (\<lambda>s. s \<noteq> None) (mg_requestChannel g)) +
     length (filter (\<lambda>s. s \<noteq> None) (mg_responseChannel g))"

lemma length_filter_update_less:
  "k < length xs \<Longrightarrow> P (xs ! k) \<Longrightarrow> \<not> P y \<Longrightarrow> length (filter P (xs[k := y])) < length (filter P xs)"
proof (induction xs arbitrary: k)
  case (Cons x xs)
  then show ?case by (cases k) auto
qed simp

function
      InternalChannel_close ::
        "'b message_buffer \<Rightarrow> channel_ptr \<Rightarrow> 'b manager \<Rightarrow> 'z world_scheme \<Rightarrow>
         ('b manager \<times> 'z world_scheme) outcome"
  and removeRequestChannel ::
        "'b message_buffer \<Rightarrow> channel_id_t \<Rightarrow> 'b manager \<Rightarrow> 'z world_scheme \<Rightarrow>
         ('b manager \<times> 'z world_scheme) outcome"
  and removeResponseChannel ::
        "'b message_buffer \<Rightarrow> channel_id_t \<Rightarrow> 'b manager \<Rightarrow> 'z world_scheme \<Rightarrow>
         ('b manager \<times> 'z world_scheme) outcome" where
  "InternalChannel_close B r g w =
     bind_outcome (deref g r) (\<lambda>c.
       if ch_isClosed c then Ret (g, w)
       else case writeMessage (ch_writeFd c) (close_message (ch_WriteEndProtocol c) (ch_id c)) w of
              (st, w) \<Rightarrow>
                let g = put_channel r (c\<lparr>ch_buffer := mb_close B (ch_buffer c), ch_isClosed := True\<rparr>) g
                in (case ch_closeCallback c of
                      RemoveRequest \<Rightarrow> removeRequestChannel B (ch_id c) g w
                    | RemoveResponse \<Rightarrow> removeResponseChannel B (ch_id c) g w))"
| "removeRequestChannel B i g w =
     bind_outcome (slot (mg_requestChannel g) i) (\<lambda>p.
       case p of
         None \<Rightarrow> Ret (g, w)
       | Some r \<Rightarrow>
           bind_outcome (InternalChannel_close B r
               (g\<lparr>mg_requestChannel := (mg_requestChannel g)[unat i := None]\<rparr>) w) (\<lambda>(g, w).
             Ret (g\<lparr>mg_freeList := i # mg_freeList g, mg_semaphore := mg_semaphore g + 1\<rparr>, w)))"
| "removeResponseChannel B i g w =
     bind_outcome (slot (mg_responseChannel g) i) (\<lambda>p.
       case p of
         None \<Rightarrow> Ret (g, w)
       | Some r \<Rightarrow>
           InternalChannel_close B r
             (g\<lparr>mg_responseChannel := (mg_responseChannel g)[unat i := None]\<rparr>) w)"
  by pat_completeness auto

termination
  by (relation "measure (case_sum (\<lambda>(B, r, g, w). live_channels g)
        (case_sum (\<lambda>(B, i, g, w). live_channels g) (\<lambda>(B, i, g, w). live_channels g)))")
    (auto simp: live_channels_def put_channel_def deref_def slot_def split: if_splits
      intro!: length_filter_update_less)

declare InternalChannel_close.simps [simp del] removeRequestChannel.simps [simp del]
  removeResponseChannel.simps [simp del]

section \<open>Creating channels\<close>

text \<open>
  \<^verbatim>\<open>createRequestChannel\<close> waits while the semaphore is zero. The semaphore is a counter: the
  code declares a \<^verbatim>\<open>binary_semaphore\<close> but starts it at the number of channels.
\<close>

definition createRequestChannel ::
    "'b message_buffer \<Rightarrow> 'b manager \<Rightarrow> ((status \<times> channel_ptr option) \<times> 'b manager) outcome" where
  "createRequestChannel B g =
     (if mg_semaphore g = 0 then Block
      else let g = g\<lparr>mg_semaphore := mg_semaphore g - 1\<rparr> in
        case mg_freeList g of
          [] \<Rightarrow> Undef
        | i # rest \<Rightarrow>
            let g = g\<lparr>mg_freeList := rest\<rparr>;
                r = length (mg_channels g);
                c = InternalChannel_new B (RequestProtocol (mg_config g))
                      (RequestEndProtocol (mg_config g)) i (mg_writeFd g) RemoveRequest
            in bind_outcome (slot (mg_requestChannel g) i) (\<lambda>_.
                 Ret ((OkStatus, Some r),
                      g\<lparr>mg_channels := mg_channels g @ [c],
                        mg_requestChannel := (mg_requestChannel g)[unat i := Some r]\<rparr>)))"

definition createResponseChannel ::
    "'b message_buffer \<Rightarrow> channel_id_t \<Rightarrow> 'b manager \<Rightarrow> (status \<times> 'b manager) outcome" where
  "createResponseChannel B i g =
     bind_outcome (slot (mg_responseChannel g) i) (\<lambda>p.
       if p \<noteq> None then Ret (AlreadyExistsError ''Channel already exists'', g)
       else let r = length (mg_channels g);
                c = InternalChannel_new B (ResponseProtocol (mg_config g))
                      (ResponseEndProtocol (mg_config g)) i (mg_writeFd g) RemoveResponse
            in Ret (OkStatus,
                 g\<lparr>mg_channels := mg_channels g @ [c],
                   mg_responseChannel := (mg_responseChannel g)[unat i := Some r]\<rparr>))"

section \<open>Forwarding a message\<close>

text \<open>A push through a pointer.\<close>

definition push_to ::
    "'b message_buffer \<Rightarrow> channel_ptr \<Rightarrow> message \<Rightarrow> 'b manager \<Rightarrow> (status \<times> 'b manager) outcome" where
  "push_to B r m g =
     bind_outcome (deref g r) (\<lambda>c.
       case InternalChannel_push B m c of (st, c) \<Rightarrow> Ret (st, put_channel r c g))"

definition forwardMessage ::
    "'b message_buffer \<Rightarrow> message \<Rightarrow> 'b manager \<Rightarrow> 'z world_scheme \<Rightarrow>
     ((status \<times> protocol_t \<times> channel_ptr option) \<times> 'b manager \<times> 'z world_scheme) outcome" where
  "forwardMessage B m g w =
     (let p = protocol (header m) in
      if p = ResponseEndProtocol (mg_config g) then
        bind_outcome (mem_read (data m) 0 4) (\<lambda>bs.
        bind_outcome (slot (mg_requestChannel g) (un32 bs)) (\<lambda>ptr.
        bind_outcome (if ptr \<noteq> None then removeRequestChannel B (un32 bs) g w else Ret (g, w)) (\<lambda>(g, w).
          Ret ((OkStatus, p, None), g, w))))
      else if p = RequestEndProtocol (mg_config g) then
        bind_outcome (mem_read (data m) 0 4) (\<lambda>bs.
        bind_outcome (slot (mg_responseChannel g) (un32 bs)) (\<lambda>ptr.
        bind_outcome (if ptr \<noteq> None then removeResponseChannel B (un32 bs) g w else Ret (g, w)) (\<lambda>(g, w).
          Ret ((OkStatus, p, None), g, w))))
      else
        bind_outcome (unwrapMessage un32 4 m) (\<lambda>(st, channelId, unwrapped).
          if \<not> status_ok st then Ret ((st, - 1, None), g, w)
          else case (channelId, unwrapped) of
            (Some i, Some u) \<Rightarrow>
              let q = protocol (header u) in
              if p = ResponseProtocol (mg_config g) then
                bind_outcome (slot (mg_requestChannel g) i) (\<lambda>ptr.
                  case ptr of
                    None \<Rightarrow> Ret ((NotFoundError ''Channel does not exist'', q, None), g, w)
                  | Some r \<Rightarrow>
                      bind_outcome (push_to B r u g) (\<lambda>(st, g). Ret ((st, q, None), g, w)))
              else if p = RequestProtocol (mg_config g) then
                bind_outcome (slot (mg_responseChannel g) i) (\<lambda>ptr.
                bind_outcome (if ptr = None then createResponseChannel B i g else Ret (OkStatus, g)) (\<lambda>(st, g).
                  if \<not> status_ok st then Ret ((st, q, None), g, w)
                  else bind_outcome (slot (mg_responseChannel g) i) (\<lambda>ptr.
                    case ptr of
                      None \<Rightarrow> Undef
                    | Some r \<Rightarrow>
                        bind_outcome (push_to B r u g) (\<lambda>(st, g). Ret ((st, q, Some r), g, w)))))
              else Ret ((InvalidArgumentError ''Invalid protocol'', q, None), g, w)
          | _ \<Rightarrow> Undef))"

section \<open>The destructor of the manager\<close>

primrec remove_all ::
    "'b message_buffer \<Rightarrow> channel_id_t list \<Rightarrow> 'b manager \<Rightarrow> 'z world_scheme \<Rightarrow>
     ('b manager \<times> 'z world_scheme) outcome" where
  "remove_all B [] g w = Ret (g, w)"
| "remove_all B (i # is) g w =
     bind_outcome (removeResponseChannel B i g w) (\<lambda>(g, w).
     bind_outcome (removeRequestChannel B i g w) (\<lambda>(g, w).
       remove_all B is g w))"

definition InternalChannelManager_destroy ::
    "'b message_buffer \<Rightarrow> 'b manager \<Rightarrow> 'z world_scheme \<Rightarrow> ('b manager \<times> 'z world_scheme) outcome" where
  "InternalChannelManager_destroy B g w = remove_all B (map of_nat [0..<max_channels g]) g w"

section \<open>InternalRequest\<close>

record internal_request =
  ir_protocol :: protocol_t
  ir_addr :: sockaddr
  ir_channel :: channel_ptr

definition InternalRequest_new :: "protocol_t \<Rightarrow> sockaddr \<Rightarrow> channel_ptr \<Rightarrow> internal_request" where
  "InternalRequest_new p addr channel = \<lparr>ir_protocol = p, ir_addr = addr, ir_channel = channel\<rparr>"

definition InternalRequest_of_channel :: "channel_ptr \<Rightarrow> internal_request" where
  "InternalRequest_of_channel channel = InternalRequest_new 0 null_sockaddr channel"

definition InternalRequest_receiveMessage ::
    "'b message_buffer \<Rightarrow> internal_request \<Rightarrow> 'b manager \<Rightarrow>
     ((status \<times> message option) \<times> 'b manager) outcome" where
  "InternalRequest_receiveMessage B q g =
     bind_outcome (deref g (ir_channel q)) (\<lambda>c.
     bind_outcome (InternalChannel_read B c) (\<lambda>(res, c).
       Ret (res, put_channel (ir_channel q) c g)))"

definition InternalRequest_receiveMessage_timeout ::
    "'b message_buffer \<Rightarrow> int \<Rightarrow> internal_request \<Rightarrow> 'b manager \<Rightarrow>
     ((status \<times> message option) \<times> 'b manager) outcome" where
  "InternalRequest_receiveMessage_timeout B timeout q g =
     bind_outcome (deref g (ir_channel q)) (\<lambda>c.
       case InternalChannel_read_timeout B timeout c of (res, c) \<Rightarrow>
         Ret (res, put_channel (ir_channel q) c g))"

definition InternalRequest_sendMessage ::
    "internal_request \<Rightarrow> message \<Rightarrow> 'b manager \<Rightarrow> 'z world_scheme \<Rightarrow>
     (status \<times> 'z world_scheme) outcome" where
  "InternalRequest_sendMessage q m g w =
     bind_outcome (deref g (ir_channel q)) (\<lambda>c. InternalChannel_write c m w)"

definition InternalRequest_terminate ::
    "'b message_buffer \<Rightarrow> internal_request \<Rightarrow> 'b manager \<Rightarrow> 'z world_scheme \<Rightarrow>
     ('b manager \<times> 'z world_scheme) outcome" where
  "InternalRequest_terminate B q g w = InternalChannel_close B (ir_channel q) g w"

text \<open>The destructor.\<close>

definition InternalRequest_destroy ::
    "'b message_buffer \<Rightarrow> internal_request \<Rightarrow> 'b manager \<Rightarrow> 'z world_scheme \<Rightarrow>
     ('b manager \<times> 'z world_scheme) outcome" where
  "InternalRequest_destroy B q g w = InternalRequest_terminate B q g w"

end
