(* ===== verification/ChannelPool.thy ===== *)
theory ChannelPool
  imports Channels
begin

text \<open>
  The bookkeeping of \<^verbatim>\<open>InternalChannelManager\<close>: the invariant that relates the slots, the free
  list, the semaphore and the channels, its preservation by every operation, and the contract
  of the pool of channel ids.
\<close>

lemma nth_update: "xs[k := x] ! n = (if n = k \<and> k < length xs then x else xs ! n)"
  by (cases "k < length xs") (auto simp: nth_list_update list_update_beyond)

section \<open>Both directions at once\<close>

text \<open>
  Request and response channels differ in their array and in the protocols they write with;
  the callback of a channel tells which kind it is.
\<close>

primrec slots :: "close_callback \<Rightarrow> 'b manager \<Rightarrow> channel_ptr option list" where
  "slots RemoveRequest g = mg_requestChannel g"
| "slots RemoveResponse g = mg_responseChannel g"

primrec data_protocol :: "close_callback \<Rightarrow> manager_config \<Rightarrow> protocol_t" where
  "data_protocol RemoveRequest cfg = RequestProtocol cfg"
| "data_protocol RemoveResponse cfg = ResponseProtocol cfg"

primrec end_protocol :: "close_callback \<Rightarrow> manager_config \<Rightarrow> protocol_t" where
  "end_protocol RemoveRequest cfg = RequestEndProtocol cfg"
| "end_protocol RemoveResponse cfg = ResponseEndProtocol cfg"

primrec remove_channel where
  "remove_channel RemoveRequest = removeRequestChannel"
| "remove_channel RemoveResponse = removeResponseChannel"

definition channel_ok :: "'b manager \<Rightarrow> 'b channel \<Rightarrow> bool" where
  "channel_ok g c \<longleftrightarrow>
     ch_writeFd c = mg_writeFd g \<and> unat (ch_id c) < max_channels g \<and>
     ch_WriteProtocol c = data_protocol (ch_closeCallback c) (mg_config g) \<and>
     ch_WriteEndProtocol c = end_protocol (ch_closeCallback c) (mg_config g)"

text \<open>
  A slot points to an open channel of its id, every open channel is in its slot, and an id is
  on the free list exactly when its request slot is empty.
\<close>

definition mg_inv :: "'b manager \<Rightarrow> bool" where
  "mg_inv g \<longleftrightarrow>
     length (mg_requestChannel g) = max_channels g \<and>
     length (mg_responseChannel g) = max_channels g \<and>
     mg_semaphore g = length (mg_freeList g) \<and> distinct (mg_freeList g) \<and>
     (\<forall>i. i \<in> set (mg_freeList g) \<longleftrightarrow>
        unat i < max_channels g \<and> mg_requestChannel g ! unat i = None) \<and>
     (\<forall>r < length (mg_channels g). channel_ok g (mg_channels g ! r) \<and>
        (ch_isClosed (mg_channels g ! r) \<or>
         slots (ch_closeCallback (mg_channels g ! r)) g ! unat (ch_id (mg_channels g ! r)) = Some r)) \<and>
     (\<forall>cb i r. unat i < max_channels g \<longrightarrow> slots cb g ! unat i = Some r \<longrightarrow>
        r < length (mg_channels g) \<and> \<not> ch_isClosed (mg_channels g ! r) \<and>
        ch_closeCallback (mg_channels g ! r) = cb \<and> ch_id (mg_channels g ! r) = i)"

lemma mg_inv_slots_length [simp]: "mg_inv g \<Longrightarrow> length (slots cb g) = max_channels g"
  by (cases cb) (simp_all add: mg_inv_def)

lemma mg_inv_semaphore: "mg_inv g \<Longrightarrow> mg_semaphore g = length (mg_freeList g)"
  by (simp add: mg_inv_def)

lemma mg_inv_free:
  "mg_inv g \<Longrightarrow> i \<in> set (mg_freeList g) \<longleftrightarrow>
     unat i < max_channels g \<and> mg_requestChannel g ! unat i = None"
  by (simp add: mg_inv_def)

lemma mg_inv_channel:
  "mg_inv g \<Longrightarrow> r < length (mg_channels g) \<Longrightarrow> channel_ok g (mg_channels g ! r)"
  by (simp add: mg_inv_def)

lemma mg_inv_open_channel:
  "mg_inv g \<Longrightarrow> r < length (mg_channels g) \<Longrightarrow> \<not> ch_isClosed (mg_channels g ! r) \<Longrightarrow>
   slots (ch_closeCallback (mg_channels g ! r)) g ! unat (ch_id (mg_channels g ! r)) = Some r"
  by (auto simp: mg_inv_def)

lemma mg_inv_slot:
  assumes "mg_inv g" "unat i < max_channels g" "slots cb g ! unat i = Some r"
  shows "r < length (mg_channels g)" "\<not> ch_isClosed (mg_channels g ! r)"
    "ch_closeCallback (mg_channels g ! r) = cb" "ch_id (mg_channels g ! r) = i"
  using assms unfolding mg_inv_def by blast+

lemma slot_eq_Ret: "slot xs i = Ret p \<longleftrightarrow> unat i < length xs \<and> xs ! unat i = p"
  by (simp add: slot_def)

lemma slot_eq_Undef: "slot xs i = Undef \<longleftrightarrow> length xs \<le> unat i"
  by (simp add: slot_def not_less)

lemma slot_not_Block [simp]: "slot xs i \<noteq> Block"
  by (simp add: slot_def)

lemma deref_not_Block [simp]: "deref g r \<noteq> Block"
  by (simp add: deref_def)

section \<open>The effect of closing\<close>

text \<open>The state after an open channel has been closed, and the world with its end message sent.\<close>

definition shut :: "'b message_buffer \<Rightarrow> channel_ptr \<Rightarrow> 'b manager \<Rightarrow> 'b manager" where
  "shut B r g =
     (let c = mg_channels g ! r;
          g = g\<lparr>mg_channels := (mg_channels g)
                  [r := c\<lparr>ch_buffer := mb_close B (ch_buffer c), ch_isClosed := True\<rparr>]\<rparr>
      in case ch_closeCallback c of
           RemoveRequest \<Rightarrow>
             g\<lparr>mg_requestChannel := (mg_requestChannel g)[unat (ch_id c) := None],
               mg_freeList := ch_id c # mg_freeList g, mg_semaphore := mg_semaphore g + 1\<rparr>
         | RemoveResponse \<Rightarrow>
             g\<lparr>mg_responseChannel := (mg_responseChannel g)[unat (ch_id c) := None]\<rparr>)"

definition end_sent :: "channel_ptr \<Rightarrow> 'b manager \<Rightarrow> 'z world_scheme \<Rightarrow> 'z world_scheme" where
  "end_sent r g w =
     (let c = mg_channels g ! r in
      snd (writeMessage (mg_writeFd g)
             (close_message (end_protocol (ch_closeCallback c) (mg_config g)) (ch_id c)) w))"

lemma close_closed [simp]:
  "r < length (mg_channels g) \<Longrightarrow> ch_isClosed (mg_channels g ! r) \<Longrightarrow>
   InternalChannel_close B r g w = Ret (g, w)"
  by (simp add: InternalChannel_close.simps deref_def)

text \<open>The callback of a channel whose slot is already empty finds nothing to do.\<close>

lemma remove_empty_slot:
  "unat i < length (slots cb g) \<Longrightarrow> slots cb g ! unat i = None \<Longrightarrow>
   remove_channel cb B i g w = Ret (g, w)"
  by (cases cb) (simp_all add: removeRequestChannel.simps removeResponseChannel.simps slot_def)

lemma close_open:
  assumes inv: "mg_inv g" and r: "r < length (mg_channels g)"
    and op: "\<not> ch_isClosed (mg_channels g ! r)"
  shows "InternalChannel_close B r g w = Ret (shut B r g, end_sent r g w)"
proof -
  note ok = mg_inv_channel [OF inv r, unfolded channel_ok_def]
  note sl = mg_inv_open_channel [OF inv r op]
  from inv have len: "length (mg_requestChannel g) = max_channels g"
    "length (mg_responseChannel g) = max_channels g" by (simp_all add: mg_inv_def)
  show ?thesis
    by (cases "ch_closeCallback (mg_channels g ! r)")
      (use r op ok sl len in \<open>simp_all add: InternalChannel_close.simps [of B r g w]
        removeRequestChannel.simps [of _ "ch_id (mg_channels g ! r)"]
        removeResponseChannel.simps [of _ "ch_id (mg_channels g ! r)"]
        deref_def put_channel_def slot_def shut_def end_sent_def Let_def split: prod.split\<close>)
qed

text \<open>Removing the channel of a slot is closing it.\<close>

lemma remove_full_slot:
  assumes inv: "mg_inv g" and i: "unat i < max_channels g" and s: "slots cb g ! unat i = Some r"
  shows "remove_channel cb B i g w = Ret (shut B r g, end_sent r g w)"
proof -
  note sl = mg_inv_slot [OF inv i s]
  note ok = mg_inv_channel [OF inv sl(1), unfolded channel_ok_def]
  from inv have len: "length (mg_requestChannel g) = max_channels g"
    "length (mg_responseChannel g) = max_channels g" by (simp_all add: mg_inv_def)
  show ?thesis
    by (cases cb)
      (use sl ok len i s in \<open>simp_all add: removeRequestChannel.simps [of _ i]
        removeResponseChannel.simps [of _ i] InternalChannel_close.simps [of B r]
        deref_def put_channel_def slot_def shut_def end_sent_def Let_def split: prod.split\<close>)
qed

lemma shut_simps [simp]:
  "mg_config (shut B r g) = mg_config g" "mg_writeFd (shut B r g) = mg_writeFd g"
  "length (mg_channels (shut B r g)) = length (mg_channels g)"
  by (simp_all add: shut_def Let_def split: close_callback.split)

lemma shut_channels:
  "mg_channels (shut B r g) =
     (mg_channels g)[r := (mg_channels g ! r)\<lparr>ch_buffer := mb_close B (ch_buffer (mg_channels g ! r)),
                                              ch_isClosed := True\<rparr>]"
  by (simp add: shut_def Let_def split: close_callback.split)

lemma shut_slots:
  "slots cb (shut B r g) =
     (if ch_closeCallback (mg_channels g ! r) = cb
      then (slots cb g)[unat (ch_id (mg_channels g ! r)) := None] else slots cb g)"
  by (cases cb) (simp_all add: shut_def Let_def split: close_callback.split)

lemma shut_freeList:
  "mg_freeList (shut B r g) =
     (if ch_closeCallback (mg_channels g ! r) = RemoveRequest
      then ch_id (mg_channels g ! r) # mg_freeList g else mg_freeList g)"
  by (simp add: shut_def Let_def split: close_callback.split)

lemma shut_semaphore:
  "mg_semaphore (shut B r g) =
     (if ch_closeCallback (mg_channels g ! r) = RemoveRequest
      then mg_semaphore g + 1 else mg_semaphore g)"
  by (simp add: shut_def Let_def split: close_callback.split)

lemma unat_u32_inject [simp]: "unat (i :: u32) = unat j \<longleftrightarrow> i = j"
  by (simp add: word_unat_eq_iff)

lemma mg_invI:
  assumes "\<And>cb. length (slots cb g) = max_channels g"
    and "mg_semaphore g = length (mg_freeList g)" "distinct (mg_freeList g)"
    and "\<And>i. i \<in> set (mg_freeList g) \<longleftrightarrow>
           unat i < max_channels g \<and> slots RemoveRequest g ! unat i = None"
    and "\<And>r. r < length (mg_channels g) \<Longrightarrow> channel_ok g (mg_channels g ! r)"
    and "\<And>r. r < length (mg_channels g) \<Longrightarrow> \<not> ch_isClosed (mg_channels g ! r) \<Longrightarrow>
           slots (ch_closeCallback (mg_channels g ! r)) g ! unat (ch_id (mg_channels g ! r)) = Some r"
    and "\<And>cb i r. unat i < max_channels g \<Longrightarrow> slots cb g ! unat i = Some r \<Longrightarrow>
           r < length (mg_channels g) \<and> \<not> ch_isClosed (mg_channels g ! r) \<and>
           ch_closeCallback (mg_channels g ! r) = cb \<and> ch_id (mg_channels g ! r) = i"
  shows "mg_inv g"
  using assms(1) [of RemoveRequest] assms(1) [of RemoveResponse] assms(2-)
  unfolding mg_inv_def by simp blast

lemma shut_inv:
  assumes inv: "mg_inv g" and r: "r < length (mg_channels g)"
    and op: "\<not> ch_isClosed (mg_channels g ! r)"
  shows "mg_inv (shut B r g)"
proof -
  let ?c = "mg_channels g ! r"
  note ok = mg_inv_channel [OF inv r, unfolded channel_ok_def]
  note sl = mg_inv_open_channel [OF inv r op]
  show ?thesis
  proof (rule mg_invI, goal_cases len sem dist free ok live slot)
    case (len cb)
    with inv show ?case by (simp add: shut_slots)
  next
    case sem
    with inv show ?case by (simp add: shut_freeList shut_semaphore mg_inv_semaphore)
  next
    case dist
    from inv have "distinct (mg_freeList g)" by (simp add: mg_inv_def)
    with sl mg_inv_free [OF inv, of "ch_id ?c"] show ?case by (auto simp: shut_freeList)
  next
    case (free i)
    from inv have "length (mg_requestChannel g) = max_channels g" by (simp add: mg_inv_def)
    then show ?case
      using ok by (auto simp: shut_freeList shut_slots mg_inv_free [OF inv] nth_update)
  next
    case (ok s)
    then show ?case
      using mg_inv_channel [OF inv, of s] \<open>r < length (mg_channels g)\<close> mg_inv_channel [OF inv r]
      by (auto simp: shut_channels channel_ok_def nth_update)
  next
    case (live s)
    then have s: "s < length (mg_channels g)" "s \<noteq> r" "\<not> ch_isClosed (mg_channels g ! s)"
      by (auto simp: shut_channels nth_update split: if_splits)
    from mg_inv_open_channel [OF inv s(1,3)] s sl show ?case
      by (auto simp: shut_channels shut_slots nth_update)
  next
    case (slot cb i s)
    then have i: "unat i < max_channels g" by simp
    from slot inv i have "slots cb g ! unat i = Some s"
      and ne: "\<not> (ch_closeCallback ?c = cb \<and> ch_id ?c = i)"
      by (auto simp: shut_slots nth_update split: if_splits)
    from mg_inv_slot [OF inv i this(1)] ne show ?case
      by (auto simp: shut_channels nth_update)
  qed
qed

text \<open>Replacing the buffer of a channel (a push or a read).\<close>

definition same_channel :: "'b channel \<Rightarrow> 'b channel \<Rightarrow> bool" where
  "same_channel c d \<longleftrightarrow> (\<exists>b. d = c\<lparr>ch_buffer := b\<rparr>)"

lemma put_channel_simps [simp]:
  "slots cb (put_channel r c g) = slots cb g"
  "mg_requestChannel (put_channel r c g) = mg_requestChannel g"
  "mg_responseChannel (put_channel r c g) = mg_responseChannel g"
  "mg_config (put_channel r c g) = mg_config g" "mg_writeFd (put_channel r c g) = mg_writeFd g"
  "mg_freeList (put_channel r c g) = mg_freeList g"
  "mg_semaphore (put_channel r c g) = mg_semaphore g"
  "mg_channels (put_channel r c g) = (mg_channels g)[r := c]"
  by (cases cb) (simp_all add: put_channel_def)

lemma put_channel_inv:
  assumes inv: "mg_inv g" and same: "same_channel (mg_channels g ! r) c"
  shows "mg_inv (put_channel r c g)"
proof -
  from same obtain b where c: "c = (mg_channels g ! r)\<lparr>ch_buffer := b\<rparr>"
    by (auto simp: same_channel_def)
  show ?thesis
  proof (rule mg_invI, goal_cases len sem dist free ok live slot)
    case (slot cb i s)
    then show ?case
      using mg_inv_slot [OF inv, of i cb s] by (auto simp: c nth_update)
  next
    case (ok s)
    then show ?case
      using mg_inv_channel [OF inv, of s] by (auto simp: c channel_ok_def nth_update)
  next
    case (live s)
    then show ?case
      using mg_inv_open_channel [OF inv, of s] by (auto simp: c nth_update split: if_splits)
  next
    case dist
    from inv show ?case by (simp add: mg_inv_def)
  qed (simp_all add: inv mg_inv_semaphore mg_inv_free)
qed

text \<open>A new channel in an empty slot.\<close>

definition opened ::
    "'b message_buffer \<Rightarrow> close_callback \<Rightarrow> channel_id_t \<Rightarrow> 'b manager \<Rightarrow> 'b manager" where
  "opened B cb i g =
     (let c = InternalChannel_new B (data_protocol cb (mg_config g)) (end_protocol cb (mg_config g))
                i (mg_writeFd g) cb;
          g = g\<lparr>mg_channels := mg_channels g @ [c]\<rparr>
      in case cb of
           RemoveRequest \<Rightarrow>
             g\<lparr>mg_requestChannel := (mg_requestChannel g)[unat i := Some (length (mg_channels g) - 1)],
               mg_freeList := remove1 i (mg_freeList g), mg_semaphore := mg_semaphore g - 1\<rparr>
         | RemoveResponse \<Rightarrow>
             g\<lparr>mg_responseChannel := (mg_responseChannel g)[unat i := Some (length (mg_channels g) - 1)]\<rparr>)"

lemma opened_simps [simp]:
  "mg_config (opened B cb i g) = mg_config g" "mg_writeFd (opened B cb i g) = mg_writeFd g"
  "length (mg_channels (opened B cb i g)) = Suc (length (mg_channels g))"
  by (simp_all add: opened_def Let_def split: close_callback.split)

lemma opened_channels:
  "mg_channels (opened B cb i g) = mg_channels g @
     [InternalChannel_new B (data_protocol cb (mg_config g)) (end_protocol cb (mg_config g))
        i (mg_writeFd g) cb]"
  by (simp add: opened_def Let_def split: close_callback.split)

lemma opened_slots:
  "slots cb' (opened B cb i g) =
     (if cb' = cb then (slots cb g)[unat i := Some (length (mg_channels g))] else slots cb' g)"
  by (cases cb'; cases cb) (simp_all add: opened_def Let_def)

lemma opened_inv:
  assumes inv: "mg_inv g" and i: "unat i < max_channels g" and free: "slots cb g ! unat i = None"
  shows "mg_inv (opened B cb i g)"
proof -
  have fl: "mg_freeList (opened B cb i g) =
      (if cb = RemoveRequest then remove1 i (mg_freeList g) else mg_freeList g)"
    by (cases cb) (simp_all add: opened_def Let_def)
  have dist: "distinct (mg_freeList g)" using inv by (simp add: mg_inv_def)
  have infree: "cb = RemoveRequest \<Longrightarrow> i \<in> set (mg_freeList g)"
    using mg_inv_free [OF inv, of i] i free by simp
  show ?thesis
  proof (rule mg_invI, goal_cases len sem dist free ok live slot)
    case (len cb')
    with inv show ?case by (simp add: opened_slots)
  next
    case sem
    have "mg_semaphore (opened B cb i g) = (if cb = RemoveRequest then mg_semaphore g - 1 else mg_semaphore g)"
      by (cases cb) (simp_all add: opened_def Let_def)
    then show ?case
      using infree by (simp add: fl mg_inv_semaphore [OF inv] length_remove1)
  next
    case dist
    from \<open>distinct (mg_freeList g)\<close> show ?case by (simp add: fl)
  next
    case (free j)
    from inv i have "unat i < length (mg_requestChannel g)" by (simp add: mg_inv_def)
    with dist mg_inv_free [OF inv, of j] show ?case
      by (auto simp: fl opened_slots nth_update)
  next
    case (ok r)
    then show ?case
      using mg_inv_channel [OF inv, of r] i
      by (auto simp: opened_channels nth_append channel_ok_def InternalChannel_new_def less_Suc_eq)
  next
    case (live r)
    then consider "r < length (mg_channels g)" "\<not> ch_isClosed (mg_channels g ! r)"
      | "r = length (mg_channels g)"
      by (auto simp: opened_channels nth_append less_Suc_eq split: if_splits)
    then show ?case
    proof cases
      case 1
      from mg_inv_open_channel [OF inv 1] 1 free \<open>slots cb g ! unat i = None\<close> show ?thesis
        by (auto simp: opened_channels opened_slots nth_append nth_update)
    next
      case 2
      with inv i show ?thesis
        by (simp add: opened_channels opened_slots InternalChannel_new_def)
    qed
  next
    case (slot cb' j r)
    then have j: "unat j < max_channels g" by simp
    have "cb' = cb \<and> j = i \<and> r = length (mg_channels g) \<or> slots cb' g ! unat j = Some r"
      using slot(2) i inv
      by (cases "cb' = cb \<and> j = i") (simp_all add: opened_slots nth_update split: if_splits)
    then consider "cb' = cb" "j = i" "r = length (mg_channels g)" | "slots cb' g ! unat j = Some r"
      by blast
    then show ?case
    proof cases
      case 1
      then show ?thesis by (simp add: opened_channels InternalChannel_new_def)
    next
      case 2
      from mg_inv_slot [OF inv j this] show ?thesis
        by (auto simp: opened_channels nth_append less_Suc_eq)
    qed
  qed
qed

section \<open>The operations under the invariant\<close>

lemma createRequestChannel_eq:
  assumes inv: "mg_inv g"
  shows "createRequestChannel B g =
    (case mg_freeList g of
       [] \<Rightarrow> Block
     | i # rest \<Rightarrow> Ret ((OkStatus, Some (length (mg_channels g))), opened B RemoveRequest i g))"
proof (cases "mg_freeList g")
  case Nil
  with inv show ?thesis by (simp add: createRequestChannel_def mg_inv_semaphore)
next
  case (Cons i rest)
  with mg_inv_free [OF inv, of i] inv have "unat i < length (mg_requestChannel g)"
    by (simp add: mg_inv_def)
  with Cons inv show ?thesis
    by (simp add: createRequestChannel_def mg_inv_semaphore slot_def opened_def Let_def)
qed

lemma createResponseChannel_eq:
  assumes inv: "mg_inv g"
  shows "createResponseChannel B i g =
    (if max_channels g \<le> unat i then Undef
     else if mg_responseChannel g ! unat i = None then Ret (OkStatus, opened B RemoveResponse i g)
     else Ret (AlreadyExistsError ''Channel already exists'', g))"
proof -
  from inv have "length (mg_responseChannel g) = max_channels g" by (simp add: mg_inv_def)
  then show ?thesis
    by (auto simp: createResponseChannel_def slot_def opened_def Let_def)
qed

text \<open>A push through the pointer of a slot; the channel is open, so the buffer takes it.\<close>

definition pushed :: "'b message_buffer \<Rightarrow> channel_ptr \<Rightarrow> message \<Rightarrow> 'b manager \<Rightarrow> 'b manager" where
  "pushed B r m g =
     put_channel r ((mg_channels g ! r)\<lparr>ch_buffer := snd (mb_push B m (ch_buffer (mg_channels g ! r)))\<rparr>) g"

lemma push_to_open:
  "r < length (mg_channels g) \<Longrightarrow> \<not> ch_isClosed (mg_channels g ! r) \<Longrightarrow>
   push_to B r m g = Ret (fst (mb_push B m (ch_buffer (mg_channels g ! r))), pushed B r m g)"
  by (simp add: push_to_def deref_def InternalChannel_push_def pushed_def split: prod.split)

lemma pushed_inv: "mg_inv g \<Longrightarrow> mg_inv (pushed B r m g)"
  unfolding pushed_def by (rule put_channel_inv) (auto simp: same_channel_def)

lemma pushed_simps [simp]:
  "slots cb (pushed B r m g) = slots cb g"
  "mg_requestChannel (pushed B r m g) = mg_requestChannel g"
  "mg_responseChannel (pushed B r m g) = mg_responseChannel g"
  "mg_config (pushed B r m g) = mg_config g"
  "mg_writeFd (pushed B r m g) = mg_writeFd g"
  by (simp_all add: pushed_def)

text \<open>The kind of channel an end message or a data message is for.\<close>

abbreviation peer_kind :: "close_callback \<Rightarrow> close_callback" where
  "peer_kind cb \<equiv> (case cb of RemoveRequest \<Rightarrow> RemoveResponse | RemoveResponse \<Rightarrow> RemoveRequest)"

definition ended :: "'b message_buffer \<Rightarrow> channel_ptr option \<Rightarrow> 'b manager \<Rightarrow> 'b manager" where
  "ended B p g = (case p of None \<Rightarrow> g | Some r \<Rightarrow> shut B r g)"

definition end_answered ::
    "channel_ptr option \<Rightarrow> 'b manager \<Rightarrow> 'z world_scheme \<Rightarrow> 'z world_scheme" where
  "end_answered p g w = (case p of None \<Rightarrow> w | Some r \<Rightarrow> end_sent r g w)"

text \<open>The protocols of a manager are told apart, as those of \<^verbatim>\<open>connector_types.h\<close> are.\<close>

definition protocols_distinct :: "manager_config \<Rightarrow> bool" where
  "protocols_distinct cfg \<longleftrightarrow>
     distinct [RequestProtocol cfg, RequestEndProtocol cfg, ResponseProtocol cfg, ResponseEndProtocol cfg]"

lemma protocols_ne:
  assumes "protocols_distinct cfg"
  shows "RequestProtocol cfg \<noteq> RequestEndProtocol cfg" "RequestProtocol cfg \<noteq> ResponseEndProtocol cfg"
    "RequestProtocol cfg \<noteq> ResponseProtocol cfg" "ResponseProtocol cfg \<noteq> RequestProtocol cfg"
    "ResponseProtocol cfg \<noteq> RequestEndProtocol cfg" "ResponseProtocol cfg \<noteq> ResponseEndProtocol cfg"
    "RequestEndProtocol cfg \<noteq> ResponseEndProtocol cfg" "ResponseEndProtocol cfg \<noteq> RequestEndProtocol cfg"
  using assms by (auto simp: protocols_distinct_def)

lemma protocols_distinct_connector [simp]: "protocols_distinct connector_config"
  by (simp add: protocols_distinct_def connector_config_def kInternalRequestProtocol_def
      kInternalRequestEndProtocol_def kInternalResponseProtocol_def kInternalResponseEndProtocol_def)

text \<open>An end message of the peer removes the channel of the other kind, if there is one.\<close>

lemma forward_end:
  assumes inv: "mg_inv g" and dist: "protocols_distinct (mg_config g)"
    and p: "protocol (header m) = end_protocol cb (mg_config g)"
  shows "forwardMessage B m g w =
    (if length (data m) < 4 \<or> max_channels g \<le> unat (un32 (take 4 (data m))) then Undef
     else let p = slots (peer_kind cb) g ! unat (un32 (take 4 (data m)))
          in Ret ((OkStatus, protocol (header m), None), ended B p g, end_answered p g w))"
proof (cases "length (data m) < 4")
  case True
  with p protocols_ne [OF dist] show ?thesis
    by (cases cb) (simp_all add: forwardMessage_def mem_read_def)
next
  case False
  let ?i = "un32 (take 4 (data m))"
  from inv have len: "length (mg_requestChannel g) = max_channels g"
    "length (mg_responseChannel g) = max_channels g" by (simp_all add: mg_inv_def)
  show ?thesis
  proof (cases "unat ?i < max_channels g")
    case i: True
    let ?p = "slots (peer_kind cb) g ! unat ?i"
    have "remove_channel (peer_kind cb) B ?i g w = Ret (ended B ?p g, end_answered ?p g w)"
      if "?p \<noteq> None"
    proof -
      from that obtain r where "?p = Some r" by blast
      with remove_full_slot [OF inv i this] show ?thesis
        by (simp add: ended_def end_answered_def)
    qed
    then show ?thesis
      by (cases cb; cases ?p)
        (use False p protocols_ne [OF dist] len i in
          \<open>simp_all add: forwardMessage_def mem_read_def slot_def Let_def
            ended_def end_answered_def\<close>)
  next
    case i: False
    show ?thesis
      by (cases cb)
        (use False p protocols_ne [OF dist] len i in \<open>simp_all add: forwardMessage_def mem_read_def
          slot_def\<close>)
  qed
qed

text \<open>A data message that does not unwrap, or has none of the four protocols, changes nothing.\<close>

lemma forward_other:
  assumes "protocol (header m) \<noteq> RequestEndProtocol (mg_config g)"
    "protocol (header m) \<noteq> ResponseEndProtocol (mg_config g)"
  shows "unwrapMessage un32 4 m = Ret (ErrStatus c s, x, y) \<Longrightarrow>
      forwardMessage B m g w = Ret ((ErrStatus c s, - 1, None), g, w)"
    and "unwrapMessage un32 4 m = Ret (OkStatus, Some i, Some u) \<Longrightarrow>
      protocol (header m) \<noteq> RequestProtocol (mg_config g) \<Longrightarrow>
      protocol (header m) \<noteq> ResponseProtocol (mg_config g) \<Longrightarrow>
      forwardMessage B m g w =
        Ret ((InvalidArgumentError ''Invalid protocol'', protocol (header u), None), g, w)"
  using assms by (simp_all add: forwardMessage_def)

text \<open>A response goes to the request channel of its id; there is none to create.\<close>

lemma forward_response:
  assumes inv: "mg_inv g" and dist: "protocols_distinct (mg_config g)"
    and p: "protocol (header m) = ResponseProtocol (mg_config g)"
    and u: "unwrapMessage un32 4 m = Ret (OkStatus, Some i, Some u)"
  shows "forwardMessage B m g w =
    (if max_channels g \<le> unat i then Undef
     else case mg_requestChannel g ! unat i of
            None \<Rightarrow> Ret ((NotFoundError ''Channel does not exist'', protocol (header u), None), g, w)
          | Some r \<Rightarrow> Ret ((fst (mb_push B u (ch_buffer (mg_channels g ! r))), protocol (header u), None),
                          pushed B r u g, w))"
proof -
  from inv have len: "length (mg_requestChannel g) = max_channels g" by (simp add: mg_inv_def)
  show ?thesis
  proof (cases "unat i < max_channels g")
    case True
    with p u protocols_ne [OF dist] len mg_inv_slot [OF inv True, of RemoveRequest] show ?thesis
      by (auto simp: forwardMessage_def slot_def push_to_open Let_def
          split: option.split)
  next
    case False
    with p u protocols_ne [OF dist] len show ?thesis
      by (simp add: forwardMessage_def slot_def Let_def)
  qed
qed

text \<open>
  A request goes to the response channel of its id, which is made when there is none; the
  channel is returned in both cases.
\<close>

lemma forward_request:
  assumes inv: "mg_inv g" and dist: "protocols_distinct (mg_config g)"
    and p: "protocol (header m) = RequestProtocol (mg_config g)"
    and u: "unwrapMessage un32 4 m = Ret (OkStatus, Some i, Some u)"
  shows "forwardMessage B m g w =
    (if max_channels g \<le> unat i then Undef
     else let g' = (if mg_responseChannel g ! unat i = None then opened B RemoveResponse i g else g);
              r = the (mg_responseChannel g' ! unat i)
          in Ret ((fst (mb_push B u (ch_buffer (mg_channels g' ! r))), protocol (header u), Some r),
                  pushed B r u g', w))"
proof -
  from inv have len: "length (mg_responseChannel g) = max_channels g" by (simp add: mg_inv_def)
  show ?thesis
  proof (cases "unat i < max_channels g")
    case i: True
    show ?thesis
    proof (cases "mg_responseChannel g ! unat i")
      case None
      define g' where "g' = opened B RemoveResponse i g"
      have g': "mg_inv g'" "max_channels g' = max_channels g"
        using opened_inv [OF inv i, of RemoveResponse B] None by (simp_all add: g'_def)
      have s: "mg_responseChannel g' ! unat i = Some (length (mg_channels g))"
        and l: "length (mg_responseChannel g') = max_channels g"
        using opened_slots [of RemoveResponse B RemoveResponse i g] i len by (simp_all add: g'_def)
      have "createResponseChannel B i g = Ret (OkStatus, g')"
        using i None by (simp add: createResponseChannel_eq [OF inv] g'_def)
      with None i p u protocols_ne [OF dist] len s l mg_inv_slot [OF g'(1), of i RemoveResponse] g'(2) show ?thesis
        by (simp add: forwardMessage_def slot_def push_to_open
            g'_def [symmetric] Let_def)
    next
      case (Some r)
      with i p u protocols_ne [OF dist] len mg_inv_slot [OF inv i, of RemoveResponse] show ?thesis
        by (simp add: forwardMessage_def slot_def push_to_open Let_def)
    qed
  next
    case False
    with p u protocols_ne [OF dist] len show ?thesis
      by (simp add: forwardMessage_def slot_def Let_def)
  qed
qed

end
