(* ===== verification/ChannelProps.thy ===== *)
theory ChannelProps
  imports ChannelPool
begin

text \<open>
  What the channel manager promises: its invariant in every reachable state, the pool of ids,
  closing, and forwarding.
\<close>

section \<open>Every sequence of operations\<close>

datatype manager_op =
    CreateRequest
  | Forward message
  | Write channel_ptr message
  | Read channel_ptr
  | ReadTimeout int channel_ptr
  | Close channel_ptr
  | Destroy

primrec manager_step ::
    "'b message_buffer \<Rightarrow> manager_op \<Rightarrow> 'b manager \<Rightarrow> 'z world_scheme \<Rightarrow>
     ('b manager \<times> 'z world_scheme) outcome" where
  "manager_step B CreateRequest g w =
     bind_outcome (createRequestChannel B g) (\<lambda>(res, g). Ret (g, w))"
| "manager_step B (Forward m) g w =
     bind_outcome (forwardMessage B m g w) (\<lambda>(res, g, w). Ret (g, w))"
| "manager_step B (Write r m) g w =
     bind_outcome (InternalRequest_sendMessage (InternalRequest_of_channel r) m g w) (\<lambda>(st, w). Ret (g, w))"
| "manager_step B (Read r) g w =
     bind_outcome (InternalRequest_receiveMessage B (InternalRequest_of_channel r) g) (\<lambda>(res, g). Ret (g, w))"
| "manager_step B (ReadTimeout t r) g w =
     bind_outcome (InternalRequest_receiveMessage_timeout B t (InternalRequest_of_channel r) g)
       (\<lambda>(res, g). Ret (g, w))"
| "manager_step B (Close r) g w = InternalRequest_terminate B (InternalRequest_of_channel r) g w"
| "manager_step B Destroy g w = InternalChannelManager_destroy B g w"

primrec manager_ops ::
    "'b message_buffer \<Rightarrow> manager_op list \<Rightarrow> 'b manager \<Rightarrow> 'z world_scheme \<Rightarrow>
     ('b manager \<times> 'z world_scheme) outcome" where
  "manager_ops B [] g w = Ret (g, w)"
| "manager_ops B (x # xs) g w =
     bind_outcome (manager_step B x g w) (\<lambda>(g, w). manager_ops B xs g w)"

lemma unat_of_nat_less_u32 [simp]: "n < unat (k :: u32) \<Longrightarrow> unat (of_nat n :: u32) = n"
  using less_trans [OF _ unat_u32_less [of k]] by (simp add: unat_of_nat_u32)

lemma new_config [simp]:
  "mg_config (InternalChannelManager_new cfg f) = cfg"
  "mg_writeFd (InternalChannelManager_new cfg f) = f"
  by (simp_all add: InternalChannelManager_new_def)

lemma new_inv: "mg_inv (InternalChannelManager_new cfg f :: 'b manager)"
proof -
  let ?g = "InternalChannelManager_new cfg f :: 'b manager" and ?n = "unat (MaxChannels cfg)"
  have sl: "slots cb ?g = replicate ?n None" for cb
    by (cases cb) (simp_all add: InternalChannelManager_new_def)
  have fl: "i \<in> set (mg_freeList ?g) \<longleftrightarrow> unat i < ?n" for i
  proof -
    have "unat i < ?n \<Longrightarrow> i \<in> of_nat ` {0..<?n}"
      by (rule image_eqI [of _ _ "unat i"]) simp_all
    then show ?thesis by (auto simp: InternalChannelManager_new_def)
  qed
  have inj: "inj_on (of_nat :: nat \<Rightarrow> u32) {0..<?n}"
  proof (rule inj_onI)
    fix x y assume x: "x \<in> {0..<?n}" and y: "y \<in> {0..<?n}" and eq: "(of_nat x :: u32) = of_nat y"
    have "x = unat (of_nat x :: u32)" using x by simp
    also have "\<dots> = y" using y by (simp only: eq) simp
    finally show "x = y" .
  qed
  show ?thesis
  proof (rule mg_invI, goal_cases len sem dist free ok live slot)
    case dist
    with inj show ?case by (simp add: InternalChannelManager_new_def distinct_map)
  next
    case (free i)
    with fl sl [of RemoveRequest] show ?case by (auto simp: InternalChannelManager_new_def)
  next
    case (slot cb i r)
    with sl [of cb] show ?case by simp
  qed (use sl in \<open>simp_all add: InternalChannelManager_new_def\<close>)
qed

lemma close_inv:
  assumes "mg_inv g" "InternalChannel_close B r g w = Ret (g', w')"
  shows "mg_inv g' \<and> mg_config g' = mg_config g \<and> mg_writeFd g' = mg_writeFd g"
proof -
  from assms(2) have r: "r < length (mg_channels g)"
    by (auto simp: InternalChannel_close.simps [of B r] deref_def outcome_simps split: if_splits)
  then show ?thesis
    using assms close_open [OF assms(1) r, of B w] shut_inv [OF assms(1) r, of B]
    by (cases "ch_isClosed (mg_channels g ! r)") auto
qed

lemma remove_inv:
  assumes inv: "mg_inv g" and "remove_channel cb B i g w = Ret (g', w')"
  shows "mg_inv g' \<and> mg_config g' = mg_config g \<and> mg_writeFd g' = mg_writeFd g"
proof -
  from assms have i: "unat i < max_channels g"
    using mg_inv_slots_length [OF inv, of cb]
    by (cases cb) (auto simp: removeRequestChannel.simps [of B i] removeResponseChannel.simps [of B i]
        slot_def outcome_simps split: if_splits)
  show ?thesis
  proof (cases "slots cb g ! unat i")
    case None
    with remove_empty_slot [of i cb g B w] i assms show ?thesis by simp
  next
    case (Some r)
    note sl = mg_inv_slot [OF inv i Some]
    from remove_full_slot [OF inv i Some, of B w] assms(2) shut_inv [OF inv sl(1,2), of B]
    show ?thesis by auto
  qed
qed

lemma remove_all_inv:
  "remove_all B is g w = Ret (g', w') \<Longrightarrow> mg_inv g \<Longrightarrow>
   mg_inv g' \<and> mg_config g' = mg_config g \<and> mg_writeFd g' = mg_writeFd g"
proof (induction "is" arbitrary: g w)
  case (Cons i "is")
  from Cons.prems(1) obtain g1 w1 g2 w2 where s:
    "removeResponseChannel B i g w = Ret (g1, w1)" "removeRequestChannel B i g1 w1 = Ret (g2, w2)"
    "remove_all B is g2 w2 = Ret (g', w')"
    by (auto simp: outcome_simps)
  with remove_inv [of g RemoveResponse B i w g1 w1] remove_inv [of g1 RemoveRequest B i w1 g2 w2]
    Cons.IH Cons.prems(2)
  show ?case by auto
qed simp

lemma create_inv:
  assumes inv: "mg_inv g" and "createRequestChannel B g = Ret (res, g')"
  shows "mg_inv g' \<and> mg_config g' = mg_config g \<and> mg_writeFd g' = mg_writeFd g"
proof -
  from assms obtain i rest where f: "mg_freeList g = i # rest" and g': "g' = opened B RemoveRequest i g"
    by (auto simp: createRequestChannel_eq split: list.splits)
  with mg_inv_free [OF inv, of i] have i: "unat i < max_channels g" "slots RemoveRequest g ! unat i = None"
    by simp_all
  show ?thesis using opened_inv [OF inv i] by (simp add: g')
qed

lemma push_inv:
  assumes "mg_inv g" "push_to B r m g = Ret (st, g')"
  shows "mg_inv g' \<and> mg_config g' = mg_config g \<and> mg_writeFd g' = mg_writeFd g"
proof -
  have "same_channel c (snd (InternalChannel_push B m c))" for c
    by (auto simp: same_channel_def InternalChannel_push_def split: prod.split
        intro: exI [of _ "ch_buffer c"])
  then have "mg_inv (put_channel r (snd (InternalChannel_push B m (mg_channels g ! r))) g)"
    by (intro put_channel_inv assms(1))
  with assms(2) show ?thesis
    by (cases "InternalChannel_push B m (mg_channels g ! r)")
      (auto simp: push_to_def deref_def split: if_splits)
qed

lemma createResponse_inv:
  assumes inv: "mg_inv g" and "createResponseChannel B i g = Ret (st, g')"
  shows "mg_inv g' \<and> mg_config g' = mg_config g \<and> mg_writeFd g' = mg_writeFd g"
  using assms opened_inv [OF inv, of i RemoveResponse B]
  by (auto simp: createResponseChannel_eq not_le split: if_splits)

lemma forward_inv:
  assumes inv: "mg_inv g" and f: "forwardMessage B m g w = Ret (res, g', w')"
  shows "mg_inv g' \<and> mg_config g' = mg_config g \<and> mg_writeFd g' = mg_writeFd g"
proof -
  let ?c = "mg_config g" and ?p = "protocol (header m)"
  consider (end1) "?p = ResponseEndProtocol ?c"
    | (end2) "?p \<noteq> ResponseEndProtocol ?c" "?p = RequestEndProtocol ?c"
    | (data) "?p \<noteq> ResponseEndProtocol ?c" "?p \<noteq> RequestEndProtocol ?c" by blast
  then show ?thesis
  proof cases
    case end1
    with f inv remove_inv [OF inv, of RemoveRequest B _ w] show ?thesis
      by (fastforce simp: forwardMessage_def outcome_simps Let_def split: if_splits)
  next
    case end2
    with f inv remove_inv [OF inv, of RemoveResponse B _ w] show ?thesis
      by (fastforce simp: forwardMessage_def outcome_simps Let_def split: if_splits)
  next
    case data
    with f obtain st x y where u: "unwrapMessage un32 4 m = Ret (st, x, y)"
      by (auto simp: forwardMessage_def outcome_simps Let_def)
    show ?thesis
    proof (cases "st = OkStatus \<and> x \<noteq> None \<and> y \<noteq> None")
      case True
      then obtain i v where iv: "st = OkStatus" "x = Some i" "y = Some v" by auto
      show ?thesis
      proof (cases "?p = ResponseProtocol ?c")
        case True
        with data f u iv inv push_inv [OF inv, of B _ v] show ?thesis
          by (fastforce simp: forwardMessage_def outcome_simps Let_def split: option.splits)
      next
        case False
        note f = f [unfolded forwardMessage_def Let_def, simplified data False u iv, simplified]
        show ?thesis
        proof (cases "?p = RequestProtocol ?c")
          case True
          with f obtain p st1 g1 where c: "slot (mg_responseChannel g) i = Ret p"
            "(if p = None then createResponseChannel B i g else Ret (OkStatus, g)) = Ret (st1, g1)"
            and rest: "st1 \<noteq> OkStatus \<and> g' = g1 \<or> (\<exists>r st2. push_to B r v g1 = Ret (st2, g'))"
            by (fastforce simp: outcome_simps data False u iv split: if_splits option.splits)
          from c have "mg_inv g1 \<and> mg_config g1 = mg_config g \<and> mg_writeFd g1 = mg_writeFd g"
            using createResponse_inv [OF inv, of B i] inv by (auto split: if_splits)
          with rest push_inv [of g1 B _ v] show ?thesis by auto
        next
          case False
          with f data inv show ?thesis by (auto split: if_splits)
        qed
      qed
    next
      case False
      with data f u inv show ?thesis
        by (cases x; cases y; cases "st = OkStatus") (auto simp: forwardMessage_def Let_def)
    qed
  qed
qed

text \<open>Every operation keeps the invariant and the constants of the manager.\<close>

lemma read_inv:
  assumes inv: "mg_inv g"
  shows "InternalRequest_receiveMessage B q g = Ret (res, g') \<Longrightarrow>
      mg_inv g' \<and> mg_config g' = mg_config g \<and> mg_writeFd g' = mg_writeFd g"
    and "InternalRequest_receiveMessage_timeout B t q g = Ret (res, g') \<Longrightarrow>
      mg_inv g' \<and> mg_config g' = mg_config g \<and> mg_writeFd g' = mg_writeFd g"
  using put_channel_inv [OF inv]
  by (auto simp: InternalRequest_receiveMessage_def InternalRequest_receiveMessage_timeout_def
      InternalChannel_read_def InternalChannel_read_timeout_def deref_def same_channel_def
      outcome_simps split: if_splits prod.splits)

lemma manager_step_inv:
  assumes "mg_inv g" "manager_step B x g w = Ret (g', w')"
  shows "mg_inv g' \<and> mg_config g' = mg_config g \<and> mg_writeFd g' = mg_writeFd g"
proof (cases x)
  case CreateRequest
  with assms(2) obtain res where "createRequestChannel B g = Ret (res, g')"
    by (auto simp: outcome_simps)
  then show ?thesis by (rule create_inv [OF assms(1)])
next
  case (Forward m)
  with assms(2) obtain res where "forwardMessage B m g w = Ret (res, g', w')"
    by (auto simp: outcome_simps)
  then show ?thesis by (rule forward_inv [OF assms(1)])
next
  case (Write r m)
  with assms show ?thesis by (auto simp: outcome_simps)
next
  case (Read r)
  with assms(2) obtain res
    where "InternalRequest_receiveMessage B (InternalRequest_of_channel r) g = Ret (res, g')"
    by (auto simp: outcome_simps)
  then show ?thesis by (rule read_inv(1) [OF assms(1)])
next
  case (ReadTimeout t r)
  with assms(2) obtain res
    where "InternalRequest_receiveMessage_timeout B t (InternalRequest_of_channel r) g = Ret (res, g')"
    by (auto simp: outcome_simps)
  then show ?thesis by (rule read_inv(2) [OF assms(1)])
next
  case (Close r)
  with assms(2) have "InternalChannel_close B (ir_channel (InternalRequest_of_channel r)) g w = Ret (g', w')"
    by (simp add: InternalRequest_terminate_def)
  then show ?thesis by (rule close_inv [OF assms(1)])
next
  case Destroy
  with assms(2) have "remove_all B (map of_nat [0..<max_channels g]) g w = Ret (g', w')"
    by (simp add: InternalChannelManager_destroy_def)
  then show ?thesis by (rule remove_all_inv [OF _ assms(1)])
qed

lemma manager_ops_inv:
  "manager_ops B xs g w = Ret (g', w') \<Longrightarrow> mg_inv g \<Longrightarrow>
   mg_inv g' \<and> mg_config g' = mg_config g \<and> mg_writeFd g' = mg_writeFd g"
proof (induction xs arbitrary: g w)
  case (Cons x xs)
  then obtain g1 w1 where s: "manager_step B x g w = Ret (g1, w1)" "manager_ops B xs g1 w1 = Ret (g', w')"
    by (auto simp: outcome_simps)
  with manager_step_inv [OF Cons.prems(2) s(1)] Cons.IH [OF s(2)] show ?case by simp
qed simp

section \<open>The pool of ids\<close>

text \<open>
  The contract of a bounded pool: it hands out an id that is not in use while there is one,
  waits when there is none, and takes ids back.
\<close>

locale id_pool =
  fixes acquire :: "'s \<Rightarrow> ('i \<times> 's) outcome"
    and release :: "'i \<Rightarrow> 's \<Rightarrow> 's outcome"
    and used :: "'s \<Rightarrow> 'i set"
    and ids :: "'i set"
    and inv :: "'s \<Rightarrow> bool"
  assumes finite_ids: "finite ids"
    and used_ids: "inv s \<Longrightarrow> used s \<subseteq> ids"
    and acquire_free:
      "inv s \<Longrightarrow> used s \<noteq> ids \<Longrightarrow>
       \<exists>i s'. acquire s = Ret (i, s') \<and> inv s' \<and> i \<notin> used s \<and> used s' = insert i (used s)"
    and acquire_full: "inv s \<Longrightarrow> used s = ids \<Longrightarrow> acquire s = Block"
    and release_used:
      "inv s \<Longrightarrow> i \<in> used s \<Longrightarrow> \<exists>s'. release i s = Ret s' \<and> inv s' \<and> used s' = used s - {i}"

primrec acquire_many :: "('s \<Rightarrow> ('i \<times> 's) outcome) \<Rightarrow> nat \<Rightarrow> 's \<Rightarrow> ('i list \<times> 's) outcome" where
  "acquire_many acq 0 s = Ret ([], s)"
| "acquire_many acq (Suc n) s =
     bind_outcome (acq s) (\<lambda>(i, s). bind_outcome (acquire_many acq n s) (\<lambda>(is, s). Ret (i # is, s)))"

context id_pool
begin

lemma acquire_many_free:
  "inv s \<Longrightarrow> n \<le> card (ids - used s) \<Longrightarrow>
   \<exists>is s'. acquire_many acquire n s = Ret (is, s') \<and> length is = n \<and> distinct is \<and>
     set is \<inter> used s = {} \<and> used s' = used s \<union> set is \<and> inv s'"
proof (induction n arbitrary: s)
  case (Suc n)
  from Suc.prems have "used s \<noteq> ids" by auto
  with acquire_free Suc.prems obtain i s1
    where a: "acquire s = Ret (i, s1)" "inv s1" "i \<notin> used s" "used s1 = insert i (used s)" by blast
  moreover have "ids - used s1 = (ids - used s) - {i}" "i \<in> ids - used s"
    using a used_ids [of s1] by auto
  then have "n \<le> card (ids - used s1)"
    using Suc.prems finite_ids by (simp add: card_Diff_singleton)
  ultimately obtain "is" s' where "acquire_many acquire n s1 = Ret (is, s')" "length is = n"
      "distinct is" "set is \<inter> used s1 = {}" "used s' = used s1 \<union> set is" "inv s'"
    using Suc.IH by blast
  with a show ?case by (intro exI [of _ "i # is"] exI [of _ s']) auto
qed simp

lemma acquire_many_full:
  "inv s \<Longrightarrow> card (ids - used s) < n \<Longrightarrow> acquire_many acquire n s = Block"
proof (induction n arbitrary: s)
  case (Suc n)
  show ?case
  proof (cases "used s = ids")
    case True
    with acquire_full Suc.prems show ?thesis by simp
  next
    case False
    with acquire_free Suc.prems obtain i s1
      where a: "acquire s = Ret (i, s1)" "inv s1" "i \<notin> used s" "used s1 = insert i (used s)" by blast
    then have "ids - used s1 = (ids - used s) - {i}" "i \<in> ids - used s"
      using used_ids [of s1] by auto
    then have "card (ids - used s1) < n"
      using Suc.prems finite_ids card_Diff1_less [of "ids - used s" i] by simp
    with a Suc.IH show ?thesis by simp
  qed
qed simp

text \<open>An id that was given back can be acquired again: the pool does not lose ids.\<close>

lemma release_then_acquire:
  assumes "inv s" "i \<in> used s"
  shows "\<exists>s' j s''. release i s = Ret s' \<and> acquire s' = Ret (j, s'')"
proof -
  obtain s' where r: "release i s = Ret s'" "inv s'" "used s' = used s - {i}"
    using release_used [OF assms] by blast
  then have "used s' \<noteq> ids" using assms used_ids by blast
  with r acquire_free show ?thesis by blast
qed

end

text \<open>
  The ids of the request channels of a manager: \<^verbatim>\<open>createRequestChannel\<close> acquires, the removal
  of a request channel (which is what closing it does) releases.
\<close>

definition open_request ::
    "'b message_buffer \<Rightarrow> 'b manager \<times> 'z world_scheme \<Rightarrow>
     (channel_id_t \<times> 'b manager \<times> 'z world_scheme) outcome" where
  "open_request B s =
     bind_outcome (createRequestChannel B (fst s)) (\<lambda>(res, g).
       case snd res of
         None \<Rightarrow> Undef
       | Some r \<Rightarrow> bind_outcome (deref g r) (\<lambda>c. Ret (ch_id c, g, snd s)))"

definition release_request ::
    "'b message_buffer \<Rightarrow> channel_id_t \<Rightarrow> 'b manager \<times> 'z world_scheme \<Rightarrow>
     ('b manager \<times> 'z world_scheme) outcome" where
  "release_request B i s = removeRequestChannel B i (fst s) (snd s)"

definition requests_in_use :: "'b manager \<times> 'z world_scheme \<Rightarrow> channel_id_t set" where
  "requests_in_use s =
     {i. unat i < max_channels (fst s) \<and> mg_requestChannel (fst s) ! unat i \<noteq> None}"

definition channel_ids :: "manager_config \<Rightarrow> channel_id_t set" where
  "channel_ids cfg = {i. unat i < unat (MaxChannels cfg)}"

lemma channel_ids_image: "channel_ids cfg = of_nat ` {0..<unat (MaxChannels cfg)}"
proof -
  have "i \<in> of_nat ` {0..<unat (MaxChannels cfg)}" if "unat i < unat (MaxChannels cfg)" for i
    using that by (intro image_eqI [of _ _ "unat i"]) simp_all
  then show ?thesis by (auto simp: channel_ids_def)
qed

lemma card_channel_ids [simp]: "card (channel_ids cfg) = unat (MaxChannels cfg)"
proof -
  have "inj_on (of_nat :: nat \<Rightarrow> u32) {0..<unat (MaxChannels cfg)}"
    by (rule inj_on_inverseI [where g = unat]) simp
  then show ?thesis by (simp add: channel_ids_image card_image)
qed

interpretation request_pool: id_pool "open_request B" "release_request B" requests_in_use
  "channel_ids cfg" "\<lambda>s. mg_inv (fst s) \<and> mg_config (fst s) = cfg"
  for B :: "'b message_buffer" and cfg
proof (unfold_locales, goal_cases fin sub free full rel)
  case fin
  then show ?case by (simp add: channel_ids_image)
next
  case (sub s)
  then show ?case by (auto simp: requests_in_use_def channel_ids_def)
next
  case (free s)
  have "mg_freeList (fst s) \<noteq> []"
  proof
    assume "mg_freeList (fst s) = []"
    with free mg_inv_free [of "fst s"] have "requests_in_use s = channel_ids cfg"
      by (auto simp: requests_in_use_def channel_ids_def)
    with free show False by simp
  qed
  then obtain i rest where f: "mg_freeList (fst s) = i # rest" by (cases "mg_freeList (fst s)") auto
  with free mg_inv_free [of "fst s" i]
  have i: "unat i < max_channels (fst s)" "mg_requestChannel (fst s) ! unat i = None" by auto
  let ?g = "opened B RemoveRequest i (fst s)"
  have "mg_inv ?g" using opened_inv [of "fst s" i RemoveRequest B] i free by simp
  moreover have "open_request B s = Ret (i, ?g, snd s)"
    using free f by (simp add: open_request_def createRequestChannel_eq deref_def opened_channels
        InternalChannel_new_def)
  moreover have "requests_in_use (?g, snd s) = insert i (requests_in_use s)"
    using opened_slots [of RemoveRequest B RemoveRequest i "fst s"] free i
    by (auto simp: requests_in_use_def nth_update mg_inv_def)
  ultimately show ?case
    using free i by (intro exI [of _ i] exI [of _ "(?g, snd s)"]) (simp add: requests_in_use_def)
next
  case (full s)
  then have "i \<notin> set (mg_freeList (fst s))" for i
    by (auto simp: requests_in_use_def channel_ids_def mg_inv_free)
  then have "mg_freeList (fst s) = []" by (cases "mg_freeList (fst s)") auto
  with full show ?case by (simp add: open_request_def createRequestChannel_eq)
next
  case (rel s i)
  then have inv: "mg_inv (fst s)" and i: "unat i < max_channels (fst s)"
    and "\<exists>r. slots RemoveRequest (fst s) ! unat i = Some r"
    by (auto simp: requests_in_use_def)
  then obtain r where r: "slots RemoveRequest (fst s) ! unat i = Some r" by blast
  note sl = mg_inv_slot [OF inv i r]
  let ?g = "shut B r (fst s)"
  have "release_request B i s = Ret (?g, end_sent r (fst s) (snd s))"
    using remove_full_slot [OF inv i r] by (simp add: release_request_def)
  moreover have "requests_in_use (?g, end_sent r (fst s) (snd s)) = requests_in_use s - {i}"
    using shut_slots [of RemoveRequest B r "fst s"] sl i inv
    by (auto simp: requests_in_use_def nth_update mg_inv_def)
  ultimately show ?case
    using shut_inv [OF inv sl(1,2), of B] rel by simp
qed

section \<open>Closing\<close>

text \<open>
  C6. The invariant of the channel manager holds after every sequence of operations on a new
  one: creating, forwarding any message, writing, reading, closing and destroying.
\<close>

theorem manager_reachable_inv:
  assumes "manager_ops B xs (InternalChannelManager_new cfg f) w = Ret (g, w')"
  shows "mg_inv g \<and> mg_config g = cfg \<and> mg_writeFd g = f"
  using manager_ops_inv [OF assms new_inv] by simp

text \<open>
  C7. The ids of request channels: on a new manager up to \<^verbatim>\<open>MaxChannels\<close> calls give pairwise
  different ids, and one call more waits until a channel is closed.
\<close>

theorem request_ids_capacity:
  "if n \<le> unat (MaxChannels cfg)
   then \<exists>is s. acquire_many (open_request B) n (InternalChannelManager_new cfg f, w) = Ret (is, s) \<and>
          length is = n \<and> distinct is \<and> requests_in_use s = set is
   else acquire_many (open_request B) n (InternalChannelManager_new cfg f, w) = Block"
proof -
  let ?s = "(InternalChannelManager_new cfg f :: 'a manager, w)"
  have inv: "mg_inv (fst ?s) \<and> mg_config (fst ?s) = cfg" by (simp add: new_inv)
  have none: "requests_in_use ?s = {}"
    by (auto simp: requests_in_use_def InternalChannelManager_new_def)
  show ?thesis
    using request_pool.acquire_many_free [OF inv, of n B] request_pool.acquire_many_full [OF inv, of n B]
    unfolding none by auto
qed

text \<open>
  C8. Closing an open channel sends exactly one end message, empties its slot, and (for a
  request channel) gives its id back once: closing it again, through any pointer or by its id,
  changes nothing.
\<close>

theorem close_once:
  assumes inv: "mg_inv g" and r: "r < length (mg_channels g)" and op: "\<not> ch_isClosed (mg_channels g ! r)"
  shows "\<exists>g' w'. InternalChannel_close B r g w = Ret (g', w') \<and>
    w' = snd (writeMessage (mg_writeFd g)
           (close_message (ch_WriteEndProtocol (mg_channels g ! r)) (ch_id (mg_channels g ! r))) w) \<and>
    slots (ch_closeCallback (mg_channels g ! r)) g' ! unat (ch_id (mg_channels g ! r)) = None \<and>
    mg_freeList g' =
      (if ch_closeCallback (mg_channels g ! r) = RemoveRequest
       then ch_id (mg_channels g ! r) # mg_freeList g else mg_freeList g) \<and>
    InternalChannel_close B r g' w' = Ret (g', w') \<and>
    remove_channel (ch_closeCallback (mg_channels g ! r)) B (ch_id (mg_channels g ! r)) g' w' = Ret (g', w')"
proof -
  let ?c = "mg_channels g ! r" and ?w = "end_sent r g w"
  have ok: "channel_ok g ?c" by (rule mg_inv_channel [OF inv r])
  have none: "slots (ch_closeCallback ?c) (shut B r g) ! unat (ch_id ?c) = None"
    using ok inv by (simp add: shut_slots nth_update channel_ok_def)
  have "InternalChannel_close B r (shut B r g) ?w = Ret (shut B r g, ?w)"
    using r by (intro close_closed) (simp_all add: shut_channels)
  moreover have "remove_channel (ch_closeCallback ?c) B (ch_id ?c) (shut B r g) ?w = Ret (shut B r g, ?w)"
    using ok shut_inv [OF inv r op, of B] none
    by (intro remove_empty_slot) (simp_all add: channel_ok_def)
  ultimately show ?thesis
    using close_open [OF inv r op] none ok
    by (intro exI [of _ "shut B r g"] exI [of _ ?w])
      (simp add: shut_freeList end_sent_def channel_ok_def Let_def)
qed

section \<open>A concrete instance\<close>

definition sample_config :: manager_config where
  "sample_config = connector_config\<lparr>MaxChannels := 2\<rparr>"

definition list_buffer :: "message list option message_buffer" where
  "list_buffer =
     \<lparr>mb_new = Some [],
      mb_push = (\<lambda>m b. case b of None \<Rightarrow> (FailedPreconditionError [], None)
                              | Some q \<Rightarrow> (OkStatus, Some (q @ [m]))),
      mb_pop = (\<lambda>b. case b of None \<Rightarrow> Ret ((FailedPreconditionError [], None), None)
                           | Some [] \<Rightarrow> Block
                           | Some (m # q) \<Rightarrow> Ret ((OkStatus, Some m), Some q)),
      mb_pop_timeout = (\<lambda>t b. case b of Some (m # q) \<Rightarrow> ((OkStatus, Some m), Some q)
                                     | _ \<Rightarrow> ((DeadlineExceededError [], None), b)),
      mb_close = (\<lambda>b. None)\<rparr>"

lemma fifo_list_buffer: "fifo_buffer list_buffer (\<lambda>b. b)"
  by (simp add: fifo_buffer_def list_buffer_def)

definition sample_manager :: "message list option manager" where
  "sample_manager = InternalChannelManager_new sample_config 4"

lemma sample_config_simps [simp]:
  "MaxChannels sample_config = 2" "RequestProtocol sample_config = 16"
  "RequestEndProtocol sample_config = 17" "ResponseProtocol sample_config = 19"
  "ResponseEndProtocol sample_config = 20"
  by (simp_all add: sample_config_def connector_config_def kInternalRequestProtocol_def
      kInternalRequestEndProtocol_def kInternalResponseProtocol_def kInternalResponseEndProtocol_def)

lemma sample_distinct [simp]: "protocols_distinct sample_config"
  by (simp add: protocols_distinct_def)

lemma upt_two: "[0..<2] = [0, Suc 0]" and replicate_two: "replicate 2 x = [x, x]"
  by (simp_all add: upt_rec numeral_2_eq_2)

lemma sample_manager_simps [simp]:
  "mg_config sample_manager = sample_config" "mg_writeFd sample_manager = 4"
  "mg_freeList sample_manager = [1, 0]" "mg_channels sample_manager = []"
  "mg_requestChannel sample_manager = [None, None]"
  "mg_responseChannel sample_manager = [None, None]"
  by (simp_all add: sample_manager_def InternalChannelManager_new_def upt_two replicate_two)

lemma sample_manager_inv [simp]: "mg_inv sample_manager"
  unfolding sample_manager_def by (rule new_inv)

definition sample_opened :: "close_callback \<Rightarrow> message list option manager" where
  "sample_opened cb = opened list_buffer cb 1 sample_manager"

lemma sample_opened_inv [simp]: "mg_inv (sample_opened cb)"
  unfolding sample_opened_def by (rule opened_inv) (cases cb; simp)+

lemma sample_opened_simps [simp]:
  "mg_config (sample_opened cb) = sample_config" "mg_writeFd (sample_opened cb) = 4"
  "mg_channels (sample_opened cb) =
     [InternalChannel_new list_buffer (data_protocol cb sample_config) (end_protocol cb sample_config) 1 4 cb]"
  "mg_requestChannel (sample_opened cb) = (if cb = RemoveRequest then [None, Some 0] else [None, None])"
  "mg_responseChannel (sample_opened cb) = (if cb = RemoveResponse then [None, Some 0] else [None, None])"
  using opened_slots [of RemoveRequest list_buffer cb 1 sample_manager]
    opened_slots [of RemoveResponse list_buffer cb 1 sample_manager]
  by (cases cb; simp add: sample_opened_def opened_channels)+

theorem manager_reachable_inv_witness:
  "mg_inv (sample_opened RemoveRequest) \<and> mg_config (sample_opened RemoveRequest) = sample_config \<and>
   mg_writeFd (sample_opened RemoveRequest) = 4"
proof (rule manager_reachable_inv [of list_buffer "[CreateRequest]" _ _ sample_world _ sample_world])
  show "manager_ops list_buffer [CreateRequest] (InternalChannelManager_new sample_config 4) sample_world =
      Ret (sample_opened RemoveRequest, sample_world)"
    by (simp add: sample_manager_def [symmetric] createRequestChannel_eq sample_opened_def)
qed

theorem close_once_witness:
  "\<exists>g' w'. InternalChannel_close list_buffer 0 (sample_opened RemoveRequest) sample_world = Ret (g', w') \<and>
     mg_requestChannel g' ! 1 = None"
  using close_once [of "sample_opened RemoveRequest" 0 list_buffer sample_world]
  by (auto simp: InternalChannel_new_def)

section \<open>Forwarding\<close>

lemma unwrapMessage_channel_cases:
  assumes "wf_message m"
  obtains (bad) s where "unwrapMessage un32 4 m = Ret (InvalidArgumentError s, None, None)"
  | (good) i u where "unwrapMessage un32 4 m = Ret (OkStatus, Some i, Some u)"
  using assms
proof (cases rule: unwrapMessage_wf [where sz = 4 and dec = un32])
  case short
  show ?thesis by (rule bad [OF short(2)])
next
  case (long body hb vb)
  note split = unwrapMessage_split [OF long, of un32]
  show ?thesis
    by (cases "unat (len (decode_header hb)) = length body") (auto intro: bad good simp: split)
qed

text \<open>
  C38. A message received from the peer makes \<^verbatim>\<open>forwardMessage\<close> read or write outside an array
  exactly in these cases: an end message with less than four bytes, and an end, request or
  response message whose channel id is not below \<^verbatim>\<open>MaxChannels\<close>. The id is never checked.
\<close>

theorem forward_undefined_iff:
  assumes inv: "mg_inv g" and dist: "protocols_distinct (mg_config g)" and wf: "wf_message m"
  shows "forwardMessage B m g w = Undef \<longleftrightarrow>
    (let p = protocol (header m); c = mg_config g in
     if p = RequestEndProtocol c \<or> p = ResponseEndProtocol c
     then length (data m) < 4 \<or> max_channels g \<le> unat (un32 (take 4 (data m)))
     else (p = RequestProtocol c \<or> p = ResponseProtocol c) \<and>
          (\<exists>i u. unwrapMessage un32 4 m = Ret (OkStatus, Some i, Some u) \<and> max_channels g \<le> unat i))"
proof -
  let ?p = "protocol (header m)" and ?c = "mg_config g"
  consider (reqend) "?p = end_protocol RemoveRequest ?c" | (respend) "?p = end_protocol RemoveResponse ?c"
    | (data) "?p \<noteq> RequestEndProtocol ?c" "?p \<noteq> ResponseEndProtocol ?c" by auto
  then show ?thesis
  proof cases
    case reqend
    from forward_end [OF inv dist this, of B w] reqend show ?thesis by (simp add: Let_def)
  next
    case respend
    from forward_end [OF inv dist this, of B w] respend show ?thesis by (simp add: Let_def)
  next
    case data
    from wf show ?thesis
    proof (cases rule: unwrapMessage_channel_cases)
      case (bad s)
      with forward_other(1) [OF data bad, of B w] data show ?thesis by (simp add: Let_def)
    next
      case (good i u)
      note other = forward_other(2) [OF data good, of B w]
      show ?thesis
      proof (cases "?p = ResponseProtocol ?c")
        case True
        from forward_response [OF inv dist True good, of B w] data True good show ?thesis
          by (simp add: Let_def split: option.split)
      next
        case False
        with forward_request [OF inv dist _ good, of B w] data good other show ?thesis
          by (cases "?p = RequestProtocol ?c") (simp_all add: Let_def)
      qed
    qed
  qed
qed

theorem forward_undefined_iff_witness:
  "forwardMessage list_buffer (close_message 17 5) sample_manager sample_world = Undef"
  by (subst forward_undefined_iff)
    (simp_all add: wf_message_def close_message_def Let_def take_all)

text \<open>
  Every request message on a channel that already exists returns that channel again as a
  new one, although nothing was created; the caller starts a handler for each of them.
\<close>

theorem forward_request_reannounces:
  assumes inv: "mg_inv g" and dist: "protocols_distinct (mg_config g)"
    and p: "protocol (header m) = RequestProtocol (mg_config g)"
    and u: "unwrapMessage un32 4 m = Ret (OkStatus, Some i, Some u)"
    and i: "unat i < max_channels g" and ex: "mg_responseChannel g ! unat i = Some r"
  shows "\<exists>st g'. forwardMessage B m g w = Ret ((st, protocol (header u), Some r), g', w) \<and>
    length (mg_channels g') = length (mg_channels g) \<and> slots cb g' = slots cb g"
  using forward_request [OF inv dist p u, of B w] i ex
  by (simp add: Let_def) (simp add: pushed_def)

theorem forward_request_reannounces_witness:
  "\<exists>st g'. forwardMessage list_buffer (wrapped le32 4 16 1 sample_message) (sample_opened RemoveResponse)
       sample_world = Ret ((st, 7, Some 0), g', sample_world) \<and>
     length (mg_channels g') = length (mg_channels (sample_opened RemoveResponse)) \<and>
     slots RemoveRequest g' = slots RemoveRequest (sample_opened RemoveResponse)"
  using forward_request_reannounces [of "sample_opened RemoveResponse" "wrapped le32 4 16 1 sample_message"
      1 sample_message 0 list_buffer sample_world RemoveRequest]
  by (simp add: channel_id_codec.unwrap_wrapped) (simp add: wrapped_def)

section \<open>Channels as queues\<close>

text \<open>
  The abstract view of a manager: for each id the queue of messages that were forwarded to its
  channel and not read yet; an id without a channel has an empty queue.
\<close>

definition queue ::
    "('b \<Rightarrow> message list option) \<Rightarrow> close_callback \<Rightarrow> 'b manager \<Rightarrow> channel_id_t \<Rightarrow> message list" where
  "queue contents cb g i =
     (case slots cb g ! unat i of
        None \<Rightarrow> []
      | Some r \<Rightarrow> (case contents (ch_buffer (mg_channels g ! r)) of None \<Rightarrow> [] | Some q \<Rightarrow> q))"

definition buffers_open :: "('b \<Rightarrow> message list option) \<Rightarrow> 'b manager \<Rightarrow> bool" where
  "buffers_open contents g \<longleftrightarrow>
     (\<forall>c \<in> set (mg_channels g). ch_isClosed c \<or> contents (ch_buffer c) \<noteq> None)"

lemma buffers_open_new [simp]: "buffers_open contents (InternalChannelManager_new cfg f)"
  by (simp add: buffers_open_def InternalChannelManager_new_def)

lemma buffers_openD:
  "buffers_open contents g \<Longrightarrow> r < length (mg_channels g) \<Longrightarrow> \<not> ch_isClosed (mg_channels g ! r) \<Longrightarrow>
   \<exists>q. contents (ch_buffer (mg_channels g ! r)) = Some q"
  by (auto simp: buffers_open_def dest: nth_mem)

lemma fifo_laws:
  assumes "fifo_buffer B contents"
  shows "contents (mb_new B) = Some []"
    and "contents b = Some q \<Longrightarrow> fst (mb_push B m b) = OkStatus \<and> contents (snd (mb_push B m b)) = Some (q @ [m])"
    and "contents b = Some (m # q) \<Longrightarrow> \<exists>b'. mb_pop B b = Ret ((OkStatus, Some m), b') \<and> contents b' = Some q"
    and "contents b = Some [] \<Longrightarrow> mb_pop B b = Block"
  using assms by (auto simp: fifo_buffer_def) (metis fst_conv, metis snd_conv)

text \<open>A push to an open channel appends to the queue of its id and to no other.\<close>

lemma pushed_queue:
  assumes fifo: "fifo_buffer B contents" and inv: "mg_inv g" and bo: "buffers_open contents g"
    and i: "unat i < max_channels g" and r: "slots cb g ! unat i = Some r"
  shows "fst (mb_push B m (ch_buffer (mg_channels g ! r))) = OkStatus"
    and "buffers_open contents (pushed B r m g)"
    and "unat j < max_channels g \<Longrightarrow> queue contents cb' (pushed B r m g) j =
      (if cb' = cb \<and> j = i then queue contents cb g i @ [m] else queue contents cb' g j)"
proof -
  note sl = mg_inv_slot [OF inv i r]
  obtain q where q: "contents (ch_buffer (mg_channels g ! r)) = Some q"
    using buffers_openD [OF bo sl(1,2)] by blast
  note push = fifo_laws(2) [OF fifo q, of m]
  show "fst (mb_push B m (ch_buffer (mg_channels g ! r))) = OkStatus" using push by simp
  show "buffers_open contents (pushed B r m g)"
    using bo push set_update_subset_insert [of "mg_channels g" r]
    by (fastforce simp: buffers_open_def pushed_def)
  assume j: "unat j < max_channels g"
  show "queue contents cb' (pushed B r m g) j =
      (if cb' = cb \<and> j = i then queue contents cb g i @ [m] else queue contents cb' g j)"
  proof (cases "cb' = cb \<and> j = i")
    case True
    with r q push sl(1) show ?thesis by (simp add: queue_def pushed_def)
  next
    case False
    have "s \<noteq> r" if "slots cb' g ! unat j = Some s" for s
      using mg_inv_slot(3,4) [OF inv j that] sl(3,4) False by auto
    with False show ?thesis by (auto simp: queue_def pushed_def split: option.split)
  qed
qed

lemma opened_queue:
  assumes fifo: "fifo_buffer B contents" and inv: "mg_inv g" and bo: "buffers_open contents g"
    and i: "unat i < max_channels g" and none: "slots cb g ! unat i = None"
  shows "buffers_open contents (opened B cb i g)"
    and "unat j < max_channels g \<Longrightarrow> queue contents cb' (opened B cb i g) j = queue contents cb' g j"
proof -
  note new = fifo_laws(1) [OF fifo]
  show "buffers_open contents (opened B cb i g)"
    using bo new by (auto simp: buffers_open_def opened_channels InternalChannel_new_def)
  assume j: "unat j < max_channels g"
  show "queue contents cb' (opened B cb i g) j = queue contents cb' g j"
  proof (cases "cb' = cb \<and> j = i")
    case True
    with none new i inv show ?thesis
      by (simp add: queue_def opened_slots opened_channels InternalChannel_new_def)
  next
    case False
    have "s < length (mg_channels g)" if "slots cb' g ! unat j = Some s" for s
      using mg_inv_slot(1) [OF inv j that] .
    with False show ?thesis
      by (auto simp: queue_def opened_slots opened_channels nth_update nth_append split: option.split)
  qed
qed

lemma forward_request_queues:
  assumes fifo: "fifo_buffer B contents" and inv: "mg_inv g" and bo: "buffers_open contents g"
    and dist: "protocols_distinct (mg_config g)"
    and p: "protocol (header m) = RequestProtocol (mg_config g)"
    and u: "unwrapMessage un32 4 m = Ret (OkStatus, Some i, Some u)"
    and i: "unat i < max_channels g"
  obtains r g' where
    "forwardMessage B m g w = Ret ((OkStatus, protocol (header u), Some r), g', w)"
    "mg_inv g'" "mg_config g' = mg_config g" "mg_writeFd g' = mg_writeFd g"
    "mg_responseChannel g' ! unat i = Some r" "buffers_open contents g'"
    "\<And>cb (j :: channel_id_t). unat j < max_channels g \<Longrightarrow> queue contents cb g' j =
      (if cb = RemoveResponse \<and> j = i then queue contents RemoveResponse g i @ [u]
       else queue contents cb g j)"
    "mg_responseChannel g ! unat i \<in> {None, Some r}"
proof -
  define h where "h = (if mg_responseChannel g ! unat i = None then opened B RemoveResponse i g else g)"
  have none: "mg_responseChannel g ! unat i = None \<Longrightarrow> slots RemoveResponse g ! unat i = None" by simp
  have h: "mg_inv h" "mg_config h = mg_config g" "mg_writeFd h = mg_writeFd g" "buffers_open contents h"
    using opened_inv [OF inv i none, of B] opened_queue(1) [OF fifo inv bo i none] inv bo
    by (simp_all add: h_def)
  have hq: "queue contents cb h j = queue contents cb g j" if "unat j < max_channels g" for cb j
    using opened_queue(2) [OF fifo inv bo i none that] by (simp add: h_def)
  obtain r where r: "slots RemoveResponse h ! unat i = Some r"
    using opened_slots [of RemoveResponse B RemoveResponse i g] i inv
      mg_inv_slots_length [OF inv, of RemoveResponse]
    by (cases "mg_responseChannel g ! unat i") (auto simp: h_def)
  have ih: "unat i < max_channels h" using h(2) i by simp
  note push = pushed_queue [OF fifo h(1) h(4) ih r, where m = u]
  have fw: "forwardMessage B m g w =
      Ret ((fst (mb_push B u (ch_buffer (mg_channels h ! r))), protocol (header u), Some r), pushed B r u h, w)"
    using forward_request [OF inv dist p u, of B w] i r by (simp add: Let_def flip: h_def)
  have same: "mg_responseChannel g ! unat i \<in> {None, Some r}"
    using r by (cases "mg_responseChannel g ! unat i") (simp_all add: h_def)
  show ?thesis
    by (rule that [of r "pushed B r u h"])
      (use same fw push(1,2) push(3) h(2,3) pushed_inv [OF h(1)] hq [OF i] hq r in simp_all)
qed

text \<open>
  Forwarding refines the queues: a request message for channel \<open>i\<close> is appended to the queue
  of response channel \<open>i\<close>, whether that channel exists already or is created for it, and every
  other queue stays as it is.
\<close>

theorem forward_request_appends:
  assumes "fifo_buffer B contents" and "mg_inv g" and "buffers_open contents g"
    and "protocols_distinct (mg_config g)"
    and "protocol (header m) = RequestProtocol (mg_config g)"
    and "unwrapMessage un32 4 m = Ret (OkStatus, Some i, Some u)"
    and "unat i < max_channels g" and "unat j < max_channels g"
  shows "\<exists>r g'. forwardMessage B m g w = Ret ((OkStatus, protocol (header u), Some r), g', w) \<and>
    mg_responseChannel g' ! unat i = Some r \<and> buffers_open contents g' \<and>
    queue contents cb g' j =
      (if cb = RemoveResponse \<and> j = i then queue contents RemoveResponse g i @ [u]
       else queue contents cb g j)"
proof (rule forward_request_queues [OF assms(1-7), of w])
  fix r g'
  assume "forwardMessage B m g w = Ret ((OkStatus, protocol (header u), Some r), g', w)"
    and "mg_responseChannel g' ! unat i = Some r" and "buffers_open contents g'"
    and "\<And>cb (j :: channel_id_t). unat j < max_channels g \<Longrightarrow> queue contents cb g' j =
      (if cb = RemoveResponse \<and> j = i then queue contents RemoveResponse g i @ [u]
       else queue contents cb g j)"
  with assms(8) show ?thesis by blast
qed

text \<open>The manager with the two protocols of \<open>sample_config\<close> and one waiting message.\<close>

theorem forward_request_appends_witness:
  "\<exists>r g'. forwardMessage list_buffer (wrapped le32 4 16 1 sample_message) sample_manager sample_world =
       Ret ((OkStatus, 7, Some r), g', sample_world) \<and>
     mg_responseChannel g' ! 1 = Some r \<and> buffers_open (\<lambda>b. b) g' \<and>
     queue (\<lambda>b. b) RemoveResponse g' 1 = [sample_message]"
proof -
  have "buffers_open (\<lambda>b. b) sample_manager" by (simp add: buffers_open_def)
  moreover have "queue (\<lambda>b. b) RemoveResponse sample_manager 1 = []" by (simp add: queue_def)
  moreover have "protocol (header (wrapped le32 4 16 1 sample_message)) = 16" by (simp add: wrapped_def)
  ultimately show ?thesis
    using forward_request_appends [OF fifo_list_buffer sample_manager_inv, of
        "wrapped le32 4 16 1 sample_message" 1 sample_message 1 sample_world RemoveResponse]
    by (simp add: channel_id_codec.unwrap_wrapped)
qed

lemma forward_response_appends_lemma:
  assumes fifo: "fifo_buffer B contents" and inv: "mg_inv g" and bo: "buffers_open contents g"
    and dist: "protocols_distinct (mg_config g)"
    and p: "protocol (header m) = ResponseProtocol (mg_config g)"
    and u: "unwrapMessage un32 4 m = Ret (OkStatus, Some i, Some u)"
    and i: "unat i < max_channels g" and r: "mg_requestChannel g ! unat i = Some r"
  shows "forwardMessage B m g w = Ret ((OkStatus, protocol (header u), None), pushed B r u g, w)"
    and "buffers_open contents (pushed B r u g)"
    and "unat j < max_channels g \<Longrightarrow> queue contents cb (pushed B r u g) j =
      (if cb = RemoveRequest \<and> j = i then queue contents RemoveRequest g i @ [u]
       else queue contents cb g j)"
proof -
  have r': "slots RemoveRequest g ! unat i = Some r" using r by simp
  note push = pushed_queue [OF fifo inv bo i r', where m = u]
  show "forwardMessage B m g w = Ret ((OkStatus, protocol (header u), None), pushed B r u g, w)"
    using forward_response [OF inv dist p u, of B w] i r push(1) by simp
  show "buffers_open contents (pushed B r u g)" by (rule push(2))
  show "unat j < max_channels g \<Longrightarrow> queue contents cb (pushed B r u g) j =
      (if cb = RemoveRequest \<and> j = i then queue contents RemoveRequest g i @ [u]
       else queue contents cb g j)"
    by (rule push(3))
qed

text \<open>Reading a channel takes the head of its queue.\<close>

lemma read_queue:
  assumes fifo: "fifo_buffer B contents" and inv: "mg_inv g" and bo: "buffers_open contents g"
    and i: "unat i < max_channels g" and r: "slots cb g ! unat i = Some r"
  shows "queue contents cb g i = m # q \<Longrightarrow> ir_channel x = r \<Longrightarrow>
    \<exists>g'. InternalRequest_receiveMessage B x g = Ret ((OkStatus, Some m), g') \<and>
      queue contents cb g' i = q"
    and "queue contents cb g i = [] \<Longrightarrow> ir_channel x = r \<Longrightarrow>
      InternalRequest_receiveMessage B x g = Block"
proof -
  note sl = mg_inv_slot [OF inv i r]
  obtain q0 where q0: "contents (ch_buffer (mg_channels g ! r)) = Some q0"
    using buffers_openD [OF bo sl(1,2)] by blast
  with r have qq: "queue contents cb g i = q0" by (simp add: queue_def)
  show "\<exists>g'. InternalRequest_receiveMessage B x g = Ret ((OkStatus, Some m), g') \<and>
      queue contents cb g' i = q" if "queue contents cb g i = m # q" "ir_channel x = r"
  proof -
    from q0 qq that fifo_laws(3) [OF fifo] obtain b
      where b: "mb_pop B (ch_buffer (mg_channels g ! r)) = Ret ((OkStatus, Some m), b)" "contents b = Some q"
      by metis
    with sl(1) r that show ?thesis
      by (simp add: InternalRequest_receiveMessage_def deref_def InternalChannel_read_def queue_def)
  qed
  show "InternalRequest_receiveMessage B x g = Block" if "queue contents cb g i = []" "ir_channel x = r"
    using that q0 qq sl(1) fifo_laws(4) [OF fifo, of "ch_buffer (mg_channels g ! r)"]
    by (simp add: InternalRequest_receiveMessage_def deref_def InternalChannel_read_def)
qed

section \<open>Writing to the connection\<close>

lemma writeMessage_no_fault:
  assumes "w_script w = []" "w_open w f" "0 \<le> f" "length (data m) < 4294967296"
  shows "writeMessage f m w =
    (OkStatus, w\<lparr>w_out := (w_out w)(f := w_out w f @ frame (sync_length m))\<rparr>)"
proof -
  have "body_len (sync_length m) = length (data m)"
    using wf_message_sync [OF assms(4)] by (simp add: wf_message_def)
  with assms(1-3) show ?thesis
    by (simp add: writeMessage_def os_send_no_fault kMessageHeaderLength_def frame_def Let_def)
qed

lemma InternalChannel_write_no_fault:
  assumes "w_script w = []" "w_open w (ch_writeFd c)" "0 \<le> ch_writeFd c" "\<not> ch_isClosed c"
    and wf: "wf_message m" and small: "body_len m + 12 < 4294967296"
  shows "InternalChannel_write c m w = Ret (OkStatus,
    w\<lparr>w_out := (w_out w)(ch_writeFd c := w_out w (ch_writeFd c) @
                 frame (wrapped le32 4 (ch_WriteProtocol c) (ch_id c) m))\<rparr>)"
proof -
  let ?m = "wrapped le32 4 (ch_WriteProtocol c) (ch_id c) m"
  have "wf_message ?m" using small by (intro channel_id_codec.wf_wrapped) simp
  then have "sync_length ?m = ?m" "length (data ?m) < 4294967296"
    by (simp_all add: sync_length_wf wf_message_def)
  with assms(1-4) small show ?thesis
    by (simp add: InternalChannel_write_def channel_id_codec.wrapMessage_wrapped writeMessage_no_fault)
qed

lemma wf_close_message [simp]: "wf_message (close_message p i)"
  by (simp add: wf_message_def close_message_def)

lemma close_message_simps [simp]:
  "protocol (header (close_message p i)) = p" "data (close_message p i) = le32 i"
  by (simp_all add: close_message_def)

text \<open>
  C39. A late end message closes the wrong channel. When the client closes a request channel and
  opens a new one, the new one gets the same id. The server answers the end of the first
  request with its own end message for that id, and when this arrives the client's new channel
  is closed, although nobody ended it.
\<close>

theorem late_end_closes_new_channel:
  assumes inv: "mg_inv gA" and r: "r < length (mg_channels gA)" and op: "\<not> ch_isClosed (mg_channels gA ! r)"
    and kind: "ch_closeCallback (mg_channels gA ! r) = RemoveRequest" and i: "ch_id (mg_channels gA ! r) = i"
    and peer: "mg_inv gB" "mg_config gB = mg_config gA" "protocols_distinct (mg_config gA)"
    and resp: "mg_responseChannel gB ! unat i = Some s"
    and kernel: "w_script wB = []" "w_open wB (mg_writeFd gB)" "0 \<le> mg_writeFd gB"
  shows "\<exists>gA1 wA1 gA2 r2 gB' wB' gA3 wA3.
    InternalChannel_close B r gA wA = Ret (gA1, wA1) \<and>
    createRequestChannel B gA1 = Ret ((OkStatus, Some r2), gA2) \<and>
    ch_id (mg_channels gA2 ! r2) = i \<and> \<not> ch_isClosed (mg_channels gA2 ! r2) \<and>
    forwardMessage B (close_message (RequestEndProtocol (mg_config gA)) i) gB wB =
      Ret ((OkStatus, RequestEndProtocol (mg_config gA), None), gB', wB') \<and>
    w_out wB' (mg_writeFd gB) = w_out wB (mg_writeFd gB) @
      frame (close_message (ResponseEndProtocol (mg_config gA)) i) \<and>
    forwardMessage B (close_message (ResponseEndProtocol (mg_config gA)) i) gA2 wA1 =
      Ret ((OkStatus, ResponseEndProtocol (mg_config gA), None), gA3, wA3) \<and>
    ch_isClosed (mg_channels gA3 ! r2)"
proof -
  let ?c = "mg_config gA" and ?A1 = "shut B r gA"
  let ?A2 = "opened B RemoveRequest i ?A1" and ?r2 = "length (mg_channels gA)"
  have ilt: "unat i < max_channels gA"
    using mg_inv_channel [OF inv r] i by (simp add: channel_ok_def)
  have inv1: "mg_inv ?A1" by (rule shut_inv [OF inv r op])
  have none: "slots RemoveRequest ?A1 ! unat i = None"
    using ilt inv kind i mg_inv_slots_length [OF inv, of RemoveRequest] by (simp add: shut_slots)
  have inv2: "mg_inv ?A2" using opened_inv [OF inv1 _ none] ilt by simp
  have slot2: "slots RemoveRequest ?A2 ! unat i = Some ?r2"
    using ilt mg_inv_slots_length [OF inv1, of RemoveRequest] by (simp add: opened_slots)
  have create: "createRequestChannel B ?A1 = Ret ((OkStatus, Some ?r2), ?A2)"
    using createRequestChannel_eq [OF inv1, of B] kind i by (simp add: shut_freeList)
  have fwB: "forwardMessage B (close_message (RequestEndProtocol ?c) i) gB wB =
      Ret ((OkStatus, RequestEndProtocol ?c, None), shut B s gB, end_sent s gB wB)"
    using forward_end [OF peer(1), of "close_message (RequestEndProtocol ?c) i" RemoveRequest B wB]
      peer resp ilt by (simp add: ended_def end_answered_def Let_def)
  have sB: "ch_closeCallback (mg_channels gB ! s) = RemoveResponse" "ch_id (mg_channels gB ! s) = i"
    using mg_inv_slot [OF peer(1), of i RemoveResponse s] resp ilt peer(2) by simp_all
  have out: "w_out (end_sent s gB wB) (mg_writeFd gB) = w_out wB (mg_writeFd gB) @
      frame (close_message (ResponseEndProtocol ?c) i)"
    using writeMessage_no_fault [OF kernel, of "close_message (ResponseEndProtocol ?c) i"] sB peer(2)
    by (simp add: end_sent_def sync_length_wf)
  have fwA: "forwardMessage B (close_message (ResponseEndProtocol ?c) i) ?A2 (end_sent r gA wA) =
      Ret ((OkStatus, ResponseEndProtocol ?c, None), shut B ?r2 ?A2, end_sent ?r2 ?A2 (end_sent r gA wA))"
    using forward_end [OF inv2, of "close_message (ResponseEndProtocol ?c) i" RemoveResponse B]
      peer ilt slot2 by (simp add: ended_def end_answered_def Let_def)
  have new: "ch_id (mg_channels ?A2 ! ?r2) = i" "\<not> ch_isClosed (mg_channels ?A2 ! ?r2)"
    by (simp_all add: opened_channels nth_append InternalChannel_new_def)
  have closed: "ch_isClosed (mg_channels (shut B ?r2 ?A2) ! ?r2)" by (simp add: shut_channels)
  show ?thesis
    using close_open [OF inv r op] create new fwB out fwA closed by blast
qed

theorem late_end_closes_new_channel_witness:
  "\<exists>gA1 wA1 gA2 r2 gB' wB' gA3 wA3.
    InternalChannel_close list_buffer 0 (sample_opened RemoveRequest) sample_world = Ret (gA1, wA1) \<and>
    createRequestChannel list_buffer gA1 = Ret ((OkStatus, Some r2), gA2) \<and>
    ch_id (mg_channels gA2 ! r2) = 1 \<and> \<not> ch_isClosed (mg_channels gA2 ! r2) \<and>
    forwardMessage list_buffer (close_message 17 1) (sample_opened RemoveResponse) sample_world =
      Ret ((OkStatus, 17, None), gB', wB') \<and>
    w_out wB' 4 = frame (close_message 20 1) \<and>
    forwardMessage list_buffer (close_message 20 1) gA2 wA1 = Ret ((OkStatus, 20, None), gA3, wA3) \<and>
    ch_isClosed (mg_channels gA3 ! r2)"
  using late_end_closes_new_channel [of "sample_opened RemoveRequest" 0 1 "sample_opened RemoveResponse" 0
      sample_world list_buffer sample_world]
  by (simp add: InternalChannel_new_def)

section \<open>Destroying the manager\<close>

lemma remove_returns:
  assumes inv: "mg_inv g" and i: "unat i < max_channels g"
  obtains g' w' where "remove_channel cb B i g w = Ret (g', w')" "mg_inv g'" "mg_config g' = mg_config g"
    "slots cb g' ! unat i = None"
    "\<And>cb' (j :: channel_id_t). slots cb' g ! unat j = None \<Longrightarrow> slots cb' g' ! unat j = None"
proof (cases "slots cb g ! unat i")
  case None
  with that [of g w] inv i remove_empty_slot [of i cb g B w] show ?thesis by simp
next
  case (Some r)
  note sl = mg_inv_slot [OF inv i Some]
  show ?thesis
    by (rule that [OF remove_full_slot [OF inv i Some]])
      (use shut_inv [OF inv sl(1,2)] sl inv i in \<open>simp_all add: shut_slots nth_update\<close>)
qed

lemma remove_all_returns:
  "mg_inv g \<Longrightarrow> \<forall>i \<in> set is. unat i < max_channels g \<Longrightarrow>
   \<exists>g' w'. remove_all B is g w = Ret (g', w') \<and> mg_inv g' \<and> mg_config g' = mg_config g \<and>
     (\<forall>cb. \<forall>i \<in> set is. slots cb g' ! unat i = None) \<and>
     (\<forall>cb (j :: channel_id_t). slots cb g ! unat j = None \<longrightarrow> slots cb g' ! unat j = None)"
proof (induction "is" arbitrary: g w)
  case (Cons i "is")
  then have i: "unat i < max_channels g" by simp
  obtain g1 w1 where s1: "remove_channel RemoveResponse B i g w = Ret (g1, w1)" "mg_inv g1"
    "mg_config g1 = mg_config g" "slots RemoveResponse g1 ! unat i = None"
    "\<And>cb (j :: channel_id_t). slots cb g ! unat j = None \<Longrightarrow> slots cb g1 ! unat j = None"
    using remove_returns [OF Cons.prems(1) i, of RemoveResponse B w] by metis
  obtain g2 w2 where s2: "remove_channel RemoveRequest B i g1 w1 = Ret (g2, w2)" "mg_inv g2"
    "mg_config g2 = mg_config g1" "slots RemoveRequest g2 ! unat i = None"
    "\<And>cb (j :: channel_id_t). slots cb g1 ! unat j = None \<Longrightarrow> slots cb g2 ! unat j = None"
    using remove_returns [of g1 i RemoveRequest B w1] s1(2,3) i by metis
  from Cons.IH [of g2 w2] Cons.prems s2(2,3) s1(3) obtain g' w' where
    rest: "remove_all B is g2 w2 = Ret (g', w')" "mg_inv g'" "mg_config g' = mg_config g2"
      "\<forall>cb. \<forall>i \<in> set is. slots cb g' ! unat i = None"
      "\<forall>cb (j :: channel_id_t). slots cb g2 ! unat j = None \<longrightarrow> slots cb g' ! unat j = None"
    by auto
  have "slots cb g2 ! unat i = None" for cb
    using s2(4) s2(5) [OF s1(4)] by (cases cb) simp_all
  with rest s1 s2 show ?case
    by (intro exI [of _ g'] exI [of _ w']) auto
qed simp

lemma destroy_returns:
  assumes inv: "mg_inv g"
  shows "\<exists>g' w'. InternalChannelManager_destroy B g w = Ret (g', w') \<and>
    (\<forall>c \<in> set (mg_channels g'). ch_isClosed c) \<and> requests_in_use (g', w') = {} \<and>
    set (mg_freeList g') = channel_ids (mg_config g) \<and> mg_semaphore g' = max_channels g"
proof -
  let ?is = "map of_nat [0..<max_channels g] :: channel_id_t list"
  have ids: "set ?is = channel_ids (mg_config g)" by (simp add: channel_ids_image)
  then have "\<forall>i \<in> set ?is. unat i < max_channels g" by (auto simp: channel_ids_def)
  from remove_all_returns [OF inv this, of B w] obtain g' w' where
    rm: "remove_all B ?is g w = Ret (g', w')" "mg_inv g'" "mg_config g' = mg_config g"
    and none: "\<And>cb i. i \<in> set ?is \<Longrightarrow> slots cb g' ! unat i = None" by blast
  have sl: "slots cb g' ! unat i = None" if "unat i < max_channels g" for cb and i :: channel_id_t
    using none [of i cb] that ids by (simp add: channel_ids_def)
  have "ch_isClosed c" if c: "c \<in> set (mg_channels g')" for c
  proof (rule ccontr)
    assume op: "\<not> ch_isClosed c"
    from c obtain r where r: "r < length (mg_channels g')" "c = mg_channels g' ! r"
      by (auto simp: in_set_conv_nth)
    from mg_inv_open_channel [OF rm(2) r(1)] mg_inv_channel [OF rm(2) r(1)] op r(2) rm(3) sl
    show False by (auto simp: channel_ok_def)
  qed
  moreover have "requests_in_use (g', w') = {}"
    using sl [of _ RemoveRequest] rm(3) by (auto simp: requests_in_use_def)
  moreover have free: "set (mg_freeList g') = channel_ids (mg_config g)"
    using sl [of _ RemoveRequest] rm(3) by (auto simp: mg_inv_free [OF rm(2)] channel_ids_def)
  moreover have "mg_semaphore g' = max_channels g"
    using distinct_card [of "mg_freeList g'"] free rm(2) by (simp add: mg_inv_def)
  ultimately show ?thesis
    using rm(1) by (auto simp: InternalChannelManager_destroy_def)
qed

text \<open>
  C37. Destroying a manager always returns, and then no channel is open: every channel that was
  ever made is closed, all slots are empty and all ids are free, so the destructor of a channel
  has nothing left to close.
\<close>

theorem destroy_closes_all:
  assumes inv: "mg_inv g"
  shows "\<exists>g' w'. InternalChannelManager_destroy B g w = Ret (g', w') \<and>
    (\<forall>c \<in> set (mg_channels g'). ch_isClosed c) \<and> requests_in_use (g', w') = {} \<and>
    set (mg_freeList g') = channel_ids (mg_config g) \<and> mg_semaphore g' = max_channels g"
  using destroy_returns [OF inv] .

theorem destroy_closes_all_witness:
  "\<exists>g' w'. InternalChannelManager_destroy list_buffer (sample_opened RemoveRequest) sample_world = Ret (g', w') \<and>
    (\<forall>c \<in> set (mg_channels g'). ch_isClosed c) \<and> mg_semaphore g' = 2"
  using destroy_closes_all [OF sample_opened_inv, of list_buffer RemoveRequest sample_world] by auto

end
