(* ===== verification/Clients.thy ===== *)
theory Clients
  imports Requests
begin

text \<open>
  \<^verbatim>\<open>servercc/clients\<close>: the fields every client has (\<^verbatim>\<open>client.h\<close>), the TCP client
  (\<^verbatim>\<open>tcp_client.cc\<close>) and the multicast client (\<^verbatim>\<open>multicast_client.cc\<close>), which sends the header
  and the body of a message as two datagrams.
\<close>

section \<open>Client\<close>

record client =
  cl_serverAddress :: string
  cl_port :: u16
  cl_clientFd :: fd
  cl_isSocketOpen :: bool
  cl_clientAddr :: sockaddr

definition Client_new :: "string \<Rightarrow> u16 \<Rightarrow> client" where
  "Client_new serverAddress port =
     \<lparr>cl_serverAddress = serverAddress, cl_port = port, cl_clientFd = - 1,
      cl_isSocketOpen = False, cl_clientAddr = null_sockaddr\<rparr>"

definition Client_new_addr :: "string \<Rightarrow> u16 \<Rightarrow> sockaddr \<Rightarrow> client" where
  "Client_new_addr serverAddress port clientAddr =
     \<lparr>cl_serverAddress = serverAddress, cl_port = port, cl_clientFd = - 1,
      cl_isSocketOpen = False, cl_clientAddr = clientAddr\<rparr>"

definition getClientInAddr :: "'c client_scheme \<Rightarrow> u32" where
  "getClientInAddr c = sin_addr (cl_clientAddr c)"

section \<open>TcpClient\<close>

definition TcpClient_new :: "string \<Rightarrow> u16 \<Rightarrow> client" where
  "TcpClient_new serverAddress port = Client_new serverAddress port"

definition TcpClient_of_socket :: "fd \<Rightarrow> string \<Rightarrow> u16 \<Rightarrow> sockaddr \<Rightarrow> client" where
  "TcpClient_of_socket socket serverAddress port clientAddr =
     (Client_new_addr serverAddress port clientAddr)\<lparr>cl_clientFd := socket, cl_isSocketOpen := True\<rparr>"

text \<open>The walk over the resolved addresses; \<open>clientFd\<close> is the member it updates.\<close>

primrec tcp_connect_loop :: "fd \<Rightarrow> addrinfo list \<Rightarrow> 'z world_scheme \<Rightarrow> fd \<times> 'z world_scheme" where
  "tcp_connect_loop clientFd [] w = (clientFd, w)"
| "tcp_connect_loop clientFd (p # ps) w =
     (case os_socket w of (f, w) \<Rightarrow>
        if f = - 1 then tcp_connect_loop f ps w
        else case os_connect f (ai_addr p) w of (r, w) \<Rightarrow>
          if r = - 1 then tcp_connect_loop (- 1) ps (os_close f w) else (f, w))"

text \<open>
  \<^verbatim>\<open>TcpClient::openSocket\<close>. The list is freed before its first entry is copied into
  \<^verbatim>\<open>clientAddr\<close>, so what is copied is whatever the freed memory holds; an entry longer than
  \<^verbatim>\<open>sockaddr\<close> would overrun the member.
\<close>

definition TcpClient_openSocket ::
    "client \<Rightarrow> 'z world_scheme \<Rightarrow> (status \<times> client \<times> 'z world_scheme) outcome" where
  "TcpClient_openSocket c w =
     (if cl_isSocketOpen c then Ret (OkStatus, c, w)
      else case w_resolve w (Some (cl_serverAddress c)) (to_string (int (unat (cl_port c)))) of
             None \<Rightarrow> Ret (InternalError ''Could not resolve server address'', c, w)
           | Some serverInfo \<Rightarrow>
               (case tcp_connect_loop (cl_clientFd c) serverInfo w of (f, w) \<Rightarrow>
                  let c = c\<lparr>cl_clientFd := f\<rparr> in
                  if f = - 1 then Ret (InternalError ''Could not connect to server'', c, w)
                  else if sizeof_sockaddr < ai_addrlen (w_freed w) then Undef
                  else Ret (OkStatus,
                            c\<lparr>cl_isSocketOpen := True, cl_clientAddr := ai_addr (w_freed w)\<rparr>, w)))"

definition TcpClient_closeSocket :: "client \<Rightarrow> 'z world_scheme \<Rightarrow> client \<times> 'z world_scheme" where
  "TcpClient_closeSocket c w =
     (if cl_clientFd c = - 1 then (c, w)
      else (c\<lparr>cl_clientFd := - 1, cl_isSocketOpen := False\<rparr>, os_close (cl_clientFd c) w))"

text \<open>The destructor.\<close>

definition TcpClient_destroy :: "client \<Rightarrow> 'z world_scheme \<Rightarrow> 'z world_scheme" where
  "TcpClient_destroy c w = snd (TcpClient_closeSocket c w)"

text \<open>
  \<^verbatim>\<open>TcpClient::sendMessage\<close> trusts the length in the header: \<^verbatim>\<open>send\<close> reads that many bytes from
  the body's buffer.
\<close>

definition TcpClient_sendMessage ::
    "client \<Rightarrow> message \<Rightarrow> 'z world_scheme \<Rightarrow> (status \<times> 'z world_scheme) outcome" where
  "TcpClient_sendMessage c m w =
     (if cl_clientFd c = - 1 then Ret (FailedPreconditionError ''Socket is not open'', w)
      else case os_send (cl_clientFd c) (encode_header (header m)) w of (sent, w) \<Rightarrow>
        if sent < int kMessageHeaderLength
        then Ret (InternalError ''Failed to send message header'', w)
        else bind_outcome (mem_read (data m) 0 (body_len m)) (\<lambda>bs.
          case os_send (cl_clientFd c) bs w of (sent, w) \<Rightarrow>
            if sent < int (body_len m)
            then Ret (InternalError ''Failed to send message body'', w)
            else Ret (OkStatus, w)))"

definition TcpClient_receiveMessage ::
    "client \<Rightarrow> 'z world_scheme \<Rightarrow> (status \<times> message option) \<times> 'z world_scheme" where
  "TcpClient_receiveMessage c w =
     (if cl_clientFd c = - 1 then ((FailedPreconditionError ''Socket is not open'', None), w)
      else readMessage (cl_clientFd c) w)"

section \<open>MulticastClient\<close>

record multicast_client = client +
  mc_interface :: string
  mc_ttl :: byte

definition MulticastClient_new :: "string \<Rightarrow> string \<Rightarrow> u16 \<Rightarrow> byte \<Rightarrow> multicast_client" where
  "MulticastClient_new interface multicast_group port ttl =
     client.extend (Client_new multicast_group port) (multicast_client.fields interface ttl)"

definition MulticastClient_openSocket ::
    "multicast_client \<Rightarrow> 'z world_scheme \<Rightarrow> status \<times> multicast_client \<times> 'z world_scheme" where
  "MulticastClient_openSocket c w =
     (if cl_isSocketOpen c then (OkStatus, c, w)
      else case os_socket w of (socketFd, w) \<Rightarrow>
        if socketFd < 0 then (InternalError ''Failed to create socket'', c, w)
        else case os_setsockopt socketFd w of (r, w) \<Rightarrow>
          if r < 0 then (InternalError ''Failed to set socket TTL option'', c, w)
          else case os_setsockopt socketFd w of (r, w) \<Rightarrow>
            if r < 0 then (InternalError ''Failed to set socket interface'', c, w)
            else (OkStatus,
                  c\<lparr>cl_clientAddr := \<lparr>sin_family = of_nat AF_INET,
                                      sin_port = swap16 (cl_port c),
                                      sin_addr = w_inet_addr w (cl_serverAddress c)\<rparr>,
                    cl_clientFd := socketFd, cl_isSocketOpen := True\<rparr>, w))"

definition MulticastClient_closeSocket ::
    "multicast_client \<Rightarrow> 'z world_scheme \<Rightarrow> multicast_client \<times> 'z world_scheme" where
  "MulticastClient_closeSocket c w =
     (if \<not> cl_isSocketOpen c then (c, w)
      else (c\<lparr>cl_clientFd := - 1, cl_isSocketOpen := False, cl_clientAddr := null_sockaddr\<rparr>,
            os_close (cl_clientFd c) w))"

definition MulticastClient_destroy :: "multicast_client \<Rightarrow> 'z world_scheme \<Rightarrow> 'z world_scheme" where
  "MulticastClient_destroy c w = snd (MulticastClient_closeSocket c w)"

definition MulticastClient_sendMessage ::
    "multicast_client \<Rightarrow> message \<Rightarrow> 'z world_scheme \<Rightarrow> (status \<times> 'z world_scheme) outcome" where
  "MulticastClient_sendMessage c m w =
     (if \<not> cl_isSocketOpen c then Ret (FailedPreconditionError ''Socket is not open'', w)
      else case os_sendto (cl_clientFd c) (encode_header (header m)) (cl_clientAddr c) w of (sent, w) \<Rightarrow>
        if sent < int kMessageHeaderLength
        then Ret (InternalError ''Failed to send message header'', w)
        else bind_outcome (mem_read (data m) 0 (body_len m)) (\<lambda>bs.
          case os_sendto (cl_clientFd c) bs (cl_clientAddr c) w of (sent, w) \<Rightarrow>
            if sent < int (body_len m)
            then Ret (InternalError ''Failed to send message body'', w)
            else Ret (OkStatus, w)))"

text \<open>
  \<^verbatim>\<open>readMessage\<close> on a datagram socket: each \<^verbatim>\<open>recv\<close> takes one datagram and waits for it.
\<close>

definition readMessage_datagram ::
    "fd \<Rightarrow> 'z world_scheme \<Rightarrow> ((status \<times> message option) \<times> 'z world_scheme) outcome" where
  "readMessage_datagram f w =
     bind_outcome (os_recvfrom f kMessageHeaderLength w) (\<lambda>(bytesRead, hb, src, w).
       if bytesRead < int kMessageHeaderLength
       then Ret ((InvalidArgumentError ''Error reading message header'', None), w)
       else let h = decode_header hb in
         if 0 < unat (len h)
         then bind_outcome (os_recvfrom f (unat (len h)) w) (\<lambda>(bytesRead, bs, src, w).
                if bytesRead < int (unat (len h))
                then Ret ((InvalidArgumentError ''Error reading message body'', None), w)
                else Ret ((OkStatus, Some \<lparr>header = h, data = bs\<rparr>), w))
         else Ret ((OkStatus, Some \<lparr>header = h, data = []\<rparr>), w))"

definition MulticastClient_receiveMessage ::
    "multicast_client \<Rightarrow> 'z world_scheme \<Rightarrow>
     ((status \<times> message option) \<times> 'z world_scheme) outcome" where
  "MulticastClient_receiveMessage c w =
     (if \<not> cl_isSocketOpen c then Ret ((FailedPreconditionError ''Socket is not open'', None), w)
      else readMessage_datagram (cl_clientFd c) w)"

section \<open>The life of a client's socket\<close>

text \<open>
  The contract of \<^verbatim>\<open>openSocket\<close> and \<^verbatim>\<open>closeSocket\<close> that both clients keep. \<open>inv\<close> is the
  consistency of the client's members with each other and with the descriptors of the process.
\<close>

locale socket_client =
  fixes open_socket :: "'c \<Rightarrow> 'w \<Rightarrow> (status \<times> 'c \<times> 'w) outcome"
    and close_socket :: "'c \<Rightarrow> 'w \<Rightarrow> 'c \<times> 'w"
    and is_open :: "'c \<Rightarrow> bool"
    and inv :: "'c \<Rightarrow> 'w \<Rightarrow> bool"
  assumes open_again: "is_open c \<Longrightarrow> open_socket c w = Ret (OkStatus, c, w)"
    and open_result:
      "open_socket c w = Ret (st, c', w') \<Longrightarrow> inv c w \<Longrightarrow>
       inv c' w' \<and> (is_open c' \<longleftrightarrow> st = OkStatus)"
    and close_closed: "inv c w \<Longrightarrow> \<not> is_open c \<Longrightarrow> close_socket c w = (c, w)"
    and close_result:
      "close_socket c w = (c', w') \<Longrightarrow> inv c w \<Longrightarrow> inv c' w' \<and> \<not> is_open c'"

datatype socket_op = OpenSocket | CloseSocket

primrec socket_ops ::
    "('c \<Rightarrow> 'w \<Rightarrow> (status \<times> 'c \<times> 'w) outcome) \<Rightarrow> ('c \<Rightarrow> 'w \<Rightarrow> 'c \<times> 'w) \<Rightarrow>
     socket_op list \<Rightarrow> 'c \<Rightarrow> 'w \<Rightarrow> ('c \<times> 'w) outcome" where
  "socket_ops opn cls [] c w = Ret (c, w)"
| "socket_ops opn cls (x # xs) c w =
     (case x of
        OpenSocket \<Rightarrow> bind_outcome (opn c w) (\<lambda>(st, c, w). socket_ops opn cls xs c w)
      | CloseSocket \<Rightarrow> (case cls c w of (c, w) \<Rightarrow> socket_ops opn cls xs c w))"

context socket_client
begin

lemma close_twice:
  assumes "inv c w" "close_socket c w = (c', w')"
  shows "close_socket c' w' = (c', w')"
  using close_result [OF assms(2,1)] close_closed by blast

lemma open_twice:
  assumes "inv c w" "open_socket c w = Ret (OkStatus, c', w')"
  shows "open_socket c' w' = Ret (OkStatus, c', w')"
  using open_result [OF assms(2,1)] open_again by blast

lemma ops_inv:
  "socket_ops open_socket close_socket xs c w = Ret (c', w') \<Longrightarrow> inv c w \<Longrightarrow> inv c' w'"
proof (induction xs arbitrary: c w)
  case (Cons x xs)
  show ?case
  proof (cases x)
    case OpenSocket
    with Cons.prems obtain st c1 w1 where "open_socket c w = Ret (st, c1, w1)"
      "socket_ops open_socket close_socket xs c1 w1 = Ret (c', w')"
      by (auto simp: outcome_simps)
    with Cons.IH Cons.prems open_result show ?thesis by blast
  next
    case CloseSocket
    obtain c1 w1 where "close_socket c w = (c1, w1)" by fastforce
    with CloseSocket Cons.IH Cons.prems close_result show ?thesis by fastforce
  qed
qed simp

end

definition client_ok :: "'c client_scheme \<Rightarrow> bool" where
  "client_ok c \<longleftrightarrow> (if cl_isSocketOpen c then 0 \<le> cl_clientFd c else cl_clientFd c = - 1)"

lemma os_connect_result: "os_connect f a w = (r, w') \<Longrightarrow> r \<noteq> - 1 \<Longrightarrow> w_connected w' f = Some a"
  by (auto simp: os_connect_def os_control_def split: prod.splits if_splits)

lemma tcp_connect_loop_fds:
  assumes "tcp_connect_loop (- 1) infos w = (f, w')" "fds_ok w"
  shows "fds_ok w' \<and>
    (if f = - 1 then w_open w' = w_open w
     else 0 \<le> f \<and> \<not> w_open w f \<and> w_open w' = (w_open w)(f := True) \<and>
          w_connected w' f \<in> Some ` ai_addr ` set infos)"
  using assms
proof (induction infos arbitrary: w)
  case (Cons p ps)
  obtain g w1 where sock: "os_socket w = (g, w1)" by fastforce
  show ?case
  proof (rule os_socket_cases [OF sock Cons.prems(2)], goal_cases failed opened)
    case failed
    with Cons.prems sock have "tcp_connect_loop (- 1) ps w1 = (f, w')" by simp
    from Cons.IH [OF this failed(4)] failed show ?case by (auto split: if_splits)
  next
    case opened
    obtain r w2 where con: "os_connect g (ai_addr p) w1 = (r, w2)" by fastforce
    note fds = os_connect_frame [OF con]
    have ok2: "fds_ok w2" using fds opened by (simp add: fds_ok_def)
    show ?case
    proof (cases "r = - 1")
      case True
      with Cons.prems sock con opened have loop: "tcp_connect_loop (- 1) ps (os_close g w2) = (f, w')"
        by auto
      have "w_open (os_close g w2) = w_open w" using fds opened by (simp add: fun_upd_idem)
      with Cons.IH [OF loop fds_ok_close [OF ok2]] show ?thesis by (auto split: if_splits)
    next
      case False
      with Cons.prems sock con opened have "f = g" "w' = w2" by auto
      with fds ok2 opened os_connect_result [OF con False] show ?thesis by auto
    qed
  qed
qed simp

lemma TcpClient_openSocket_cases:
  assumes "TcpClient_openSocket c w = Ret (st, c', w')" "\<not> cl_isSocketOpen c"
  obtains (unresolved) "st = InternalError ''Could not resolve server address''" "c' = c" "w' = w"
  | (unconnected) infos where
      "w_resolve w (Some (cl_serverAddress c)) (to_string (int (unat (cl_port c)))) = Some infos"
      "tcp_connect_loop (cl_clientFd c) infos w = (- 1, w')"
      "st = InternalError ''Could not connect to server''" "c' = c\<lparr>cl_clientFd := - 1\<rparr>"
  | (connected) infos f where
      "w_resolve w (Some (cl_serverAddress c)) (to_string (int (unat (cl_port c)))) = Some infos"
      "tcp_connect_loop (cl_clientFd c) infos w = (f, w')" "f \<noteq> - 1"
      "st = OkStatus"
      "c' = c\<lparr>cl_clientFd := f, cl_isSocketOpen := True, cl_clientAddr := ai_addr (w_freed w')\<rparr>"
  using assms
  by (auto simp: TcpClient_openSocket_def Let_def split: option.splits prod.splits if_splits)

text \<open>
  The invariant of a TCP client: \<open>B\<close> are the descriptors open before it; the client adds its
  own while it is open and nothing else.
\<close>

definition tcp_client_inv :: "(fd \<Rightarrow> bool) \<Rightarrow> client \<Rightarrow> 'z world_scheme \<Rightarrow> bool" where
  "tcp_client_inv B c w \<longleftrightarrow> client_ok c \<and> fds_ok w \<and>
     (if cl_isSocketOpen c then \<not> B (cl_clientFd c) \<and> w_open w = B(cl_clientFd c := True)
      else w_open w = B)"

lemma TcpClient_openSocket_inv:
  assumes opn: "TcpClient_openSocket c w = Ret (st, c', w')" and inv: "tcp_client_inv B c w"
  shows "tcp_client_inv B c' w' \<and> (cl_isSocketOpen c' \<longleftrightarrow> st = OkStatus)"
proof (cases "cl_isSocketOpen c")
  case True
  with assms show ?thesis by (simp add: TcpClient_openSocket_def)
next
  case False
  then have fd: "cl_clientFd c = - 1" "fds_ok w" using inv by (simp_all add: client_ok_def tcp_client_inv_def)
  show ?thesis
  proof (rule TcpClient_openSocket_cases [OF opn False], goal_cases unresolved unconnected connected)
    case unresolved
    with inv False show ?case by simp
  next
    case (unconnected infos)
    with tcp_connect_loop_fds [of infos w "- 1" w'] fd inv False show ?case
      by (simp add: client_ok_def tcp_client_inv_def)
  next
    case (connected infos f)
    with tcp_connect_loop_fds [of infos w f w'] fd inv False show ?case
      by (simp add: client_ok_def tcp_client_inv_def)
  qed
qed

lemma TcpClient_closeSocket_inv:
  "TcpClient_closeSocket c w = (c', w') \<Longrightarrow> tcp_client_inv B c w \<Longrightarrow>
   tcp_client_inv B c' w' \<and> \<not> cl_isSocketOpen c'"
  by (auto simp: TcpClient_closeSocket_def client_ok_def tcp_client_inv_def fds_ok_close
      fun_upd_idem split: if_splits)

lemma open_again [simp]:
  "cl_isSocketOpen c \<Longrightarrow> TcpClient_openSocket c w = Ret (OkStatus, c, w)"
  "cl_isSocketOpen mc \<Longrightarrow> MulticastClient_openSocket mc w = (OkStatus, mc, w)"
  by (simp_all add: TcpClient_openSocket_def MulticastClient_openSocket_def)

interpretation tcp_client: socket_client
  TcpClient_openSocket TcpClient_closeSocket cl_isSocketOpen "tcp_client_inv B"
proof unfold_locales
  fix c and w :: "'a world_scheme"
  show "tcp_client_inv B c w \<Longrightarrow> \<not> cl_isSocketOpen c \<Longrightarrow> TcpClient_closeSocket c w = (c, w)"
    by (simp add: client_ok_def tcp_client_inv_def TcpClient_closeSocket_def)
qed (simp, auto dest: TcpClient_openSocket_inv TcpClient_closeSocket_inv)

lemma MulticastClient_openSocket_ok:
  assumes opn: "MulticastClient_openSocket c w = (st, c', w')" and ok: "client_ok c" "fds_ok w"
  shows "client_ok c' \<and> fds_ok w' \<and> (cl_isSocketOpen c' \<longleftrightarrow> st = OkStatus)"
proof (cases "cl_isSocketOpen c")
  case True
  with assms show ?thesis by (simp add: MulticastClient_openSocket_def)
next
  case False
  obtain f w1 where sock: "os_socket w = (f, w1)" by fastforce
  have "fds_ok v" if "os_setsockopt g u = (r, v)" "fds_ok u" for g r u and v :: "'a world_scheme"
    using that os_setsockopt_frame [OF that(1)] by (simp add: fds_ok_def)
  moreover have "fds_ok w1" "f = - 1 \<or> 0 \<le> f"
    by (rule os_socket_cases [OF sock ok(2)]; simp)+
  ultimately show ?thesis
    using assms False sock
    by (auto simp: MulticastClient_openSocket_def client_ok_def split: prod.splits if_splits)
qed

interpretation multicast_client: socket_client
  "\<lambda>c w. Ret (MulticastClient_openSocket c w)" MulticastClient_closeSocket cl_isSocketOpen
  "\<lambda>c w. client_ok c \<and> fds_ok w"
proof unfold_locales
  fix c c' and w w' :: "'a world_scheme"
  show "MulticastClient_closeSocket c w = (c', w') \<Longrightarrow> client_ok c \<and> fds_ok w \<Longrightarrow>
      (client_ok c' \<and> fds_ok w') \<and> \<not> cl_isSocketOpen c'"
    by (auto simp: MulticastClient_closeSocket_def client_ok_def fds_ok_close split: if_splits)
qed (simp, auto simp: MulticastClient_closeSocket_def dest: MulticastClient_openSocket_ok)

section \<open>Sending on a TCP client\<close>

text \<open>On a well-formed message the client sends what \<^verbatim>\<open>writeMessage\<close> sends.\<close>

lemma TcpClient_sendMessage_writeMessage:
  assumes "wf_message m" "0 \<le> cl_clientFd c"
  shows "\<exists>st w'. TcpClient_sendMessage c m w = Ret (st, w') \<and>
    (st = OkStatus \<longleftrightarrow> fst (writeMessage (cl_clientFd c) m w) = OkStatus) \<and>
    w' = snd (writeMessage (cl_clientFd c) m w)"
  using assms
  by (simp add: TcpClient_sendMessage_def writeMessage_def sync_length_wf Let_def mem_read_def
      wf_message_def split: prod.splits)

lemma TcpClient_sendMessage_closed:
  "cl_clientFd c = - 1 \<Longrightarrow>
   TcpClient_sendMessage c m w = Ret (FailedPreconditionError ''Socket is not open'', w)"
  by (simp add: TcpClient_sendMessage_def)

interpretation tcp_sender: stream_writer
  "\<lambda>f m w st w'. \<exists>c. client_ok c \<and> wf_message m \<and> cl_clientFd c = f \<and>
     TcpClient_sendMessage c m w = Ret (st, w')" "\<lambda>m. m" wf_message
proof -
  have small: "length (data m) < 4294967296" if "wf_message m" for m
    using that by (simp add: wf_message_def)
  have sent: "w' = snd (writeMessage f m w) \<and> (st = OkStatus \<longrightarrow> fst (writeMessage f m w) = OkStatus)
      \<or> w' = w \<and> st \<noteq> OkStatus"
    if "client_ok c" "wf_message m" "cl_clientFd c = f" "TcpClient_sendMessage c m w = Ret (st, w')"
    for c f m st and w w' :: "'a world_scheme"
  proof (cases "f = - 1")
    case True
    with that show ?thesis by (auto simp: TcpClient_sendMessage_closed)
  next
    case False
    then have "0 \<le> cl_clientFd c" using that by (auto simp: client_ok_def split: if_splits)
    with that TcpClient_sendMessage_writeMessage [of m c w] show ?thesis by auto
  qed
  show "stream_writer (\<lambda>f m (w :: 'a world_scheme) st w'. \<exists>c. client_ok c \<and> wf_message m \<and>
      cl_clientFd c = f \<and> TcpClient_sendMessage c m w = Ret (st, w')) (\<lambda>m. m) wf_message"
  proof unfold_locales
    fix f m and w w' :: "'a world_scheme"
    assume "\<exists>c. client_ok c \<and> wf_message m \<and> cl_clientFd c = f \<and>
        TcpClient_sendMessage c m w = Ret (OkStatus, w')"
    then show "w_out w' f = w_out w f @ frame m"
      using writeMessage_frames(2) [of f m w "fst (writeMessage f m w)" "snd (writeMessage f m w)"]
      by (auto dest!: sent simp: small sync_length_wf prod_eq_iff)
  next
    fix f m st and w w' :: "'a world_scheme"
    assume "\<exists>c. client_ok c \<and> wf_message m \<and> cl_clientFd c = f \<and>
        TcpClient_sendMessage c m w = Ret (st, w')" and wf: "wf_message m"
    then show "\<exists>k. w_out w' f = w_out w f @ take k (frame m)"
      using writeMessage_frames(1) [of f m w "fst (writeMessage f m w)" "snd (writeMessage f m w)"]
      by (auto dest!: sent simp: small sync_length_wf intro: exI [of _ 0])
  qed (auto dest!: sent simp: writeMessage_frame [OF prod.collapse [symmetric]])
qed

section \<open>Properties\<close>

definition sample_client :: client where
  "sample_client = TcpClient_of_socket 4 ''10.0.0.1'' 7000 null_sockaddr"

lemma client_ok_sample: "client_ok sample_client"
  by (simp add: client_ok_def sample_client_def TcpClient_of_socket_def)

text \<open>
  Messages sent with \<^verbatim>\<open>TcpClient::sendMessage\<close>, their length field right, are read back in
  order and unchanged by \<^verbatim>\<open>readMessage\<close> at the server's end of the connection.
\<close>

theorem tcp_client_stream:
  assumes "client_ok c" "\<forall>m \<in> set ms. wf_message m"
    and "send_all (\<lambda>f m w st w'. TcpClient_sendMessage c m w = Ret (st, w')) (cl_clientFd c) ms w w'"
    and "w_script r = []" "w_open r g"
    and "w_out w (cl_clientFd c) = []" "w_in r g = w_out w' (cl_clientFd c) @ rest"
  shows "read_all (length ms) g r = (ms, r\<lparr>w_in := (w_in r)(g := rest)\<rparr>)"
proof -
  have "send_all (\<lambda>f m w st w'. \<exists>c. client_ok c \<and> wf_message m \<and> cl_clientFd c = f \<and>
      TcpClient_sendMessage c m w = Ret (st, w')) (cl_clientFd c) ms w w'"
    using assms(1,2,3) by (induction ms arbitrary: w) auto
  from tcp_sender.send_all_read_all [OF this assms(2,4-7)] show ?thesis by simp
qed

lemma sample_client_sends:
  "TcpClient_sendMessage sample_client sample_message sample_world =
     Ret (OkStatus, sample_world\<lparr>w_out := (\<lambda>_. [])(4 := frame sample_message)\<rparr>)"
  by (simp add: TcpClient_sendMessage_def sample_client_def TcpClient_of_socket_def
      os_send_no_fault kMessageHeaderLength_def mem_read_def frame_def)

theorem tcp_client_stream_witness:
  "\<exists>w'. TcpClient_sendMessage sample_client sample_message sample_world = Ret (OkStatus, w') \<and>
        fst (read_all (length [sample_message]) 4 (sample_world\<lparr>w_in := w_out w'\<rparr>)) = [sample_message]"
proof -
  let ?w' = "sample_world\<lparr>w_out := (\<lambda>_. [])(4 := frame sample_message)\<rparr>"
  have "read_all (length [sample_message]) 4 (sample_world\<lparr>w_in := w_out ?w'\<rparr>) =
      ([sample_message], sample_world\<lparr>w_in := w_out ?w'\<rparr>\<lparr>w_in := (w_out ?w')(4 := [])\<rparr>)"
    using tcp_client_stream [OF client_ok_sample, of "[sample_message]" sample_world ?w'
        "sample_world\<lparr>w_in := w_out ?w'\<rparr>" 4 "[]"] sample_client_sends
    by (simp add: sample_client_def TcpClient_of_socket_def del: read_all.simps)
  with sample_client_sends show ?thesis by (simp del: read_all.simps)
qed

text \<open>
  A header that announces more than the body holds makes \<^verbatim>\<open>TcpClient::sendMessage\<close> read past
  the end of the body; \<^verbatim>\<open>writeMessage\<close>, which sets the length itself, has no such case.
\<close>

theorem TcpClient_send_overread:
  assumes "w_script w = []" "w_open w (cl_clientFd c)" "0 \<le> cl_clientFd c"
  shows "TcpClient_sendMessage c m w = Undef \<longleftrightarrow> length (data m) < body_len m"
  using assms
  by (auto simp: TcpClient_sendMessage_def os_send_no_fault kMessageHeaderLength_def mem_read_def
      split: prod.splits)

theorem TcpClient_send_overread_witness:
  "TcpClient_sendMessage sample_client (sample_message\<lparr>data := [1]\<rparr>) sample_world = Undef"
  by (subst TcpClient_send_overread)
    (simp_all add: sample_client_def TcpClient_of_socket_def sample_world_def sample_message_def)

text \<open>
  Any sequence of opening and closing a TCP client keeps its books: the descriptors of the
  process are the ones from before, and the client's own exactly while it is open. No failed
  attempt at an address leaves a socket behind.
\<close>

theorem TcpClient_lifecycle:
  assumes "socket_ops TcpClient_openSocket TcpClient_closeSocket xs (TcpClient_new a p) w = Ret (c, w')"
    and "fds_ok w"
  shows "w_open w' = (if cl_isSocketOpen c then (w_open w)(cl_clientFd c := True) else w_open w) \<and>
    (cl_isSocketOpen c \<longleftrightarrow> cl_clientFd c \<noteq> - 1)"
proof -
  have "tcp_client_inv (w_open w) (TcpClient_new a p) w"
    using assms(2) by (simp add: tcp_client_inv_def client_ok_def TcpClient_new_def Client_new_def)
  from tcp_client.ops_inv [OF assms(1) this] show ?thesis
    by (auto simp: tcp_client_inv_def client_ok_def split: if_splits)
qed

definition connecting_world :: world where
  "connecting_world = sample_world
     \<lparr>w_resolve := (\<lambda>host service. Some [\<lparr>ai_family = AF_INET, ai_addr = null_sockaddr\<rparr>,
        \<lparr>ai_family = AF_INET, ai_addr = null_sockaddr\<lparr>sin_addr := 9\<rparr>\<rparr>])\<rparr>"

lemma fds_ok_connecting: "fds_ok (connecting_world\<lparr>w_script := sc\<rparr>)"
  by (simp add: fds_ok_def connecting_world_def sample_world_def)

text \<open>The first address refuses, the second accepts.\<close>

lemma connecting_second:
  "\<exists>w'. TcpClient_openSocket (TcpClient_new ''peer'' 7000) (connecting_world\<lparr>w_script := [0, - 1, 0, 0]\<rparr>) =
     Ret (OkStatus, \<lparr>cl_serverAddress = ''peer'', cl_port = 7000, cl_clientFd = 6,
                     cl_isSocketOpen = True, cl_clientAddr = null_sockaddr\<rparr>, w') \<and>
     w_connected w' 6 = Some (null_sockaddr\<lparr>sin_addr := 9\<rparr>) \<and> w_closes w' = [5] \<and>
     w_freed w' = \<lparr>ai_family = AF_INET, ai_addr = null_sockaddr\<rparr>"
  by (simp add: TcpClient_openSocket_def TcpClient_new_def Client_new_def connecting_world_def
      os_socket_def os_answer_def os_new_fd_def os_connect_def os_control_def
      ai_addrlen_def AF_INET6_def AF_INET_def sizeof_sockaddr_def)

theorem TcpClient_lifecycle_witness:
  "\<exists>c w'. socket_ops TcpClient_openSocket TcpClient_closeSocket [OpenSocket, CloseSocket]
      (TcpClient_new ''peer'' 7000) (connecting_world\<lparr>w_script := [0, - 1, 0, 0]\<rparr>) = Ret (c, w') \<and>
    w_open w' = w_open connecting_world"
proof -
  let ?w = "connecting_world\<lparr>w_script := [0, - 1, 0, 0]\<rparr>"
  obtain c w' where run: "socket_ops TcpClient_openSocket TcpClient_closeSocket
      [OpenSocket, CloseSocket] (TcpClient_new ''peer'' 7000) ?w = Ret (c, w')"
    and closed: "\<not> cl_isSocketOpen c"
    using connecting_second by (auto simp: TcpClient_closeSocket_def)
  from TcpClient_lifecycle [OF run fds_ok_connecting] run closed show ?thesis by auto
qed

text \<open>
  The address a TCP client reports after connecting is the first one of the resolved list
  (when the freed list still holds its contents), whichever address the connection was made
  to. The connector identifies peers by this address.
\<close>

theorem TcpClient_reports_first_address:
  assumes "TcpClient_openSocket c w = Ret (OkStatus, c', w')" "\<not> cl_isSocketOpen c"
    and "client_ok c" "fds_ok w"
    and "w_resolve w (Some (cl_serverAddress c)) (to_string (int (unat (cl_port c)))) = Some (p # ps)"
    and "w_freed w' = p"
  shows "cl_clientAddr c' = ai_addr p \<and>
    w_connected w' (cl_clientFd c') \<in> Some ` ai_addr ` set (p # ps)"
proof -
  have fd: "cl_clientFd c = - 1" using assms(2,3) by (simp add: client_ok_def)
  show ?thesis
  proof (rule TcpClient_openSocket_cases [OF assms(1,2)], goal_cases unresolved unconnected connected)
    case (connected infos f)
    with tcp_connect_loop_fds [of infos w f w'] fd assms show ?case by auto
  qed simp_all
qed

theorem TcpClient_reports_first_address_witness:
  "\<exists>c w'. TcpClient_openSocket (TcpClient_new ''peer'' 7000)
      (connecting_world\<lparr>w_script := [0, - 1, 0, 0]\<rparr>) = Ret (OkStatus, c, w') \<and>
    cl_clientAddr c = null_sockaddr \<and> w_connected w' (cl_clientFd c) = Some (null_sockaddr\<lparr>sin_addr := 9\<rparr>)"
proof -
  let ?w = "connecting_world\<lparr>w_script := [0, - 1, 0, 0]\<rparr>" and ?c = "TcpClient_new ''peer'' 7000"
  let ?c' = "\<lparr>cl_serverAddress = ''peer'', cl_port = 7000, cl_clientFd = 6,
              cl_isSocketOpen = True, cl_clientAddr = null_sockaddr\<rparr>"
  obtain w' where run: "TcpClient_openSocket ?c ?w = Ret (OkStatus, ?c', w')"
    and con: "w_connected w' 6 = Some (null_sockaddr\<lparr>sin_addr := 9\<rparr>)"
    and freed: "w_freed w' = \<lparr>ai_family = AF_INET, ai_addr = null_sockaddr\<rparr>"
    using connecting_second by blast
  from freed have "cl_clientAddr ?c' = ai_addr \<lparr>ai_family = AF_INET, ai_addr = null_sockaddr\<rparr>"
    using TcpClient_reports_first_address [OF run _ _ fds_ok_connecting]
    by (simp add: TcpClient_new_def Client_new_def client_ok_def connecting_world_def)
  with run con show ?thesis by auto
qed

text \<open>
  When a socket option cannot be set, \<^verbatim>\<open>MulticastClient::openSocket\<close> reports an error, the
  client stays closed, and the socket it created stays open without an owner.
\<close>

theorem MulticastClient_open_leaks:
  assumes "MulticastClient_openSocket c w = (st, c', w')" "\<not> cl_isSocketOpen c" "fds_ok w"
    and "st \<noteq> OkStatus" "st \<noteq> InternalError ''Failed to create socket''"
  shows "c' = c \<and> \<not> w_open w (w_next w) \<and> w_open w' = (w_open w)(w_next w := True)"
proof -
  obtain f w1 where sock: "os_socket w = (f, w1)" by fastforce
  show ?thesis
  proof (rule os_socket_cases [OF sock assms(3)], goal_cases failed opened)
    case failed
    with assms sock show ?case by (simp add: MulticastClient_openSocket_def)
  next
    case opened
    with assms sock show ?case
      by (auto simp: MulticastClient_openSocket_def os_setsockopt_frame split: prod.splits if_splits)
  qed
qed

theorem MulticastClient_open_leaks_witness:
  "let (st, c, w') = MulticastClient_openSocket (MulticastClient_new ''lo'' ''224.0.0.1'' 6000 1)
         (sample_world\<lparr>w_script := [0, - 1]\<rparr>)
   in st = InternalError ''Failed to set socket TTL option'' \<and> \<not> cl_isSocketOpen c \<and> w_open w' 5"
proof -
  let ?c = "MulticastClient_new ''lo'' ''224.0.0.1'' 6000 1"
  let ?w = "sample_world\<lparr>w_script := [0, - 1]\<rparr>"
  obtain st c w' where run: "MulticastClient_openSocket ?c ?w = (st, c, w')" by (metis prod_cases3)
  have st: "st = InternalError ''Failed to set socket TTL option''" and closed: "\<not> cl_isSocketOpen ?c"
    using run
    by (auto simp: MulticastClient_openSocket_def MulticastClient_new_def Client_new_def
        client.defs multicast_client.defs os_socket_def os_answer_def os_new_fd_def
        os_setsockopt_def os_control_def sample_world_def)
  have "fds_ok ?w" "w_next ?w = 5" by (simp_all add: fds_ok_def sample_world_def)
  with MulticastClient_open_leaks [OF run closed] st closed run show ?thesis by simp
qed

end
