(* ===== verification/Connector.thy ===== *)
theory Connector
  imports ChannelProps Clients Registry
begin

text \<open>
  \<^verbatim>\<open>servercc/connectors/src/connector.cc\<close>: the connector keeps one TCP client and one channel
  manager for each peer, runs a read loop for each of them in its own thread, and starts a
  handler thread for each channel the manager announces.

  A client and its manager are shared between the map of the connector and the thread of the
  client, so the model keeps these pairs in a list and the map holds positions in it. Starting
  a handler thread and calling the disconnect callback are events in the result of a turn: what
  the handler or the callback does is up to the user of the connector.
\<close>

section \<open>The connector\<close>

record 'b internal_client =
  ic_client :: client
  ic_channelManager :: "'b manager"

record ('b, 'h) connector =
  cn_handlers :: "protocol_t \<rightharpoonup> 'h"
  cn_defaultHandler :: 'h
  cn_clients :: "u32 \<rightharpoonup> nat"
  cn_objects :: "'b internal_client list"

datatype 'h connector_event =
    StartHandler 'h nat internal_request
  | DisconnectCallback u32

definition Connector_new :: "'h \<Rightarrow> ('b, 'h) connector" where
  "Connector_new defaultHandler =
     \<lparr>cn_handlers = Map.empty, cn_defaultHandler = defaultHandler, cn_clients = Map.empty,
      cn_objects = []\<rparr>"

definition Connector_addHandler ::
    "protocol_t \<Rightarrow> 'h \<Rightarrow> ('b, 'h) connector \<Rightarrow> status \<times> ('b, 'h) connector" where
  "Connector_addHandler p h cn =
     (if cn_handlers cn p \<noteq> None
      then (AlreadyExistsError ''Handler already exists for protocol'', cn)
      else (OkStatus, cn\<lparr>cn_handlers := (cn_handlers cn)(p \<mapsto> h)\<rparr>))"

text \<open>The choice of the handler in the read loop (\<^verbatim>\<open>handlers.find\<close>).\<close>

definition Connector_target :: "protocol_t \<Rightarrow> ('b, 'h) connector \<Rightarrow> 'h" where
  "Connector_target p cn =
     (case cn_handlers cn p of None \<Rightarrow> cn_defaultHandler cn | Some h \<Rightarrow> h)"

interpretation connector_registry: handler_registry Connector_addHandler
  "\<lambda>p cn. cn_handlers cn p \<noteq> None" Connector_target
  by unfold_locales (auto simp: Connector_addHandler_def Connector_target_def split: option.split)

text \<open>
  \<^verbatim>\<open>addClient\<close> takes the client by \<^verbatim>\<open>unique_ptr\<close>, so a client that is not added is destroyed
  when the function returns.
\<close>

definition Connector_addClient ::
    "client \<Rightarrow> ('b, 'h) connector \<Rightarrow> 'z world_scheme \<Rightarrow>
     (status \<times> ('b, 'h) connector \<times> 'z world_scheme) outcome" where
  "Connector_addClient client cn w =
     bind_outcome (TcpClient_openSocket client w) (\<lambda>(st, client, w).
       ASSERT_OK st ''Failed to open socket for client''
         (\<lambda>st. Ret (st, cn, TcpClient_destroy client w))
         (let address = getClientInAddr client;
              channelManager = InternalChannelManager_new connector_config (cl_clientFd client)
          in if cn_clients cn address \<noteq> None
             then Ret (AlreadyExistsError ''Client already exists'', cn, TcpClient_destroy client w)
             else Ret (OkStatus,
                    cn\<lparr>cn_clients := (cn_clients cn)(address \<mapsto> length (cn_objects cn)),
                       cn_objects := cn_objects cn @
                         [\<lparr>ic_client = client, ic_channelManager = channelManager\<rparr>]\<rparr>, w)))"

text \<open>Storing the state of a manager back.\<close>

definition put_manager :: "nat \<Rightarrow> 'b manager \<Rightarrow> ('b, 'h) connector \<Rightarrow> ('b, 'h) connector" where
  "put_manager k g cn =
     cn\<lparr>cn_objects := (cn_objects cn)[k := (cn_objects cn ! k)\<lparr>ic_channelManager := g\<rparr>]\<rparr>"

definition Connector_sendRequest ::
    "'b message_buffer \<Rightarrow> u32 \<Rightarrow> ('b, 'h) connector \<Rightarrow>
     ((status \<times> (nat \<times> internal_request) option) \<times> ('b, 'h) connector) outcome" where
  "Connector_sendRequest B address cn =
     (case cn_clients cn address of
        None \<Rightarrow> Ret ((NotFoundError ''Client does not exist'', None), cn)
      | Some k \<Rightarrow>
          bind_outcome (createRequestChannel B (ic_channelManager (cn_objects cn ! k)))
            (\<lambda>((st, channel), g).
              let cn = put_manager k g cn in
              if \<not> status_ok st then Ret ((st, None), cn)
              else case channel of
                     None \<Rightarrow> Undef
                   | Some r \<Rightarrow> Ret ((OkStatus, Some (k, InternalRequest_of_channel r)), cn)))"

text \<open>
  One turn of the read loop of the client at position \<open>k\<close>; the flag says whether the loop goes
  on. When it ends, the thread drops the last pointers to the client and its manager, and their
  destructors run; the client's finds its socket closed already.
\<close>

definition Connector_runClient_turn ::
    "'b message_buffer \<Rightarrow> u32 \<Rightarrow> nat \<Rightarrow> ('b, 'h) connector \<Rightarrow> 'z world_scheme \<Rightarrow>
     (bool \<times> 'h connector_event list \<times> ('b, 'h) connector \<times> 'z world_scheme) outcome" where
  "Connector_runClient_turn B address k cn w =
     (let ic = cn_objects cn ! k in
      case TcpClient_receiveMessage (ic_client ic) w of ((rcvStatus, message), w) \<Rightarrow>
        if \<not> status_ok rcvStatus then
          (case TcpClient_closeSocket (ic_client ic) w of (client, w) \<Rightarrow>
             bind_outcome (InternalChannelManager_destroy B (ic_channelManager ic) w) (\<lambda>(g, w).
               Ret (False, [DisconnectCallback address],
                    cn\<lparr>cn_clients := (cn_clients cn)(address := None),
                       cn_objects := (cn_objects cn)
                         [k := \<lparr>ic_client = client, ic_channelManager = g\<rparr>]\<rparr>,
                    TcpClient_destroy client w)))
        else case message of
          None \<Rightarrow> Undef
        | Some m \<Rightarrow>
            bind_outcome (forwardMessage B m (ic_channelManager ic) w)
              (\<lambda>((fwdStatus, fwdProtocol, fwdChannel), g, w).
                let cn = put_manager k g cn;
                    events = (case fwdChannel of
                       None \<Rightarrow> []
                     | Some r \<Rightarrow>
                         [StartHandler (Connector_target fwdProtocol cn) k
                            (InternalRequest_new fwdProtocol (cl_clientAddr (ic_client ic)) r)])
                in Ret (True, events, cn, w)))"

text \<open>\<open>n\<close> turns of the loop, or fewer when it ends before.\<close>

primrec Connector_runClient ::
    "'b message_buffer \<Rightarrow> u32 \<Rightarrow> nat \<Rightarrow> nat \<Rightarrow> ('b, 'h) connector \<Rightarrow> 'z world_scheme \<Rightarrow>
     (bool \<times> 'h connector_event list \<times> ('b, 'h) connector \<times> 'z world_scheme) outcome" where
  "Connector_runClient B address k 0 cn w = Ret (True, [], cn, w)"
| "Connector_runClient B address k (Suc n) cn w =
     bind_outcome (Connector_runClient_turn B address k cn w) (\<lambda>(continue, es, cn, w).
       if \<not> continue then Ret (False, es, cn, w)
       else bind_outcome (Connector_runClient B address k n cn w) (\<lambda>(continue, fs, cn, w).
              Ret (continue, es @ fs, cn, w)))"

abbreviation client_of :: "nat \<Rightarrow> ('b, 'h) connector \<Rightarrow> client" where
  "client_of k cn \<equiv> ic_client (cn_objects cn ! k)"

abbreviation manager_of :: "nat \<Rightarrow> ('b, 'h) connector \<Rightarrow> 'b manager" where
  "manager_of k cn \<equiv> ic_channelManager (cn_objects cn ! k)"

section \<open>One turn, by cases\<close>

lemma put_manager_simps [simp]:
  "cn_handlers (put_manager k g cn) = cn_handlers cn"
  "cn_defaultHandler (put_manager k g cn) = cn_defaultHandler cn"
  "cn_clients (put_manager k g cn) = cn_clients cn"
  "length (cn_objects (put_manager k g cn)) = length (cn_objects cn)"
  "Connector_target p (put_manager k g cn) = Connector_target p cn"
  by (simp_all add: put_manager_def Connector_target_def split: option.split)

lemma put_manager_objects [simp]:
  "k < length (cn_objects cn) \<Longrightarrow> ic_channelManager (cn_objects (put_manager k g cn) ! k) = g"
  "ic_client (cn_objects (put_manager k g cn) ! k) = client_of k cn"
  "l \<noteq> k \<Longrightarrow> cn_objects (put_manager k g cn) ! l = cn_objects cn ! l"
  by (cases "k < length (cn_objects cn)"; simp add: put_manager_def list_update_beyond)+

lemma put_manager_twice [simp]:
  "put_manager k g' (put_manager k g cn) = put_manager k g' cn"
  by (cases "k < length (cn_objects cn)") (simp_all add: put_manager_def list_update_beyond)

text \<open>A turn that receives a message forwards it and announces the channel, if any.\<close>

lemma turn_forwards:
  assumes "TcpClient_receiveMessage (client_of k cn) w = ((OkStatus, Some m), w1)"
    and "forwardMessage B m (manager_of k cn) w1 = Ret ((st, p, ch), g, w2)"
  shows "Connector_runClient_turn B address k cn w = Ret (True,
    (case ch of None \<Rightarrow> [] | Some r \<Rightarrow> [StartHandler (Connector_target p cn) k
       (InternalRequest_new p (cl_clientAddr (client_of k cn)) r)]), put_manager k g cn, w2)"
  using assms by (simp add: Connector_runClient_turn_def Let_def split: option.split)

text \<open>The end of the connection of a peer, and the state that its turn needs.\<close>

definition peer_ready :: "nat \<Rightarrow> ('b, 'h) connector \<Rightarrow> 'z world_scheme \<Rightarrow> bool" where
  "peer_ready k cn w \<longleftrightarrow>
     k < length (cn_objects cn) \<and> mg_inv (manager_of k cn) \<and>
     mg_config (manager_of k cn) = connector_config \<and>
     mg_writeFd (manager_of k cn) = cl_clientFd (client_of k cn) \<and>
     0 \<le> cl_clientFd (client_of k cn) \<and> w_open w (cl_clientFd (client_of k cn)) \<and> w_script w = []"

lemma receive_frame:
  assumes "peer_ready k cn w" "wf_message m" "w_in w (cl_clientFd (client_of k cn)) = frame m @ rest"
  shows "TcpClient_receiveMessage (client_of k cn) w =
    ((OkStatus, Some m), w\<lparr>w_in := (w_in w)(cl_clientFd (client_of k cn) := rest)\<rparr>)"
  using assms readMessage_complete [of w "cl_clientFd (client_of k cn)" m rest]
  by (simp add: TcpClient_receiveMessage_def peer_ready_def)

lemma connector_config_simps [simp]:
  "MaxChannels connector_config = 1024" "RequestProtocol connector_config = 16"
  "RequestEndProtocol connector_config = 17" "ResponseProtocol connector_config = 19"
  "ResponseEndProtocol connector_config = 20"
  by (simp_all add: connector_config_def kInternalRequestProtocol_def
      kInternalRequestEndProtocol_def kInternalResponseProtocol_def kInternalResponseEndProtocol_def)

section \<open>Multiplexing\<close>

text \<open>Writing messages on several open channels of one connection, in any order.\<close>

primrec write_all ::
    "(channel_ptr \<times> message) list \<Rightarrow> 'b manager \<Rightarrow> 'z world_scheme \<Rightarrow>
     (status list \<times> 'z world_scheme) outcome" where
  "write_all [] g w = Ret ([], w)"
| "write_all (x # xs) g w =
     bind_outcome (InternalRequest_sendMessage (InternalRequest_of_channel (fst x)) (snd x) g w)
       (\<lambda>(st, w). bind_outcome (write_all xs g w) (\<lambda>(sts, w). Ret (st # sts, w)))"

definition sendable_on :: "close_callback \<Rightarrow> 'b manager \<Rightarrow> channel_ptr \<times> message \<Rightarrow> bool" where
  "sendable_on cb g x \<longleftrightarrow>
     fst x < length (mg_channels g) \<and> \<not> ch_isClosed (mg_channels g ! fst x) \<and>
     ch_closeCallback (mg_channels g ! fst x) = cb \<and>
     wf_message (snd x) \<and> body_len (snd x) + 12 < 4294967296"

definition wire :: "protocol_t \<Rightarrow> (channel_id_t \<times> message) list \<Rightarrow> byte list" where
  "wire p xs = concat (map (\<lambda>(i, m). frame (wrapped le32 4 p i m)) xs)"

definition addressed :: "'b manager \<Rightarrow> (channel_ptr \<times> message) list \<Rightarrow> (channel_id_t \<times> message) list" where
  "addressed g xs = map (\<lambda>(r, m). (ch_id (mg_channels g ! r), m)) xs"

lemma InternalRequest_ir_channel [simp]:
  "ir_channel (InternalRequest_of_channel r) = r" "ir_channel (InternalRequest_new p a r) = r"
  by (simp_all add: InternalRequest_of_channel_def InternalRequest_new_def)

lemma send_one:
  assumes inv: "mg_inv g" and x: "sendable_on cb g (ir_channel q, m)"
    and kernel: "w_script w = []" "w_open w (mg_writeFd g)" "0 \<le> mg_writeFd g"
  shows "InternalRequest_sendMessage q m g w = Ret (OkStatus,
    w\<lparr>w_out := (w_out w)(mg_writeFd g := w_out w (mg_writeFd g) @
      wire (data_protocol cb (mg_config g)) [(ch_id (mg_channels g ! ir_channel q), m)])\<rparr>)"
proof -
  let ?c = "mg_channels g ! ir_channel q"
  have "channel_ok g ?c" using x by (intro mg_inv_channel [OF inv]) (simp add: sendable_on_def)
  with x kernel InternalChannel_write_no_fault [of w ?c m] show ?thesis
    by (simp add: InternalRequest_sendMessage_def deref_def sendable_on_def channel_ok_def wire_def)
qed

lemma write_all_wire:
  assumes inv: "mg_inv g" and fd: "0 \<le> mg_writeFd g"
  shows "\<forall>x \<in> set xs. sendable_on cb g x \<Longrightarrow> w_script w = [] \<Longrightarrow> w_open w (mg_writeFd g) \<Longrightarrow>
    write_all xs g w = Ret (replicate (length xs) OkStatus,
      w\<lparr>w_out := (w_out w)(mg_writeFd g := w_out w (mg_writeFd g) @
        wire (data_protocol cb (mg_config g)) (addressed g xs))\<rparr>)"
proof (induction xs arbitrary: w)
  case Nil
  then show ?case by (simp add: wire_def addressed_def fun_upd_idem)
next
  case (Cons x xs)
  have x: "sendable_on cb g (ir_channel (InternalRequest_of_channel (fst x)), snd x)"
    using Cons.prems by simp
  from send_one [OF inv x Cons.prems(2,3) fd] Cons.IH [of "w\<lparr>w_out := _\<rparr>"] Cons.prems
  show ?case by (simp add: wire_def addressed_def split_beta fun_upd_same del: fun_upd_apply)
qed

text \<open>The turns that receive them put each message into the queue of its channel.\<close>

definition announced :: "('b, 'h) connector \<Rightarrow> nat \<Rightarrow> channel_id_t \<times> message \<Rightarrow> 'h connector_event \<Rightarrow> bool" where
  "announced cn k x e \<longleftrightarrow>
     (\<exists>r. e = StartHandler (Connector_target (protocol (header (snd x))) cn) k
            (InternalRequest_new (protocol (header (snd x))) (cl_clientAddr (client_of k cn)) r))"

lemma receive_request:
  assumes fifo: "fifo_buffer B contents" and ready: "peer_ready k cn w"
    and bo: "buffers_open contents (manager_of k cn)"
    and m: "wf_message m" "body_len m + 12 < 4294967296" and i: "unat i < 1024"
    and wire: "w_in w (cl_clientFd (client_of k cn)) = wire 16 [(i, m)] @ rest"
  obtains e g' where "Connector_runClient_turn B address k cn w =
      Ret (True, [e], put_manager k g' cn, w\<lparr>w_in := (w_in w)(cl_clientFd (client_of k cn) := rest)\<rparr>)"
    "announced cn k (i, m) e"
    "mg_inv g'" "mg_config g' = connector_config" "mg_writeFd g' = mg_writeFd (manager_of k cn)"
    "buffers_open contents g'"
    "\<And>j. unat j < 1024 \<Longrightarrow> queue contents RemoveResponse g' j =
       queue contents RemoveResponse (manager_of k cn) j @ (if j = i then [m] else [])"
    "\<exists>r. e = StartHandler (Connector_target (protocol (header m)) cn) k
       (InternalRequest_new (protocol (header m)) (cl_clientAddr (client_of k cn)) r) \<and>
       mg_responseChannel g' ! unat i = Some r \<and>
       mg_responseChannel (manager_of k cn) ! unat i \<in> {None, Some r}"
proof -
  let ?g = "manager_of k cn" and ?M = "wrapped le32 4 16 i m"
  let ?w = "w\<lparr>w_in := (w_in w)(cl_clientFd (client_of k cn) := rest)\<rparr>"
  from ready have inv: "mg_inv ?g" and cfg: "mg_config ?g = connector_config" by (simp_all add: peer_ready_def)
  have wf: "wf_message ?M" using m(2) by (intro channel_id_codec.wf_wrapped) simp
  have rcv: "TcpClient_receiveMessage (client_of k cn) w = ((OkStatus, Some ?M), ?w)"
    using wire by (intro receive_frame [OF ready wf]) (simp add: wire_def)
  have u: "unwrapMessage un32 4 ?M = Ret (OkStatus, Some i, Some m)"
    using m by (simp add: channel_id_codec.unwrap_wrapped)
  have p: "protocol (header ?M) = RequestProtocol (mg_config ?g)" by (simp add: cfg wrapped_def)
  have "unat i < max_channels ?g" "protocols_distinct (mg_config ?g)" using i cfg by simp_all
  from forward_request_queues [OF fifo inv bo this(2) p u this(1), of ?w] obtain r g' where
    fw: "forwardMessage B ?M ?g ?w = Ret ((OkStatus, protocol (header m), Some r), g', ?w)"
    and g': "mg_inv g'" "mg_config g' = mg_config ?g" "mg_writeFd g' = mg_writeFd ?g"
      "mg_responseChannel g' ! unat i = Some r" "buffers_open contents g'"
    and q: "\<And>cb (j :: channel_id_t). unat j < max_channels ?g \<Longrightarrow> queue contents cb g' j =
      (if cb = RemoveResponse \<and> j = i then queue contents RemoveResponse ?g i @ [m]
       else queue contents cb ?g j)"
    and same: "mg_responseChannel ?g ! unat i \<in> {None, Some r}" by metis
  note turn = turn_forwards [OF rcv fw, of address, simplified]
  show ?thesis
    by (rule that [OF turn]) (use g' q cfg same in \<open>auto simp: announced_def\<close>)
qed

definition routed :: "(channel_id_t \<times> message) list \<Rightarrow> channel_id_t \<Rightarrow> message list" where
  "routed xs i = map snd (filter (\<lambda>x. fst x = i) xs)"

lemma routed_simps [simp]:
  "routed [] i = []" "routed (x # xs) i = (if fst x = i then [snd x] else []) @ routed xs i"
  by (simp_all add: routed_def)

lemma receive_requests:
  "fifo_buffer B contents \<Longrightarrow> peer_ready k cn w \<Longrightarrow> buffers_open contents (manager_of k cn) \<Longrightarrow>
   \<forall>(i, m) \<in> set xs. wf_message m \<and> body_len m + 12 < 4294967296 \<and> unat i < 1024 \<Longrightarrow>
   w_in w (cl_clientFd (client_of k cn)) = wire 16 xs @ rest \<Longrightarrow>
   \<exists>es g'. Connector_runClient B address k (length xs) cn w =
       Ret (True, es, put_manager k g' cn, w\<lparr>w_in := (w_in w)(cl_clientFd (client_of k cn) := rest)\<rparr>) \<and>
     list_all2 (announced cn k) xs es \<and>
     (\<forall>i. unat i < 1024 \<longrightarrow> queue contents RemoveResponse g' i =
        queue contents RemoveResponse (manager_of k cn) i @ routed xs i)"
proof (induction xs arbitrary: cn w)
  case Nil
  have "put_manager k (manager_of k cn) cn = cn" by (simp add: put_manager_def)
  then show ?case
    using Nil by (intro exI [of _ "[]"] exI [of _ "manager_of k cn"]) (auto simp: wire_def fun_upd_idem)
next
  case (Cons x xs)
  obtain i m where x: "x = (i, m)" by fastforce
  let ?f = "cl_clientFd (client_of k cn)"
  let ?w1 = "w\<lparr>w_in := (w_in w)(?f := wire 16 xs @ rest)\<rparr>"
  have wr: "w_in w ?f = wire 16 [(i, m)] @ wire 16 xs @ rest"
    using Cons.prems(5) x by (simp add: wire_def)
  have m: "wf_message m" "body_len m + 12 < 4294967296" "unat i < 1024"
    using Cons.prems(4) x by simp_all
  obtain e g1 where turn: "Connector_runClient_turn B address k cn w =
      Ret (True, [e], put_manager k g1 cn, ?w1)"
    and e: "announced cn k (i, m) e" and g1: "mg_inv g1" "mg_config g1 = connector_config"
      "mg_writeFd g1 = mg_writeFd (manager_of k cn)" "buffers_open contents g1"
    and q1: "\<And>j. unat j < 1024 \<Longrightarrow> queue contents RemoveResponse g1 j =
       queue contents RemoveResponse (manager_of k cn) j @ (if j = i then [m] else [])"
    by (rule receive_request [OF Cons.prems(1-3) m wr, of address]) blast
  let ?cn1 = "put_manager k g1 cn"
  from Cons.prems(2) have k: "k < length (cn_objects cn)" by (simp add: peer_ready_def)
  have ready1: "peer_ready k ?cn1 ?w1"
    using Cons.prems(2) g1 k by (simp add: peer_ready_def)
  have wire1: "w_in ?w1 (cl_clientFd (client_of k ?cn1)) = wire 16 xs @ rest" by simp
  have bo1: "buffers_open contents (manager_of k ?cn1)" using g1 k by simp
  have all: "\<forall>(i, m) \<in> set xs. wf_message m \<and> body_len m + 12 < 4294967296 \<and> unat i < 1024"
    using Cons.prems(4) by simp
  from Cons.IH [OF Cons.prems(1) ready1 bo1 all wire1]
  obtain es g' where ih: "Connector_runClient B address k (length xs) ?cn1 ?w1 =
      Ret (True, es, put_manager k g' ?cn1, ?w1\<lparr>w_in := (w_in ?w1)(cl_clientFd (client_of k ?cn1) := rest)\<rparr>)"
    "list_all2 (announced ?cn1 k) xs es"
    "\<forall>i. unat i < 1024 \<longrightarrow> queue contents RemoveResponse g' i =
        queue contents RemoveResponse (manager_of k ?cn1) i @ routed xs i"
    by blast
  have "announced ?cn1 k = announced cn k" by (intro ext) (simp add: announced_def)
  with turn ih e q1 x k show ?case
    by (intro exI [of _ "e # es"] exI [of _ g']) (auto simp del: fun_upd_apply)
qed

section \<open>A request and its response\<close>

text \<open>
  The bytes a process wrote on its end of a connection reach the other end.
\<close>

definition deliver :: "fd \<Rightarrow> 'z world_scheme \<Rightarrow> fd \<Rightarrow> 'z world_scheme \<Rightarrow> 'z world_scheme" where
  "deliver f w g v = v\<lparr>w_in := (w_in v)(g := w_in v g @ w_out w f)\<rparr>"

lemma deliver_simps [simp]:
  "w_in (deliver f w g v) = (w_in v)(g := w_in v g @ w_out w f)" "w_out (deliver f w g v) = w_out v"
  "w_open (deliver f w g v) = w_open v" "w_script (deliver f w g v) = w_script v"
  by (simp_all add: deliver_def)

lemma receiveMessage_slots:
  "InternalRequest_receiveMessage B q g = Ret (res, g') \<Longrightarrow> slots cb g' = slots cb g"
  by (auto simp: InternalRequest_receiveMessage_def outcome_simps)

lemma slot_sendable:
  assumes "mg_inv g" "unat i < max_channels g" "slots cb g ! unat i = Some r"
    "wf_message m" "body_len m + 12 < 4294967296"
  shows "sendable_on cb g (r, m)" "ch_id (mg_channels g ! r) = i"
  using mg_inv_slot [OF assms(1-3)] assms(4,5) by (simp_all add: sendable_on_def)

text \<open>The response comes back to the request channel it belongs to.\<close>

lemma receive_response:
  assumes fifo: "fifo_buffer B contents" and ready: "peer_ready k cn w"
    and bo: "buffers_open contents (manager_of k cn)"
    and m: "wf_message m" "body_len m + 12 < 4294967296" and i: "unat i < 1024"
    and r: "mg_requestChannel (manager_of k cn) ! unat i = Some r"
    and wire: "w_in w (cl_clientFd (client_of k cn)) = wire 19 [(i, m)]"
  shows "\<exists>w'. Connector_runClient_turn B address k cn w =
      Ret (True, [], put_manager k (pushed B r m (manager_of k cn)) cn, w') \<and> w' = w\<lparr>w_in := w_in w'\<rparr>"
    and "buffers_open contents (pushed B r m (manager_of k cn))"
    and "queue contents RemoveRequest (pushed B r m (manager_of k cn)) i =
      queue contents RemoveRequest (manager_of k cn) i @ [m]"
proof -
  let ?g = "manager_of k cn" and ?M = "wrapped le32 4 19 i m"
  let ?w = "w\<lparr>w_in := (w_in w)(cl_clientFd (client_of k cn) := [])\<rparr>"
  from ready have inv: "mg_inv ?g" and cfg: "mg_config ?g = connector_config" by (simp_all add: peer_ready_def)
  have wf: "wf_message ?M" using m(2) by (intro channel_id_codec.wf_wrapped) simp
  have rcv: "TcpClient_receiveMessage (client_of k cn) w = ((OkStatus, Some ?M), ?w)"
    using wire by (intro receive_frame [OF ready wf]) (simp add: wire_def)
  have u: "unwrapMessage un32 4 ?M = Ret (OkStatus, Some i, Some m)"
    using m by (simp add: channel_id_codec.unwrap_wrapped)
  have p: "protocol (header ?M) = ResponseProtocol (mg_config ?g)" by (simp add: cfg wrapped_def)
  have side: "protocols_distinct (mg_config ?g)" "unat i < max_channels ?g" using i cfg by simp_all
  note resp = forward_response_appends_lemma [OF fifo inv bo side(1) p u side(2) r]
  from turn_forwards [OF rcv resp(1), of address]
  show "\<exists>w'. Connector_runClient_turn B address k cn w =
      Ret (True, [], put_manager k (pushed B r m ?g) cn, w') \<and> w' = w\<lparr>w_in := w_in w'\<rparr>" by simp
  show "buffers_open contents (pushed B r m ?g)" by (rule resp(2))
  show "queue contents RemoveRequest (pushed B r m ?g) i = queue contents RemoveRequest ?g i @ [m]"
    using resp(3) [OF side(2)] by simp
qed

section \<open>Properties\<close>

text \<open>
  Multiplexing: messages written in any order on several request channels of one connection
  arrive, after as many turns of the peer's read loop, in the queues of the response channels
  of the same ids, each channel's messages complete and in the order they were written.
\<close>

theorem multiplexing_keeps_order:
  assumes fifo: "fifo_buffer B contents"
    and A: "mg_inv gA" "mg_config gA = connector_config" "0 \<le> mg_writeFd gA"
      "w_script wA = []" "w_open wA (mg_writeFd gA)" "w_out wA (mg_writeFd gA) = []"
    and xs: "\<forall>x \<in> set xs. sendable_on RemoveRequest gA x"
    and B: "peer_ready k cn wB" "buffers_open contents (manager_of k cn)"
      "w_in wB (cl_clientFd (client_of k cn)) = []"
  shows "\<exists>wA' es cn' wB'. write_all xs gA wA = Ret (replicate (length xs) OkStatus, wA') \<and>
    Connector_runClient B address k (length xs) cn
      (deliver (mg_writeFd gA) wA' (cl_clientFd (client_of k cn)) wB) = Ret (True, es, cn', wB') \<and>
    length es = length xs \<and> w_in wB' (cl_clientFd (client_of k cn)) = [] \<and>
    (\<forall>i. unat i < 1024 \<longrightarrow> queue contents RemoveResponse (manager_of k cn') i =
       queue contents RemoveResponse (manager_of k cn) i @ routed (addressed gA xs) i)"
proof -
  let ?f = "cl_clientFd (client_of k cn)" and ?xs = "addressed gA xs"
  let ?wA = "wA\<lparr>w_out := (w_out wA)(mg_writeFd gA := wire 16 ?xs)\<rparr>"
  let ?wB = "deliver (mg_writeFd gA) ?wA ?f wB"
  have send: "write_all xs gA wA = Ret (replicate (length xs) OkStatus, ?wA)"
    using write_all_wire [OF A(1,3) xs A(4,5)] A(2,6) by simp
  have ids: "\<forall>(i, m) \<in> set ?xs. wf_message m \<and> body_len m + 12 < 4294967296 \<and> unat i < 1024"
    using xs mg_inv_channel [OF A(1)] A(2) by (fastforce simp: addressed_def sendable_on_def channel_ok_def)
  have ready: "peer_ready k cn ?wB" using B(1) by (simp add: peer_ready_def)
  have "w_in ?wB ?f = wire 16 ?xs @ []" using B(3) by simp
  from receive_requests [OF fifo ready B(2) ids this] obtain es g' where
    rcv: "Connector_runClient B address k (length ?xs) cn ?wB =
       Ret (True, es, put_manager k g' cn, ?wB\<lparr>w_in := (w_in ?wB)(?f := [])\<rparr>)"
    "list_all2 (announced cn k) ?xs es"
    "\<forall>i. unat i < 1024 \<longrightarrow> queue contents RemoveResponse g' i =
        queue contents RemoveResponse (manager_of k cn) i @ routed ?xs i" by blast
  have "length ?xs = length xs" by (simp add: addressed_def)
  with rcv list_all2_lengthD [OF rcv(2)] B(1) send show ?thesis
    by (intro exI [of _ ?wA] exI [of _ es] exI [of _ "put_manager k g' cn"]
        exI [of _ "?wB\<lparr>w_in := (w_in ?wB)(?f := [])\<rparr>"])
      (simp add: peer_ready_def)
qed

lemma sendRequest_free:
  assumes "cn_clients cn a = Some k" "peer_ready k cn w" "mg_freeList (manager_of k cn) = i # rest"
  shows "Connector_sendRequest B a cn =
    Ret ((OkStatus, Some (k, InternalRequest_of_channel (length (mg_channels (manager_of k cn))))),
      put_manager k (opened B RemoveRequest i (manager_of k cn)) cn)"
  using assms by (simp add: Connector_sendRequest_def peer_ready_def createRequestChannel_eq)

text \<open>The three parts of an exchange: the request is sent, served, and answered.\<close>

lemma request_sent:
  assumes fifo: "fifo_buffer B contents" and cl: "cn_clients cn a = Some k" and ready: "peer_ready k cn w"
    and bo: "buffers_open contents (manager_of k cn)" and free: "mg_freeList (manager_of k cn) \<noteq> []"
    and m: "wf_message m" "body_len m + 12 < 4294967296" and f: "f = cl_clientFd (client_of k cn)"
  obtains i r g where
    "Connector_sendRequest B a cn =
       Ret ((OkStatus, Some (k, InternalRequest_of_channel r)), put_manager k g cn)"
    "InternalRequest_sendMessage (InternalRequest_of_channel r) m (manager_of k (put_manager k g cn)) w =
       Ret (OkStatus, w\<lparr>w_out := (w_out w)(f := w_out w f @ wire 16 [(i, m)])\<rparr>)"
    "unat i < 1024" "mg_inv g" "mg_config g = connector_config" "mg_writeFd g = f"
    "mg_requestChannel g ! unat i = Some r" "buffers_open contents g"
    "queue contents RemoveRequest g i = []"
proof -
  let ?g = "manager_of k cn"
  from ready have k: "k < length (cn_objects cn)" and inv: "mg_inv ?g"
    and cfg: "mg_config ?g = connector_config" "mg_writeFd ?g = f" "0 \<le> f" "w_open w f" "w_script w = []"
    by (simp_all add: peer_ready_def f)
  from free obtain i rest where fl: "mg_freeList ?g = i # rest" by (cases "mg_freeList ?g") auto
  with mg_inv_free [OF inv, of i] have i: "unat i < max_channels ?g"
    and none: "slots RemoveRequest ?g ! unat i = None" by simp_all
  let ?g1 = "opened B RemoveRequest i ?g" and ?r = "length (mg_channels ?g)"
  have g1: "mg_inv ?g1" by (rule opened_inv [OF inv i none])
  have slot1: "slots RemoveRequest ?g1 ! unat i = Some ?r"
    using i mg_inv_slots_length [OF inv, of RemoveRequest] by (simp add: opened_slots)
  have "queue contents RemoveRequest ?g i = []" using none by (simp add: queue_def)
  then have q: "queue contents RemoveRequest ?g1 i = []"
    using opened_queue(2) [OF fifo inv bo i none i] by simp
  have send: "InternalRequest_sendMessage (InternalRequest_of_channel ?r) m
      (manager_of k (put_manager k ?g1 cn)) w =
      Ret (OkStatus, w\<lparr>w_out := (w_out w)(f := w_out w f @ wire 16 [(i, m)])\<rparr>)"
    using send_one [OF g1, of RemoveRequest "InternalRequest_of_channel ?r" m w]
      slot_sendable [OF g1 _ slot1 m] cfg i k by simp
  show ?thesis
    by (rule that [OF sendRequest_free [OF cl ready fl] send])
      (use i g1 cfg slot1 q opened_queue(1) [OF fifo inv bo i none] in simp_all)
qed

lemma request_served:
  assumes fifo: "fifo_buffer B contents" and ready: "peer_ready k cn w"
    and bo: "buffers_open contents (manager_of k cn)"
    and empty: "queue contents RemoveResponse (manager_of k cn) i = []"
    and m: "wf_message m" "body_len m + 12 < 4294967296" and i: "unat i < 1024"
    and reply: "wf_message reply" "body_len reply + 12 < 4294967296"
    and f: "f = cl_clientFd (client_of k cn)" and wire: "w_in w f = wire 16 [(i, m)]"
  shows "\<exists>rq cn1 w1 g2 w2.
    Connector_runClient_turn B address k cn w =
      Ret (True, [StartHandler (Connector_target (protocol (header m)) cn) k rq], cn1, w1) \<and>
    ir_protocol rq = protocol (header m) \<and> k < length (cn_objects cn1) \<and>
    InternalRequest_receiveMessage B rq (manager_of k cn1) = Ret ((OkStatus, Some m), g2) \<and>
    InternalRequest_sendMessage rq reply g2 w1 = Ret (OkStatus, w2) \<and>
    w_out w2 f = w_out w f @ wire 19 [(i, reply)]"
proof -
  let ?w1 = "w\<lparr>w_in := (w_in w)(cl_clientFd (client_of k cn) := [])\<rparr>"
  from ready have k: "k < length (cn_objects cn)" and fd: "mg_writeFd (manager_of k cn) = f"
    "0 \<le> f" "w_open w f" "w_script w = []" by (simp_all add: peer_ready_def f)
  have "w_in w (cl_clientFd (client_of k cn)) = wire 16 [(i, m)] @ []" using wire f by simp
  then obtain e g where turn: "Connector_runClient_turn B address k cn w =
      Ret (True, [e], put_manager k g cn, ?w1)"
    and g: "mg_inv g" "mg_config g = connector_config" "mg_writeFd g = mg_writeFd (manager_of k cn)"
      "buffers_open contents g"
    and q: "\<And>j. unat j < 1024 \<Longrightarrow> queue contents RemoveResponse g j =
       queue contents RemoveResponse (manager_of k cn) j @ (if j = i then [m] else [])"
    and ev: "\<exists>r. e = StartHandler (Connector_target (protocol (header m)) cn) k
       (InternalRequest_new (protocol (header m)) (cl_clientAddr (client_of k cn)) r) \<and>
       mg_responseChannel g ! unat i = Some r \<and>
       mg_responseChannel (manager_of k cn) ! unat i \<in> {None, Some r}"
    by (rule receive_request [OF fifo ready bo m i, of "[]" address]) blast
  from ev obtain s rq where s: "e = StartHandler (Connector_target (protocol (header m)) cn) k rq"
    "slots RemoveResponse g ! unat i = Some s" "ir_channel rq = s" "ir_protocol rq = protocol (header m)"
    by (auto simp: InternalRequest_new_def)
  have "queue contents RemoveResponse g i = [m]" using q [OF i] empty by simp
  then obtain g2 where rd: "InternalRequest_receiveMessage B rq g = Ret ((OkStatus, Some m), g2)"
    using read_queue(1) [OF fifo g(1,4) _ s(2), of m "[]" rq] g(2) i s(3) by auto
  have g2: "mg_inv g2 \<and> mg_config g2 = mg_config g \<and> mg_writeFd g2 = mg_writeFd g"
    by (rule read_inv(1) [OF g(1) rd])
  have s2: "slots RemoveResponse g2 ! unat i = Some s"
    using receiveMessage_slots [OF rd, of RemoveResponse] s(2) by simp
  let ?w2 = "?w1\<lparr>w_out := (w_out w)(f := w_out w f @ wire 19 [(i, reply)])\<rparr>"
  have "InternalRequest_sendMessage rq reply g2 ?w1 = Ret (OkStatus, ?w2)"
    using send_one [of g2 RemoveResponse rq reply ?w1] slot_sendable [OF _ _ s2 reply] g2 g(2,3) fd i s(3)
    by simp
  moreover have "InternalRequest_receiveMessage B rq (manager_of k (put_manager k g cn)) =
      Ret ((OkStatus, Some m), g2)" using rd k by simp
  moreover have "w_out ?w2 f = w_out w f @ wire 19 [(i, reply)]" by simp
  moreover have "k < length (cn_objects (put_manager k g cn))" using k by simp
  ultimately show ?thesis
    using turn [unfolded s(1)] s(4) by blast
qed

text \<open>The exchange, with what the ends still know after it.\<close>

lemma exchange:
  assumes fifo: "fifo_buffer B contents"
    and A: "cn_clients cnA a = Some kA" "peer_ready kA cnA wA" "buffers_open contents (manager_of kA cnA)"
      "mg_freeList (manager_of kA cnA) \<noteq> []"
    and B: "peer_ready kB cnB wB" "buffers_open contents (manager_of kB cnB)"
      "\<forall>i. unat i < 1024 \<longrightarrow> queue contents RemoveResponse (manager_of kB cnB) i = []"
    and fA: "fA = cl_clientFd (client_of kA cnA)" and fB: "fB = cl_clientFd (client_of kB cnB)"
    and quiet: "w_in wA fA = []" "w_out wA fA = []" "w_in wB fB = []" "w_out wB fB = []"
    and m: "wf_message m" "body_len m + 12 < 4294967296"
    and reply: "wf_message reply" "body_len reply + 12 < 4294967296"
  shows "\<exists>q cnA1 wA1 rq cnB1 wB1 gB2 wB2 cnA2 wA2 gA3.
    Connector_sendRequest B a cnA = Ret ((OkStatus, Some (kA, q)), cnA1) \<and>
    InternalRequest_sendMessage q m (manager_of kA cnA1) wA = Ret (OkStatus, wA1) \<and>
    Connector_runClient_turn B b kB cnB (deliver fA wA1 fB wB) =
      Ret (True, [StartHandler (Connector_target (protocol (header m)) cnB) kB rq], cnB1, wB1) \<and>
    ir_protocol rq = protocol (header m) \<and>
    InternalRequest_receiveMessage B rq (manager_of kB cnB1) = Ret ((OkStatus, Some m), gB2) \<and>
    InternalRequest_sendMessage rq reply gB2 wB1 = Ret (OkStatus, wB2) \<and>
    Connector_runClient_turn B a kA cnA1 (deliver fB wB2 fA wA1) = Ret (True, [], cnA2, wA2) \<and>
    InternalRequest_receiveMessage B q (manager_of kA cnA2) = Ret ((OkStatus, Some reply), gA3) \<and>
    mg_inv gA3 \<and> ir_channel q < length (mg_channels gA3) \<and>
    kB < length (cn_objects cnB1) \<and> kA < length (cn_objects cnA2) \<and>
    wA1 = wA\<lparr>w_out := w_out wA1\<rparr> \<and> wA2 = wA1\<lparr>w_in := w_in wA2\<rparr>"
proof -
  from request_sent [OF fifo A m fA] obtain i r g where
    sent: "Connector_sendRequest B a cnA =
       Ret ((OkStatus, Some (kA, InternalRequest_of_channel r)), put_manager kA g cnA)"
    "InternalRequest_sendMessage (InternalRequest_of_channel r) m (manager_of kA (put_manager kA g cnA)) wA =
       Ret (OkStatus, wA\<lparr>w_out := (w_out wA)(fA := w_out wA fA @ wire 16 [(i, m)])\<rparr>)"
    and g: "unat i < 1024" "mg_inv g" "mg_config g = connector_config" "mg_writeFd g = fA"
      "mg_requestChannel g ! unat i = Some r" "buffers_open contents g"
      "queue contents RemoveRequest g i = []" by metis
  let ?cn1 = "put_manager kA g cnA" and ?wA1 = "wA\<lparr>w_out := (w_out wA)(fA := w_out wA fA @ wire 16 [(i, m)])\<rparr>"
  let ?wB = "deliver fA ?wA1 fB wB" and ?q = "InternalRequest_of_channel r"
  from A(2) have kA: "kA < length (cn_objects cnA)" by (simp add: peer_ready_def)
  have "peer_ready kB cnB ?wB" "w_in ?wB fB = wire 16 [(i, m)]"
    "queue contents RemoveResponse (manager_of kB cnB) i = []"
    using B(1,3) g(1) quiet by (simp_all add: peer_ready_def)
  from request_served [OF fifo this(1) B(2) this(3) m g(1) reply fB this(2), of b] quiet(4)
  obtain rq cnB1 wB1 gB2 wB2 where served:
    "Connector_runClient_turn B b kB cnB ?wB =
      Ret (True, [StartHandler (Connector_target (protocol (header m)) cnB) kB rq], cnB1, wB1)"
    "InternalRequest_receiveMessage B rq (manager_of kB cnB1) = Ret ((OkStatus, Some m), gB2)"
    "InternalRequest_sendMessage rq reply gB2 wB1 = Ret (OkStatus, wB2)"
    "w_out wB2 fB = wire 19 [(i, reply)]" "ir_protocol rq = protocol (header m)"
    "kB < length (cn_objects cnB1)" by auto
  have ready: "peer_ready kA ?cn1 (deliver fB wB2 fA ?wA1)"
    and wire: "w_in (deliver fB wB2 fA ?wA1) (cl_clientFd (client_of kA ?cn1)) = wire 19 [(i, reply)]"
    and bo: "buffers_open contents (manager_of kA ?cn1)"
    and slot: "mg_requestChannel (manager_of kA ?cn1) ! unat i = Some r"
    using A(2) g kA fA quiet(1) served(4) by (simp_all add: peer_ready_def)
  note resp = receive_response [OF fifo ready bo reply g(1) slot wire]
  let ?g2 = "pushed B r reply (manager_of kA ?cn1)"
  have g2: "mg_inv ?g2" "unat i < max_channels ?g2" "slots RemoveRequest ?g2 ! unat i = Some r"
    "queue contents RemoveRequest ?g2 i = [reply]"
    using resp(3) g kA pushed_inv [of g B r reply] by simp_all
  obtain gA3 where rd: "InternalRequest_receiveMessage B ?q ?g2 = Ret ((OkStatus, Some reply), gA3)"
    using read_queue(1) [OF fifo g2(1) resp(2) g2(2,3,4)] InternalRequest_ir_channel(1) by blast
  have "InternalRequest_receiveMessage B ?q (manager_of kA (put_manager kA ?g2 ?cn1)) =
      Ret ((OkStatus, Some reply), gA3)" using rd kA by simp
  moreover have g3: "mg_inv gA3" "mg_config gA3 = mg_config ?g2" using read_inv(1) [OF g2(1) rd] by simp_all
  moreover have "slots RemoveRequest gA3 ! unat i = Some r"
    using receiveMessage_slots [OF rd, of RemoveRequest] g2(3) by simp
  then have "ir_channel ?q < length (mg_channels gA3)"
    using mg_inv_slot(1) [OF g3(1), of i RemoveRequest r] g2(2) g3(2) by simp
  moreover have "?wA1 = wA\<lparr>w_out := w_out ?wA1\<rparr>" by simp
  moreover obtain wA2 where "Connector_runClient_turn B a kA ?cn1 (deliver fB wB2 fA ?wA1) =
      Ret (True, [], put_manager kA ?g2 ?cn1, wA2)" "wA2 = ?wA1\<lparr>w_in := w_in wA2\<rparr>"
    using resp(1) [of a] by (auto simp: deliver_def)
  moreover have "kA < length (cn_objects (put_manager kA ?g2 ?cn1))" using kA by simp
  ultimately show ?thesis using sent served(1-3,5,6) by blast
qed

text \<open>
  C3. A request and its response: the process that opens a request to a peer and sends a message
  makes the peer start the handler registered for the message's protocol; the handler receives
  exactly that message, and what it sends back is exactly what the first process receives on its
  request.
\<close>

theorem request_response_round_trip:
  assumes fifo: "fifo_buffer B contents"
    and A: "cn_clients cnA a = Some kA" "peer_ready kA cnA wA" "buffers_open contents (manager_of kA cnA)"
      "mg_freeList (manager_of kA cnA) \<noteq> []"
    and B: "peer_ready kB cnB wB" "buffers_open contents (manager_of kB cnB)"
      "\<forall>i. unat i < 1024 \<longrightarrow> queue contents RemoveResponse (manager_of kB cnB) i = []"
    and fA: "fA = cl_clientFd (client_of kA cnA)" and fB: "fB = cl_clientFd (client_of kB cnB)"
    and quiet: "w_in wA fA = []" "w_out wA fA = []" "w_in wB fB = []" "w_out wB fB = []"
    and m: "wf_message m" "body_len m + 12 < 4294967296"
    and reply: "wf_message reply" "body_len reply + 12 < 4294967296"
  shows "\<exists>q cnA1 wA1 rq cnB1 wB1 gB2 wB2 cnA2 wA2 gA3.
    Connector_sendRequest B a cnA = Ret ((OkStatus, Some (kA, q)), cnA1) \<and>
    InternalRequest_sendMessage q m (manager_of kA cnA1) wA = Ret (OkStatus, wA1) \<and>
    Connector_runClient_turn B b kB cnB (deliver fA wA1 fB wB) =
      Ret (True, [StartHandler (Connector_target (protocol (header m)) cnB) kB rq], cnB1, wB1) \<and>
    InternalRequest_receiveMessage B rq (manager_of kB cnB1) = Ret ((OkStatus, Some m), gB2) \<and>
    InternalRequest_sendMessage rq reply gB2 wB1 = Ret (OkStatus, wB2) \<and>
    Connector_runClient_turn B a kA cnA1 (deliver fB wB2 fA wA1) = Ret (True, [], cnA2, wA2) \<and>
    InternalRequest_receiveMessage B q (manager_of kA cnA2) = Ret ((OkStatus, Some reply), gA3)"
  using exchange [OF assms, of b] by blast

section \<open>The clients of a connector\<close>

text \<open>
  Every entry of the client map leads to an open client of that address and to a manager in
  good order that writes to the client's descriptor.
\<close>

definition entry_ok :: "('b, 'h) connector \<Rightarrow> u32 \<Rightarrow> nat \<Rightarrow> bool" where
  "entry_ok cn a k \<longleftrightarrow>
     k < length (cn_objects cn) \<and> getClientInAddr (client_of k cn) = a \<and>
     cl_isSocketOpen (client_of k cn) \<and> cl_clientFd (client_of k cn) \<noteq> - 1 \<and>
     mg_inv (manager_of k cn) \<and> mg_config (manager_of k cn) = connector_config \<and>
     mg_writeFd (manager_of k cn) = cl_clientFd (client_of k cn)"

definition connector_inv :: "('b, 'h) connector \<Rightarrow> bool" where
  "connector_inv cn \<longleftrightarrow> (\<forall>a k. cn_clients cn a = Some k \<longrightarrow> entry_ok cn a k)"

datatype 'h connector_op =
    AddHandler protocol_t 'h
  | AddClient client
  | SendRequest u32
  | RunTurn u32
  | OnChannel u32 manager_op

primrec connector_step ::
    "'b message_buffer \<Rightarrow> 'h connector_op \<Rightarrow> ('b, 'h) connector \<Rightarrow> 'z world_scheme \<Rightarrow>
     ('h connector_event list \<times> ('b, 'h) connector \<times> 'z world_scheme) outcome" where
  "connector_step B (AddHandler p h) cn w = Ret ([], snd (Connector_addHandler p h cn), w)"
| "connector_step B (AddClient c) cn w =
     bind_outcome (Connector_addClient c cn w) (\<lambda>(st, cn, w). Ret ([], cn, w))"
| "connector_step B (SendRequest a) cn w =
     bind_outcome (Connector_sendRequest B a cn) (\<lambda>(res, cn). Ret ([], cn, w))"
| "connector_step B (RunTurn a) cn w =
     (case cn_clients cn a of
        None \<Rightarrow> Ret ([], cn, w)
      | Some k \<Rightarrow> bind_outcome (Connector_runClient_turn B a k cn w) (\<lambda>(b, es, cn, w). Ret (es, cn, w)))"
| "connector_step B (OnChannel a x) cn w =
     (case cn_clients cn a of
        None \<Rightarrow> Ret ([], cn, w)
      | Some k \<Rightarrow> bind_outcome (manager_step B x (manager_of k cn) w) (\<lambda>(g, w).
                    Ret ([], put_manager k g cn, w)))"

primrec connector_ops ::
    "'b message_buffer \<Rightarrow> 'h connector_op list \<Rightarrow> ('b, 'h) connector \<Rightarrow> 'z world_scheme \<Rightarrow>
     ('h connector_event list \<times> ('b, 'h) connector \<times> 'z world_scheme) outcome" where
  "connector_ops B [] cn w = Ret ([], cn, w)"
| "connector_ops B (x # xs) cn w =
     bind_outcome (connector_step B x cn w) (\<lambda>(es, cn, w).
     bind_outcome (connector_ops B xs cn w) (\<lambda>(fs, cn, w). Ret (es @ fs, cn, w)))"

text \<open>A client given to the connector is consistent: new, or made from an open descriptor.\<close>

primrec op_ok :: "'h connector_op \<Rightarrow> bool" where
  "op_ok (AddHandler p h) = True"
| "op_ok (AddClient c) = client_ok c"
| "op_ok (SendRequest a) = True"
| "op_ok (RunTurn a) = True"
| "op_ok (OnChannel a x) = True"

lemma put_manager_inv:
  assumes inv: "connector_inv cn" and a: "cn_clients cn a = Some k"
    and g: "mg_inv g \<and> mg_config g = mg_config (manager_of k cn) \<and> mg_writeFd g = mg_writeFd (manager_of k cn)"
  shows "connector_inv (put_manager k g cn)"
  unfolding connector_inv_def
proof (intro allI impI)
  fix b l assume "cn_clients (put_manager k g cn) b = Some l"
  with inv a have "entry_ok cn b l" "entry_ok cn a k" by (auto simp: connector_inv_def)
  with g show "entry_ok (put_manager k g cn) b l"
    by (cases "l = k") (auto simp: entry_ok_def)
qed

lemma openSocket_ok:
  assumes "TcpClient_openSocket c w = Ret (OkStatus, c', w')" "client_ok c"
  shows "cl_isSocketOpen c' \<and> cl_clientFd c' \<noteq> - 1"
proof (cases "cl_isSocketOpen c")
  case True
  with assms show ?thesis by (auto simp: client_ok_def)
next
  case False
  show ?thesis by (rule TcpClient_openSocket_cases [OF assms(1) False]) simp_all
qed

lemma addClient_cases:
  assumes "Connector_addClient c cn w = Ret (st, cn', w')"
  obtains (failed) st0 c1 w1 where "TcpClient_openSocket c w = Ret (st0, c1, w1)" "st0 \<noteq> OkStatus"
      "st = with_context ''Failed to open socket for client'' st0" "cn' = cn" "w' = TcpClient_destroy c1 w1"
  | (present) c1 w1 k where "TcpClient_openSocket c w = Ret (OkStatus, c1, w1)"
      "cn_clients cn (getClientInAddr c1) = Some k" "st = AlreadyExistsError ''Client already exists''"
      "cn' = cn" "w' = TcpClient_destroy c1 w1"
  | (added) c1 where "TcpClient_openSocket c w = Ret (OkStatus, c1, w')"
      "cn_clients cn (getClientInAddr c1) = None" "st = OkStatus"
      "cn' = cn\<lparr>cn_clients := (cn_clients cn)(getClientInAddr c1 \<mapsto> length (cn_objects cn)),
         cn_objects := cn_objects cn @ [\<lparr>ic_client = c1, ic_channelManager =
           InternalChannelManager_new connector_config (cl_clientFd c1)\<rparr>]\<rparr>"
proof -
  from assms obtain st0 c1 w1 where o: "TcpClient_openSocket c w = Ret (st0, c1, w1)"
    by (auto simp: Connector_addClient_def outcome_simps)
  show ?thesis
  proof (cases st0)
    case OkStatus
    with assms o show ?thesis
      by (cases "cn_clients cn (getClientInAddr c1)")
        (auto simp: Connector_addClient_def Let_def intro: present added)
  next
    case (ErrStatus code msg)
    with assms o show ?thesis
      by (intro failed [of st0 c1 w1]) (auto simp: Connector_addClient_def)
  qed
qed

lemma addClient_inv:
  assumes inv: "connector_inv cn" and add: "Connector_addClient c cn w = Ret (st, cn', w')"
    and ok: "client_ok c"
  shows "connector_inv cn'"
proof (rule addClient_cases [OF add], goal_cases failed present added)
  case (added c1)
  have new: "entry_ok cn' (getClientInAddr c1) (length (cn_objects cn))"
    using openSocket_ok [OF added(1) ok] by (simp add: added(4) entry_ok_def new_inv)
  have old: "entry_ok cn' b l" if "entry_ok cn b l" for b l
    using that by (auto simp: added(4) entry_ok_def nth_append)
  show ?case
    using inv new old by (auto simp: connector_inv_def added(4))
qed (use inv in simp_all)

lemma sendRequest_inv:
  assumes inv: "connector_inv cn" and s: "Connector_sendRequest B a cn = Ret (res, cn')"
  shows "connector_inv cn'"
proof (cases "cn_clients cn a")
  case None
  with assms show ?thesis by (auto simp: Connector_sendRequest_def)
next
  case (Some k)
  with inv have e: "entry_ok cn a k" by (simp add: connector_inv_def)
  from Some s obtain r g where c: "createRequestChannel B (manager_of k cn) = Ret (r, g)"
    and cn': "cn' = put_manager k g cn"
    by (auto simp: Connector_sendRequest_def outcome_simps Let_def split: prod.splits option.splits if_splits)
  have "mg_inv (manager_of k cn)" using e by (simp add: entry_ok_def)
  from create_inv [OF this c] show ?thesis
    unfolding cn' by (rule put_manager_inv [OF inv Some])
qed

lemma runClient_turn_cases:
  assumes "Connector_runClient_turn B a k cn w = Ret (b, es, cn', w')"
  obtains (ended) st mo w1 c g w2 where
      "TcpClient_receiveMessage (client_of k cn) w = ((st, mo), w1)" "st \<noteq> OkStatus"
      "TcpClient_closeSocket (client_of k cn) w1 = (c, w2)"
      "\<exists>w3. InternalChannelManager_destroy B (manager_of k cn) w2 = Ret (g, w3) \<and> w' = TcpClient_destroy c w3"
      "b = False" "es = [DisconnectCallback a]"
      "cn' = cn\<lparr>cn_clients := (cn_clients cn)(a := None),
         cn_objects := (cn_objects cn)[k := \<lparr>ic_client = c, ic_channelManager = g\<rparr>]\<rparr>"
  | (forwarded) m w1 res g where
      "TcpClient_receiveMessage (client_of k cn) w = ((OkStatus, Some m), w1)"
      "forwardMessage B m (manager_of k cn) w1 = Ret (res, g, w')" "b" "cn' = put_manager k g cn"
proof -
  obtain st mo w1 where r: "TcpClient_receiveMessage (client_of k cn) w = ((st, mo), w1)"
    by (metis prod_cases3 surj_pair)
  show ?thesis
  proof (cases "st = OkStatus")
    case True
    with assms r show ?thesis
      by (cases mo) (auto simp: Connector_runClient_turn_def outcome_simps Let_def intro: forwarded)
  next
    case False
    obtain c w2 where cl: "TcpClient_closeSocket (client_of k cn) w1 = (c, w2)" by fastforce
    from assms r False cl obtain g w3 where
      "InternalChannelManager_destroy B (manager_of k cn) w2 = Ret (g, w3)" "w' = TcpClient_destroy c w3"
      "b = False" "es = [DisconnectCallback a]"
      "cn' = cn\<lparr>cn_clients := (cn_clients cn)(a := None),
         cn_objects := (cn_objects cn)[k := \<lparr>ic_client = c, ic_channelManager = g\<rparr>]\<rparr>"
      by (auto simp: Connector_runClient_turn_def outcome_simps Let_def)
    with r False cl show ?thesis by (intro ended) blast+
  qed
qed

lemma runClient_turn_inv:
  assumes inv: "connector_inv cn" and a: "cn_clients cn a = Some k"
    and turn: "Connector_runClient_turn B a k cn w = Ret (b, es, cn', w')"
  shows "connector_inv cn'"
proof (rule runClient_turn_cases [OF turn], goal_cases ended forwarded)
  case (ended st mo w1 c g w2)
  have "entry_ok cn' d l" if d: "cn_clients cn' d = Some l" for d l
  proof -
    from d have "d \<noteq> a" "cn_clients cn d = Some l" by (auto simp: ended(7) split: if_splits)
    with inv a have "entry_ok cn d l" "entry_ok cn a k" by (auto simp: connector_inv_def)
    with \<open>d \<noteq> a\<close> have "l \<noteq> k" by (auto simp: entry_ok_def)
    with \<open>entry_ok cn d l\<close> show ?thesis by (simp add: ended(7) entry_ok_def)
  qed
  then show ?case by (simp add: connector_inv_def)
next
  case (forwarded m w1 res g)
  from inv a have "mg_inv (manager_of k cn)" by (simp add: connector_inv_def entry_ok_def)
  from forward_inv [OF this forwarded(2)] show ?case
    unfolding forwarded(4) by (rule put_manager_inv [OF inv a])
qed

lemma connector_step_inv:
  assumes inv: "connector_inv cn" and ok: "op_ok x" and s: "connector_step B x cn w = Ret (es, cn', w')"
  shows "connector_inv cn'"
proof (cases x)
  case (AddHandler p h)
  with s inv show ?thesis
    by (cases "cn_handlers cn p") (auto simp: Connector_addHandler_def connector_inv_def entry_ok_def)
next
  case (AddClient c)
  with s obtain st where "Connector_addClient c cn w = Ret (st, cn', w')" by (auto simp: outcome_simps)
  with AddClient ok show ?thesis using addClient_inv [OF inv] by simp
next
  case (SendRequest a)
  with s obtain res where "Connector_sendRequest B a cn = Ret (res, cn')" by (auto simp: outcome_simps)
  then show ?thesis by (rule sendRequest_inv [OF inv])
next
  case (RunTurn a)
  show ?thesis
  proof (cases "cn_clients cn a")
    case None
    with RunTurn s inv show ?thesis by simp
  next
    case (Some k)
    with RunTurn s obtain b where "Connector_runClient_turn B a k cn w = Ret (b, es, cn', w')"
      by (auto simp: outcome_simps)
    then show ?thesis by (rule runClient_turn_inv [OF inv Some])
  qed
next
  case (OnChannel a op)
  show ?thesis
  proof (cases "cn_clients cn a")
    case None
    with OnChannel s inv show ?thesis by simp
  next
    case (Some k)
    with OnChannel s obtain g where g: "manager_step B op (manager_of k cn) w = Ret (g, w')"
      and cn': "cn' = put_manager k g cn" by (auto simp: outcome_simps)
    from inv Some have "mg_inv (manager_of k cn)" by (simp add: connector_inv_def entry_ok_def)
    from manager_step_inv [OF this g] show ?thesis
      unfolding cn' by (rule put_manager_inv [OF inv Some])
  qed
qed

lemma connector_ops_inv:
  "connector_ops B xs cn w = Ret (es, cn', w') \<Longrightarrow> \<forall>x \<in> set xs. op_ok x \<Longrightarrow> connector_inv cn \<Longrightarrow>
   connector_inv cn'"
proof (induction xs arbitrary: cn w es)
  case (Cons x xs)
  then obtain es1 cn1 w1 fs where s: "connector_step B x cn w = Ret (es1, cn1, w1)"
    "connector_ops B xs cn1 w1 = Ret (fs, cn', w')" by (auto simp: outcome_simps)
  have "connector_inv cn1" using connector_step_inv [OF Cons.prems(3) _ s(1)] Cons.prems(2) by simp
  with Cons.IH [OF s(2)] Cons.prems(2) show ?case by simp
qed simp


section \<open>Disconnecting\<close>

lemma end_sent_closed_fd: "\<not> w_open w (mg_writeFd g) \<Longrightarrow> end_sent r g w = w"
  by (simp add: end_sent_def writeMessage_def os_send_def kMessageHeaderLength_def Let_def)

lemma remove_closed_fd:
  assumes "mg_inv g" "unat i < max_channels g" "\<not> w_open w (mg_writeFd g)"
    "remove_channel cb B i g w = Ret (g', w')"
  shows "w' = w"
proof (cases "slots cb g ! unat i")
  case None
  with assms remove_empty_slot [of i cb g B w] show ?thesis by simp
next
  case (Some r)
  with assms remove_full_slot [OF assms(1,2) Some, of B w] show ?thesis by (simp add: end_sent_closed_fd)
qed

lemma remove_all_closed_fd:
  "remove_all B is g w = Ret (g', w') \<Longrightarrow> mg_inv g \<Longrightarrow> \<forall>i \<in> set is. unat i < max_channels g \<Longrightarrow>
   \<not> w_open w (mg_writeFd g) \<Longrightarrow> w' = w"
proof (induction "is" arbitrary: g w)
  case (Cons i "is")
  from Cons.prems(1) obtain g1 w1 g2 w2 where s:
    "remove_channel RemoveResponse B i g w = Ret (g1, w1)"
    "remove_channel RemoveRequest B i g1 w1 = Ret (g2, w2)" "remove_all B is g2 w2 = Ret (g', w')"
    by (auto simp: outcome_simps)
  have w1: "w1 = w" using remove_closed_fd [OF Cons.prems(2) _ Cons.prems(4) s(1)] Cons.prems(3) by simp
  have g1: "mg_inv g1 \<and> mg_config g1 = mg_config g \<and> mg_writeFd g1 = mg_writeFd g"
    by (rule remove_inv [OF Cons.prems(2) s(1)])
  have w2: "w2 = w"
    using remove_closed_fd [OF _ _ _ s(2)] g1 w1 Cons.prems(3,4) by simp
  have "mg_inv g2 \<and> mg_config g2 = mg_config g1 \<and> mg_writeFd g2 = mg_writeFd g1"
    using remove_inv [OF _ s(2)] g1 by simp
  with g1 w2 Cons.IH [OF s(3)] Cons.prems(3,4) show ?case by simp
qed simp

lemma destroy_closed_fd:
  assumes inv: "mg_inv g" and closed: "\<not> w_open w (mg_writeFd g)"
  obtains g' where "InternalChannelManager_destroy B g w = Ret (g', w)"
    "\<forall>c \<in> set (mg_channels g'). ch_isClosed c"
proof -
  from destroy_returns [OF inv, of B w] obtain g' w' where
    d: "InternalChannelManager_destroy B g w = Ret (g', w')" "\<forall>c \<in> set (mg_channels g'). ch_isClosed c"
    by blast
  have "\<forall>i \<in> set (map of_nat [0..<max_channels g]). unat (i :: channel_id_t) < max_channels g"
    by auto
  with remove_all_closed_fd [OF _ inv _ closed] d(1) have "w' = w"
    by (simp add: InternalChannelManager_destroy_def)
  with d that show ?thesis by simp
qed

lemma failed_turn:
  assumes inv: "connector_inv cn" and a: "cn_clients cn a = Some k"
    and fail: "TcpClient_receiveMessage (client_of k cn) w = ((st, mo), w1)" "st \<noteq> OkStatus"
  obtains c g where "Connector_runClient_turn B a k cn w = Ret (False, [DisconnectCallback a],
      cn\<lparr>cn_clients := (cn_clients cn)(a := None),
         cn_objects := (cn_objects cn)[k := \<lparr>ic_client = c, ic_channelManager = g\<rparr>]\<rparr>,
      os_close (cl_clientFd (client_of k cn)) w1)"
    "\<forall>c \<in> set (mg_channels g). ch_isClosed c"
proof -
  let ?c = "client_of k cn" and ?g = "manager_of k cn"
  from inv a have e: "entry_ok cn a k" by (simp add: connector_inv_def)
  let ?w2 = "os_close (cl_clientFd ?c) w1" and ?c' = "?c\<lparr>cl_clientFd := - 1, cl_isSocketOpen := False\<rparr>"
  have close: "TcpClient_closeSocket ?c w1 = (?c', ?w2)" "TcpClient_destroy ?c' ?w2 = ?w2"
    using e by (simp_all add: TcpClient_closeSocket_def TcpClient_destroy_def entry_ok_def)
  have "mg_inv ?g" "\<not> w_open ?w2 (mg_writeFd ?g)"
    using e by (simp_all add: entry_ok_def os_close_def)
  then obtain g' where d: "InternalChannelManager_destroy B ?g ?w2 = Ret (g', ?w2)"
    "\<forall>c \<in> set (mg_channels g'). ch_isClosed c"
    by (rule destroy_closed_fd)
  from fail close d show ?thesis
    by (intro that [of ?c' g']) (simp_all add: Connector_runClient_turn_def Let_def)
qed

text \<open>
  C35. When receiving from a peer fails, the turn ends the client: its descriptor is closed once,
  its entry is gone, the disconnect callback is called exactly once with its address, and every
  channel of the connection is closed. The end messages of those channels go to the descriptor
  that was closed just before, so none of them is sent.
\<close>

theorem disconnect_cleans_up:
  assumes inv: "connector_inv cn" and a: "cn_clients cn a = Some k"
    and fail: "TcpClient_receiveMessage (client_of k cn) w = ((st, mo), w1)" "st \<noteq> OkStatus"
  shows "\<exists>cn' w'. Connector_runClient_turn B a k cn w = Ret (False, [DisconnectCallback a], cn', w') \<and>
    cn_clients cn' = (cn_clients cn)(a := None) \<and>
    w_closes w' = cl_clientFd (client_of k cn) # w_closes w1 \<and>
    w_open w' = (w_open w1)(cl_clientFd (client_of k cn) := False) \<and> w_out w' = w_out w1 \<and>
    (\<forall>c \<in> set (mg_channels (manager_of k cn')). ch_isClosed c)"
proof -
  have "k < length (cn_objects cn)" using inv a by (simp add: connector_inv_def entry_ok_def)
  then show ?thesis
    by (rule_tac failed_turn [OF assms, of B]) (simp add: os_close_def)
qed

section \<open>One handler for each message\<close>

text \<open>
  C40. Two request messages on one channel start two handlers that share the channel. When the
  first handler is done, the destructor of its request closes the channel, and the second
  handler can no longer send its response.
\<close>

theorem second_message_second_handler:
  assumes fifo: "fifo_buffer B contents" and ready: "peer_ready k cn w"
    and bo: "buffers_open contents (manager_of k cn)" and i: "unat i < 1024"
    and m: "wf_message m" "body_len m + 12 < 4294967296"
    and n: "wf_message n" "body_len n + 12 < 4294967296"
    and wire: "w_in w (cl_clientFd (client_of k cn)) = wire 16 [(i, m), (i, n)]"
  shows "\<exists>x y cn' w' g w2. Connector_runClient B a k 2 cn w = Ret (True,
      [StartHandler (Connector_target (protocol (header m)) cn) k x,
       StartHandler (Connector_target (protocol (header n)) cn) k y], cn', w') \<and>
    ir_channel x = ir_channel y \<and>
    InternalRequest_destroy B x (manager_of k cn') w' = Ret (g, w2) \<and>
    InternalRequest_sendMessage y reply g w2 = Ret (FailedPreconditionError ''Channel is closed'', w2)"
proof -
  let ?f = "cl_clientFd (client_of k cn)"
  let ?w1 = "w\<lparr>w_in := (w_in w)(?f := wire 16 [(i, n)])\<rparr>"
  have wr: "w_in w ?f = wire 16 [(i, m)] @ wire 16 [(i, n)]" using wire by (simp add: wire_def)
  obtain r g1 where t1: "Connector_runClient_turn B a k cn w = Ret (True,
      [StartHandler (Connector_target (protocol (header m)) cn) k
         (InternalRequest_new (protocol (header m)) (cl_clientAddr (client_of k cn)) r)],
      put_manager k g1 cn, ?w1)"
    and g1: "mg_inv g1" "mg_config g1 = connector_config" "mg_writeFd g1 = mg_writeFd (manager_of k cn)"
      "buffers_open contents g1" "mg_responseChannel g1 ! unat i = Some r"
    by (rule receive_request [OF fifo ready bo m i wr, of a]) auto
  from ready have k: "k < length (cn_objects cn)" by (simp add: peer_ready_def)
  let ?cn1 = "put_manager k g1 cn"
  have ready1: "peer_ready k ?cn1 ?w1" using ready g1 k by (simp add: peer_ready_def)
  have bo1: "buffers_open contents (manager_of k ?cn1)" using g1 k by simp
  have wr1: "w_in ?w1 (cl_clientFd (client_of k ?cn1)) = wire 16 [(i, n)] @ []" by simp
  obtain s g2 w3 where t2: "Connector_runClient_turn B a k ?cn1 ?w1 = Ret (True,
      [StartHandler (Connector_target (protocol (header n)) cn) k
         (InternalRequest_new (protocol (header n)) (cl_clientAddr (client_of k cn)) s)],
      put_manager k g2 cn, w3)"
    and g2: "mg_inv g2" "mg_config g2 = connector_config" "mg_responseChannel g2 ! unat i = Some s"
    and same: "mg_responseChannel g1 ! unat i \<in> {None, Some s}"
    by (rule receive_request [OF fifo ready1 bo1 n i wr1, of a]) (use k in auto)
  from same g1(5) have rs: "s = r" by simp
  have "slots RemoveResponse g2 ! unat i = Some r" "unat i < max_channels g2" using g2 rs i by simp_all
  note sl = mg_inv_slot [OF g2(1) this(2,1)]
  have run: "Connector_runClient B a k 2 cn w = Ret (True,
      [StartHandler (Connector_target (protocol (header m)) cn) k
         (InternalRequest_new (protocol (header m)) (cl_clientAddr (client_of k cn)) r),
       StartHandler (Connector_target (protocol (header n)) cn) k
         (InternalRequest_new (protocol (header n)) (cl_clientAddr (client_of k cn)) r)],
      put_manager k g2 cn, w3)"
    using t1 t2 rs by (simp add: numeral_2_eq_2)
  have destr: "InternalRequest_destroy B (InternalRequest_new p x r) (manager_of k (put_manager k g2 cn)) w3 =
      Ret (shut B r g2, end_sent r g2 w3)" for p x
    using close_open [OF g2(1) sl(1,2)] k by (simp add: InternalRequest_destroy_def InternalRequest_terminate_def)
  have send: "InternalRequest_sendMessage (InternalRequest_new p x r) reply (shut B r g2) (end_sent r g2 w3) =
      Ret (FailedPreconditionError ''Channel is closed'', end_sent r g2 w3)" for p x
    using sl(1) by (simp add: InternalRequest_sendMessage_def deref_def shut_channels InternalChannel_write_def)
  show ?thesis
    by (intro exI conjI, rule run, simp, rule destr, rule send)
qed

lemma addClient_open:
  assumes "cl_isSocketOpen c" "cl_clientFd c \<noteq> - 1"
  shows "Connector_addClient c cn w =
    (if cn_clients cn (getClientInAddr c) = None
     then Ret (OkStatus,
       cn\<lparr>cn_clients := (cn_clients cn)(getClientInAddr c \<mapsto> length (cn_objects cn)),
          cn_objects := cn_objects cn @ [\<lparr>ic_client = c, ic_channelManager =
            InternalChannelManager_new connector_config (cl_clientFd c)\<rparr>]\<rparr>, w)
     else Ret (AlreadyExistsError ''Client already exists'', cn, os_close (cl_clientFd c) w))"
  using assms
  by (simp add: Connector_addClient_def Let_def TcpClient_destroy_def TcpClient_closeSocket_def)

text \<open>
  A connected socket handed to \<^verbatim>\<open>addClient\<close> (as \<^verbatim>\<open>handleConnectAck\<close> does) is kept for a new
  address, with an empty manager on its descriptor; for an address that is present it is closed
  and nothing else changes.
\<close>

theorem addClient_accepted_socket:
  assumes "cl_isSocketOpen c" "cl_clientFd c \<noteq> - 1"
  shows "Connector_addClient c cn w =
    (if cn_clients cn (getClientInAddr c) = None
     then Ret (OkStatus,
       cn\<lparr>cn_clients := (cn_clients cn)(getClientInAddr c \<mapsto> length (cn_objects cn)),
          cn_objects := cn_objects cn @ [\<lparr>ic_client = c, ic_channelManager =
            InternalChannelManager_new connector_config (cl_clientFd c)\<rparr>]\<rparr>, w)
     else Ret (AlreadyExistsError ''Client already exists'', cn, os_close (cl_clientFd c) w))"
  by (rule addClient_open [OF assms])

text \<open>
  The connector dispatches by its table: after handlers for distinct protocols were
  registered on a new connector, a request message starts the handler of the protocol of the
  wrapped message, and the default handler when there is none.
\<close>

theorem connector_dispatch:
  assumes "distinct (map fst phs)"
  shows "Connector_target p (snd (register_all Connector_addHandler phs
      (Connector_new h :: ('b, 'h) connector))) =
    (case map_of phs p of None \<Rightarrow> h | Some h' \<Rightarrow> h')"
proof (cases "map_of phs p")
  case None
  then have "p \<notin> fst ` set phs" by (simp add: map_of_eq_None_iff)
  moreover have "Connector_target p (Connector_new h :: ('b, 'h) connector) = h"
    by (simp add: Connector_target_def Connector_new_def)
  ultimately show ?thesis
    using None connector_registry.register_all_other [of p phs "Connector_new h :: ('b, 'h) connector"] by simp
next
  case (Some h')
  then have "(p, h') \<in> set phs" by (rule map_of_SomeD)
  with connector_registry.register_all_ok [OF assms, of "Connector_new h"] Some show ?thesis
    by (auto simp: Connector_new_def)
qed

section \<open>Witnesses\<close>

definition sample_connector :: "(message list option, string) connector" where
  "sample_connector =
     \<lparr>cn_handlers = Map.empty, cn_defaultHandler = ''default'',
      cn_clients = [0 \<mapsto> 0],
      cn_objects = [\<lparr>ic_client = sample_client,
        ic_channelManager = InternalChannelManager_new connector_config 4\<rparr>]\<rparr>"

lemma sample_connector_simps [simp]:
  "cn_clients sample_connector = [0 \<mapsto> 0]"
  "cn_objects sample_connector = [\<lparr>ic_client = sample_client,
     ic_channelManager = InternalChannelManager_new connector_config 4\<rparr>]"
  "Connector_target p sample_connector = ''default''"
  by (simp_all add: sample_connector_def Connector_target_def)

lemma sample_client_fields [simp]:
  "cl_clientFd sample_client = 4" "cl_isSocketOpen sample_client"
  "cl_clientAddr sample_client = null_sockaddr" "getClientInAddr sample_client = 0"
  by (simp_all add: sample_client_def TcpClient_of_socket_def Client_new_addr_def getClientInAddr_def
      null_sockaddr_def)

lemma sample_peer_ready [simp]:
  "w_script w = [] \<Longrightarrow> w_open w 4 \<Longrightarrow> peer_ready 0 sample_connector w"
  by (simp add: peer_ready_def new_inv)

lemma sample_connector_inv [simp]: "connector_inv sample_connector"
  by (simp add: connector_inv_def entry_ok_def new_inv)

lemma new_queue [simp]: "unat i < unat (MaxChannels cfg) \<Longrightarrow>
  queue contents cb (InternalChannelManager_new cfg f) i = []"
  by (cases cb) (simp_all add: queue_def InternalChannelManager_new_def)

theorem multiplexing_keeps_order_witness:
  "\<exists>wA' es cn' wB'. write_all [(0, sample_message), (0, sample_message)]
       (opened list_buffer RemoveRequest 5 (InternalChannelManager_new connector_config 4)) sample_world =
         Ret ([OkStatus, OkStatus], wA') \<and>
     Connector_runClient list_buffer 0 0 2 sample_connector (deliver 4 wA' 4 sample_world) =
       Ret (True, es, cn', wB') \<and>
     queue (\<lambda>b. b) RemoveResponse (manager_of 0 cn') 5 = [sample_message, sample_message]"
proof -
  let ?g = "InternalChannelManager_new connector_config 4 :: message list option manager"
  let ?gA = "opened list_buffer RemoveRequest 5 ?g"
  have g: "mg_inv ?gA"
    by (rule opened_inv [OF new_inv]) (simp_all add: InternalChannelManager_new_def)
  have s: "sendable_on RemoveRequest ?gA (0, sample_message)"
    by (simp add: sendable_on_def opened_channels InternalChannelManager_new_def InternalChannel_new_def)
  have a: "addressed ?gA [(0, sample_message), (0, sample_message)] = [(5, sample_message), (5, sample_message)]"
    by (simp add: addressed_def opened_channels InternalChannelManager_new_def InternalChannel_new_def)
  have xs: "\<forall>x \<in> set [(0, sample_message), (0, sample_message)]. sendable_on RemoveRequest ?gA x"
    using s by simp
  have B: "peer_ready 0 sample_connector sample_world" by simp
  have "\<exists>wA' es cn' wB'. write_all [(0, sample_message), (0, sample_message)] ?gA sample_world =
       Ret ([OkStatus, OkStatus], wA') \<and>
     Connector_runClient list_buffer 0 0 (Suc (Suc 0)) sample_connector (deliver 4 wA' 4 sample_world) =
       Ret (True, es, cn', wB') \<and>
     (\<forall>i. unat i < 1024 \<longrightarrow> queue (\<lambda>b. b) RemoveResponse (manager_of 0 cn') i =
       routed (addressed ?gA [(0, sample_message), (0, sample_message)]) i)"
    using multiplexing_keeps_order [OF fifo_list_buffer g _ _ _ _ _ xs B, where address = 0 and wA = sample_world]
    by (simp del: Connector_runClient.simps write_all.simps) blast
  then obtain wA' es cn' wB' where
    "write_all [(0, sample_message), (0, sample_message)] ?gA sample_world = Ret ([OkStatus, OkStatus], wA')"
    "Connector_runClient list_buffer 0 0 (Suc (Suc 0)) sample_connector (deliver 4 wA' 4 sample_world) =
       Ret (True, es, cn', wB')"
    and q: "\<forall>i. unat i < 1024 \<longrightarrow> queue (\<lambda>b. b) RemoveResponse (manager_of 0 cn') i =
       routed (addressed ?gA [(0, sample_message), (0, sample_message)]) i" by blast
  moreover have "queue (\<lambda>b. b) RemoveResponse (manager_of 0 cn') 5 = [sample_message, sample_message]"
    using q [rule_format, of 5] by (simp add: a)
  ultimately show ?thesis unfolding numeral_2_eq_2 by blast
qed

theorem request_response_round_trip_witness:
  "\<exists>q cnA1 wA1 rq cnB1 wB1 gB2 wB2 cnA2 wA2 gA3.
    Connector_sendRequest list_buffer 0 sample_connector = Ret ((OkStatus, Some (0, q)), cnA1) \<and>
    InternalRequest_sendMessage q sample_message (manager_of 0 cnA1) sample_world = Ret (OkStatus, wA1) \<and>
    Connector_runClient_turn list_buffer 0 0 sample_connector (deliver 4 wA1 4 sample_world) =
      Ret (True, [StartHandler ''default'' 0 rq], cnB1, wB1) \<and>
    InternalRequest_receiveMessage list_buffer rq (manager_of 0 cnB1) = Ret ((OkStatus, Some sample_message), gB2) \<and>
    InternalRequest_sendMessage rq sample_message gB2 wB1 = Ret (OkStatus, wB2) \<and>
    Connector_runClient_turn list_buffer 0 0 cnA1 (deliver 4 wB2 4 wA1) = Ret (True, [], cnA2, wA2) \<and>
    InternalRequest_receiveMessage list_buffer q (manager_of 0 cnA2) = Ret ((OkStatus, Some sample_message), gA3)"
proof -
  have cl: "cn_clients sample_connector 0 = Some 0" and ready: "peer_ready 0 sample_connector sample_world"
    and bo: "buffers_open (\<lambda>b. b) (manager_of 0 sample_connector)"
    and fd: "4 = cl_clientFd (client_of 0 sample_connector)"
    and quiet: "w_in sample_world 4 = []" "w_out sample_world 4 = []"
    and m: "wf_message sample_message" "body_len sample_message + 12 < 4294967296"
    by simp_all
  have free: "mg_freeList (manager_of 0 sample_connector) \<noteq> []"
    using mg_inv_free [OF new_inv, of 0 connector_config 4]
    by (auto simp: InternalChannelManager_new_def simp del: upt_rec_numeral)
  have empty: "\<forall>i. unat i < 1024 \<longrightarrow>
      queue (\<lambda>b. b) RemoveResponse (manager_of 0 sample_connector) i = []" by simp
  from request_response_round_trip [OF fifo_list_buffer cl ready bo free ready bo empty fd fd quiet quiet m m, of 0]
  show ?thesis by (simp only: sample_connector_simps)
qed


theorem disconnect_cleans_up_witness:
  "\<exists>cn' w'. Connector_runClient_turn list_buffer 0 0 sample_connector sample_world =
      Ret (False, [DisconnectCallback 0], cn', w') \<and> w_closes w' = [4]"
proof -
  have "TcpClient_receiveMessage (client_of 0 sample_connector) sample_world =
      ((InvalidArgumentError ''Error reading message header'', None), sample_world)"
    by (simp add: TcpClient_receiveMessage_def readMessage_def os_recv_def kMessageHeaderLength_def fun_upd_idem)
  from disconnect_cleans_up [OF sample_connector_inv _ this, of 0 list_buffer] show ?thesis by auto
qed

theorem second_message_second_handler_witness:
  "\<exists>x y cn' w' g w2. Connector_runClient list_buffer 0 0 2 sample_connector
      (sample_world\<lparr>w_in := (\<lambda>f. wire 16 [(3, sample_message), (3, sample_message)])\<rparr>) =
      Ret (True, [StartHandler ''default'' 0 x, StartHandler ''default'' 0 y], cn', w') \<and>
    ir_channel x = ir_channel y \<and>
    InternalRequest_destroy list_buffer x (manager_of 0 cn') w' = Ret (g, w2) \<and>
    InternalRequest_sendMessage y sample_message g w2 =
      Ret (FailedPreconditionError ''Channel is closed'', w2)"
  using second_message_second_handler [OF fifo_list_buffer, of 0 sample_connector
      "sample_world\<lparr>w_in := (\<lambda>f. wire 16 [(3, sample_message), (3, sample_message)])\<rparr>" 3
      sample_message sample_message 0 sample_message]
  by simp

theorem addClient_accepted_socket_witness:
  "Connector_addClient sample_client sample_connector sample_world =
     Ret (AlreadyExistsError ''Client already exists'', sample_connector, os_close 4 sample_world)"
  using addClient_accepted_socket [of sample_client sample_connector sample_world] by simp

theorem connector_dispatch_witness:
  "Connector_target 6 (snd (register_all Connector_addHandler [(5, ''five''), (6, ''six'')]
     (Connector_new ''default'' :: (message list option, string) connector))) = ''six''"
  using connector_dispatch [of "[(5, ''five''), (6, ''six'')]" 6 "''default''"] by simp

end
