(* ===== verification/Distributed.thy ===== *)
theory Distributed
  imports Servers Connector
begin

text \<open>
  \<^verbatim>\<open>servercc/distributed\<close>: the distributed server, which owns a TCP server, a UDP server, a
  connector and a multicast client, announces itself to a multicast group and connects to the
  servers that announce themselves.

  The handlers of its parts are lambdas that call its member functions; they are the constants
  of \<open>ds_handler\<close>. A handler of the user is a parameter (\<open>user\<close>): what it does with a request,
  the destruction of the request included. Calls of the connect and disconnect callbacks and
  threads started for handlers are events in the results.

  \<open>Undef\<close> also stands for the end of the process by an exception nobody catches (the call of an
  empty \<^verbatim>\<open>std::function\<close>) or by \<^verbatim>\<open>LOG(FATAL)\<close>.
\<close>

section \<open>Requests of every kind\<close>

datatype request =
    TcpReq tcp_request
  | UdpReq udp_request
  | InternalReq nat internal_request

primrec Request_getProtocol :: "request \<Rightarrow> protocol_t" where
  "Request_getProtocol (TcpReq r) = tr_protocol r"
| "Request_getProtocol (UdpReq r) = ur_protocol r"
| "Request_getProtocol (InternalReq k r) = ir_protocol r"

primrec Request_getAddr :: "request \<Rightarrow> sockaddr" where
  "Request_getAddr (TcpReq r) = tr_clientAddr r"
| "Request_getAddr (UdpReq r) = ur_clientAddr r"
| "Request_getAddr (InternalReq k r) = ir_addr r"

primrec Request_receiveMessage ::
    "'b message_buffer \<Rightarrow> request \<Rightarrow> ('b, 'h) connector \<Rightarrow> 'z world_scheme \<Rightarrow>
     ((status \<times> message option) \<times> request \<times> ('b, 'h) connector \<times> 'z world_scheme) outcome" where
  "Request_receiveMessage B (TcpReq r) cn w =
     (case TcpRequest_receiveMessage r w of (res, r, w) \<Rightarrow> Ret (res, TcpReq r, cn, w))"
| "Request_receiveMessage B (UdpReq r) cn w =
     (case UdpRequest_receiveMessage r of (res, r) \<Rightarrow> Ret (res, UdpReq r, cn, w))"
| "Request_receiveMessage B (InternalReq k r) cn w =
     bind_outcome (InternalRequest_receiveMessage B r (manager_of k cn)) (\<lambda>(res, g).
       Ret (res, InternalReq k r, put_manager k g cn, w))"

primrec Request_sendMessage ::
    "request \<Rightarrow> message \<Rightarrow> ('b, 'h) connector \<Rightarrow> 'z world_scheme \<Rightarrow>
     (status \<times> 'z world_scheme) outcome" where
  "Request_sendMessage (TcpReq r) m cn w = Ret (TcpRequest_sendMessage r m w)"
| "Request_sendMessage (UdpReq r) m cn w = Ret (UdpRequest_sendMessage r m, w)"
| "Request_sendMessage (InternalReq k r) m cn w = InternalRequest_sendMessage r m (manager_of k cn) w"

primrec Request_destroy ::
    "'b message_buffer \<Rightarrow> request \<Rightarrow> ('b, 'h) connector \<Rightarrow> 'z world_scheme \<Rightarrow>
     (('b, 'h) connector \<times> 'z world_scheme) outcome" where
  "Request_destroy B (TcpReq r) cn w = Ret (cn, TcpRequest_destroy r w)"
| "Request_destroy B (UdpReq r) cn w = Ret (cn, UdpRequest_terminate r w)"
| "Request_destroy B (InternalReq k r) cn w =
     bind_outcome (InternalRequest_destroy B r (manager_of k cn) w) (\<lambda>(g, w).
       Ret (put_manager k g cn, w))"

section \<open>The distributed server\<close>

datatype ds_handler = ForwardRequestToHandler | HandleConnect | HandleConnectAck

datatype ds_event =
    PeerConnect u32
  | PeerDisconnect u32
  | HandlerThread ds_handler request

record ('b, 'h) distributed_server =
  ds_interfaceName :: string
  ds_interfaces :: "string list"
  ds_group :: string
  ds_port :: u16
  ds_tcpServer :: "ds_handler server"
  ds_udpServer :: "ds_handler server"
  ds_connector :: "('b, ds_handler) connector"
  ds_multicastClient :: multicast_client
  ds_peers :: "u32 set"
  ds_handlers :: "protocol_t \<rightharpoonup> 'h option"
  ds_defaultHandler :: "'h option"
  ds_has_connect_callback :: bool
  ds_has_disconnect_callback :: bool

text \<open>
  A \<^verbatim>\<open>std::function\<close> may be empty, so a handler of the user is an option.

  The constructor. Its parameter is called \<^verbatim>\<open>default_handler\<close>, but the member is initialised by
  \<^verbatim>\<open>defaultHandler(defaultHandler)\<close>, with itself; \<open>self_init\<close> is what that leaves in the
  member. When the UDP server cannot be made, the TCP server is destroyed on the way out.
\<close>

definition DistributedServer_new ::
    "string \<Rightarrow> string \<Rightarrow> string list \<Rightarrow> u16 \<Rightarrow> 'h option \<Rightarrow> bool \<Rightarrow> bool \<Rightarrow> 'h option \<Rightarrow> 'z world_scheme \<Rightarrow>
     ((string + ('b, 'h) distributed_server) \<times> 'z world_scheme) outcome" where
  "DistributedServer_new interfaceName grp interfaces port default_handler
       has_connect has_disconnect self_init w =
     (case TcpServer_new port ForwardRequestToHandler w of
        (Inl e, w) \<Rightarrow> Ret (Inl e, w)
      | (Inr tcp, w) \<Rightarrow>
          (case UdpServer_new port grp interfaces ForwardRequestToHandler w of
             (Inl e, w) \<Rightarrow> Ret (Inl e, Server_destroy tcp w)
           | (Inr udp, w) \<Rightarrow>
               (case Server_addHandler kConnectRequestProtocol HandleConnect udp of (st, udp) \<Rightarrow>
                  if \<not> status_ok st then Undef
                  else case Server_addHandler kConnectAckRequestProtocol HandleConnectAck tcp of (st, tcp) \<Rightarrow>
                    if \<not> status_ok st then Undef
                    else Ret (Inr
                      \<lparr>ds_interfaceName = interfaceName, ds_interfaces = interfaces, ds_group = grp,
                       ds_port = port, ds_tcpServer = tcp, ds_udpServer = udp,
                       ds_connector = Connector_new ForwardRequestToHandler,
                       ds_multicastClient = MulticastClient_new interfaceName grp port 1,
                       ds_peers = {}, ds_handlers = Map.empty, ds_defaultHandler = self_init,
                       ds_has_connect_callback = has_connect,
                       ds_has_disconnect_callback = has_disconnect\<rparr>, w))))"

definition DistributedServer_addHandler ::
    "protocol_t \<Rightarrow> 'h option \<Rightarrow> ('b, 'h) distributed_server \<Rightarrow> status \<times> ('b, 'h) distributed_server" where
  "DistributedServer_addHandler p h d =
     (if ds_handlers d p \<noteq> None
      then (AlreadyExistsError ''Handler already exists for protocol'', d)
      else (OkStatus, d\<lparr>ds_handlers := (ds_handlers d)(p \<mapsto> h)\<rparr>))"

definition DistributedServer_multicastMessage ::
    "message \<Rightarrow> ('b, 'h) distributed_server \<Rightarrow> 'z world_scheme \<Rightarrow>
     (status \<times> ('b, 'h) distributed_server \<times> 'z world_scheme) outcome" where
  "DistributedServer_multicastMessage m d w =
     (case (if cl_isSocketOpen (ds_multicastClient d) then (OkStatus, ds_multicastClient d, w)
            else MulticastClient_openSocket (ds_multicastClient d) w) of (st, c, w) \<Rightarrow>
        let d = d\<lparr>ds_multicastClient := c\<rparr> in
        if \<not> status_ok st then Ret (InternalError ''Failed to open socket'', d, w)
        else bind_outcome (MulticastClient_sendMessage c m w) (\<lambda>(st, w). Ret (st, d, w)))"

text \<open>The connect message: the port in the memory order of a \<^verbatim>\<open>uint16_t\<close>.\<close>

definition connect_message :: "u16 \<Rightarrow> message" where
  "connect_message port = \<lparr>header = \<lparr>len = 2, protocol = kConnectRequestProtocol\<rparr>, data = le16 port\<rparr>"

definition DistributedServer_sendConnectMessage ::
    "('b, 'h) distributed_server \<Rightarrow> 'z world_scheme \<Rightarrow>
     (status \<times> ('b, 'h) distributed_server \<times> 'z world_scheme) outcome" where
  "DistributedServer_sendConnectMessage d w =
     DistributedServer_multicastMessage (connect_message (ds_port d)) d w"

definition DistributedServer_sendInternalRequest ::
    "'b message_buffer \<Rightarrow> u32 \<Rightarrow> ('b, 'h) distributed_server \<Rightarrow>
     ((status \<times> request option) \<times> ('b, 'h) distributed_server) outcome" where
  "DistributedServer_sendInternalRequest B address d =
     bind_outcome (Connector_sendRequest B address (ds_connector d)) (\<lambda>((st, q), cn).
       Ret ((st, map_option (\<lambda>(k, r). InternalReq k r) q), d\<lparr>ds_connector := cn\<rparr>))"

text \<open>
  \<^verbatim>\<open>run\<close> starts the threads of the two servers and then repeats the connect message until it is
  sent. The loop of the code has no other way out: its variable \<^verbatim>\<open>retries\<close> is never read. The
  value is \<open>None\<close> when the loop does not end.
\<close>

partial_function (option) connect_loop ::
    "('b, 'h) distributed_server \<Rightarrow> 'z world_scheme \<Rightarrow>
     (status \<times> ('b, 'h) distributed_server \<times> 'z world_scheme) outcome option" where
  "connect_loop d w =
     (case DistributedServer_sendConnectMessage d w of
        Ret (st, d, w) \<Rightarrow> if \<not> status_ok st then connect_loop d w else Some (Ret (OkStatus, d, w))
      | Undef \<Rightarrow> Some Undef
      | Block \<Rightarrow> Some Block)"

datatype ds_thread = TcpServerThread | UdpServerThread

definition DistributedServer_run ::
    "('b, 'h) distributed_server \<Rightarrow> 'z world_scheme \<Rightarrow>
     (ds_thread list \<times> (status \<times> ('b, 'h) distributed_server \<times> 'z world_scheme) outcome) option" where
  "DistributedServer_run d w =
     (case connect_loop d w of
        None \<Rightarrow> None
      | Some res \<Rightarrow> Some ([TcpServerThread, UdpServerThread], res))"

section \<open>Callbacks and handlers\<close>

definition DistributedServer_onConnectorDisconnect ::
    "u32 \<Rightarrow> ('b, 'h) distributed_server \<Rightarrow> ds_event list \<times> ('b, 'h) distributed_server" where
  "DistributedServer_onConnectorDisconnect ip d =
     (if ds_has_disconnect_callback d then [PeerDisconnect ip] else [],
      d\<lparr>ds_peers := ds_peers d - {ip}\<rparr>)"

definition DistributedServer_target :: "protocol_t \<Rightarrow> ('b, 'h) distributed_server \<Rightarrow> 'h option" where
  "DistributedServer_target p d =
     (case ds_handlers d p of None \<Rightarrow> ds_defaultHandler d | Some h \<Rightarrow> h)"

interpretation distributed_registry: handler_registry DistributedServer_addHandler
  "\<lambda>p d. ds_handlers d p \<noteq> None" DistributedServer_target
  by unfold_locales
    (auto simp: DistributedServer_addHandler_def DistributedServer_target_def split: option.split)

text \<open>The effect of the handlers of the user.\<close>

type_synonym ('b, 'h, 'w) user_handlers =
  "'h \<Rightarrow> request \<Rightarrow> ('b, 'h) distributed_server \<Rightarrow> 'w \<Rightarrow>
   (status \<times> ds_event list \<times> ('b, 'h) distributed_server \<times> 'w) outcome"

definition forwardRequestToHandler ::
    "('b, 'h, 'z world_scheme) user_handlers \<Rightarrow> request \<Rightarrow> ('b, 'h) distributed_server \<Rightarrow>
     'z world_scheme \<Rightarrow>
     (status \<times> ds_event list \<times> ('b, 'h) distributed_server \<times> 'z world_scheme) outcome" where
  "forwardRequestToHandler user req d w =
     (case DistributedServer_target (Request_getProtocol req) d of
        None \<Rightarrow> Undef
      | Some h \<Rightarrow> user h req d w)"

text \<open>The end of a handler: its request is destroyed and it returns.\<close>

definition finish ::
    "'b message_buffer \<Rightarrow> request \<Rightarrow> status \<Rightarrow> ds_event list \<Rightarrow> ('b, 'h) distributed_server \<Rightarrow>
     'z world_scheme \<Rightarrow>
     (status \<times> ds_event list \<times> ('b, 'h) distributed_server \<times> 'z world_scheme) outcome" where
  "finish B req st es d w =
     bind_outcome (Request_destroy B req (ds_connector d) w) (\<lambda>(cn, w).
       Ret (st, es, d\<lparr>ds_connector := cn\<rparr>, w))"

definition quoted :: "string \<Rightarrow> string" where
  "quoted s = CHR 0x27 # s @ [CHR 0x27]"

definition connectAck_message :: "protocol_t \<Rightarrow> message" where
  "connectAck_message p = \<lparr>header = \<lparr>len = 0, protocol = p\<rparr>, data = []\<rparr>"

text \<open>
  \<^verbatim>\<open>handleConnect\<close>. The local \<^verbatim>\<open>peerServer\<close> is destroyed on every way out after it was made,
  unless it was moved into \<^verbatim>\<open>addClient\<close>: then it is a null pointer, also when \<^verbatim>\<open>addClient\<close>
  refuses the client.
\<close>

definition handleConnect ::
    "'b message_buffer \<Rightarrow> request \<Rightarrow> ('b, 'h) distributed_server \<Rightarrow> 'z world_scheme \<Rightarrow>
     (status \<times> ds_event list \<times> ('b, 'h) distributed_server \<times> 'z world_scheme) outcome" where
  "handleConnect B req d w =
     bind_outcome (Request_receiveMessage B req (ds_connector d) w) (\<lambda>(p, req, cn, w).
       let d = d\<lparr>ds_connector := cn\<rparr> in
       ASSERT_OK_AND_ASSIGN p ''Failed to receive connect request'' (\<lambda>st. finish B req st [] d w)
        (\<lambda>message. case message of None \<Rightarrow> Undef | Some m \<Rightarrow>
          if body_len m \<noteq> 2 then finish B req (InternalError ''Invalid connect request length'') [] d w
          else bind_outcome (mem_read (data m) 0 2) (\<lambda>bs.
            let peerPort = un16 bs;
                peerIp = sin_addr (Request_getAddr req);
                ipStr = inet_ntop peerIp
            in case ds_interfaces d of
              [] \<Rightarrow> Undef
            | interface # _ \<Rightarrow>
                if interface = ipStr \<or> peerIp \<in> ds_peers d then finish B req OkStatus [] d w
                else bind_outcome (TcpClient_openSocket (TcpClient_new ipStr peerPort) w)
                  (\<lambda>(openStatus, peerServer, w).
                  if \<not> status_ok openStatus then
                    finish B req (InternalError (''Failed to open socket to peer server '' @
                        quoted ipStr @ '': '' @ status_message openStatus)) [] d
                      (TcpClient_destroy peerServer (os_close (cl_clientFd peerServer) w))
                  else bind_outcome
                    (TcpClient_sendMessage peerServer (connectAck_message kConnectAckRequestProtocol) w)
                    (\<lambda>(sendStatus, w).
                    if \<not> status_ok sendStatus then
                      finish B req (InternalError (''Failed to send connectAck to peer server '' @
                          quoted ipStr @ '': '' @ status_message sendStatus)) [] d
                        (TcpClient_destroy peerServer (os_close (cl_clientFd peerServer) w))
                    else case TcpClient_receiveMessage peerServer w of ((receiveStatus, ackResponse), w) \<Rightarrow>
                      if \<not> status_ok receiveStatus \<or>
                         protocol (header (the ackResponse)) \<noteq> kConnectAckResponseProtocol
                      then finish B req (InternalError (''Failed to receive connect end from peer server '' @
                               quoted ipStr @ '': '' @ status_message receiveStatus)) [] d
                             (TcpClient_destroy peerServer (os_close (cl_clientFd peerServer) w))
                      else bind_outcome (Connector_addClient peerServer (ds_connector d) w)
                        (\<lambda>(connectorStatus, cn, w).
                        if \<not> status_ok connectorStatus then Undef
                        else finish B req OkStatus
                               (if ds_has_connect_callback d then [PeerConnect peerIp] else [])
                               (d\<lparr>ds_connector := cn\<rparr>) w))))))"

text \<open>
  \<^verbatim>\<open>handleConnectAck\<close>. A request that is not a TCP request is released and never destroyed.
  \<^verbatim>\<open>setKeepAlive\<close> is called before \<^verbatim>\<open>addClient\<close> and takes the descriptor from the request.
\<close>

definition handleConnectAck ::
    "'b message_buffer \<Rightarrow> request \<Rightarrow> ('b, 'h) distributed_server \<Rightarrow> 'z world_scheme \<Rightarrow>
     (status \<times> ds_event list \<times> ('b, 'h) distributed_server \<times> 'z world_scheme) outcome" where
  "handleConnectAck B req d w =
     (let addr = Request_getAddr req;
          peerPort = swap16 (sin_port addr);
          peerIp = sin_addr addr;
          ipStr = inet_ntop peerIp
      in bind_outcome (Request_receiveMessage B req (ds_connector d) w) (\<lambda>(p, req, cn, w).
       let d = d\<lparr>ds_connector := cn\<rparr> in
       ASSERT_OK_AND_ASSIGN p ''Failed to receive connectAck request'' (\<lambda>st. finish B req st [] d w)
        (\<lambda>message.
         bind_outcome (Request_sendMessage req (connectAck_message kConnectAckResponseProtocol)
             (ds_connector d) w) (\<lambda>(sendStatus, w).
         ASSERT_OK sendStatus ''Failed to send connectAck to peer server'' (\<lambda>st. finish B req st [] d w)
          (case req of
             TcpReq tcpRequest \<Rightarrow>
               (case TcpRequest_setKeepAlive tcpRequest of (f, tcpRequest) \<Rightarrow>
                  bind_outcome (Connector_addClient (TcpClient_of_socket f ipStr peerPort addr)
                      (ds_connector d) w) (\<lambda>(connectorStatus, cn, w).
                    let d = d\<lparr>ds_connector := cn\<rparr> in
                    if \<not> status_ok connectorStatus then
                      (case TcpRequest_setKeepAlive tcpRequest of (f, tcpRequest) \<Rightarrow>
                         finish B (TcpReq tcpRequest) connectorStatus [] d (os_close f w))
                    else finish B (TcpReq tcpRequest) OkStatus
                           (if ds_has_connect_callback d then [PeerConnect peerIp] else []) d w))
           | _ \<Rightarrow> Ret (InternalError ''Failed to cast request to TcpRequest'', [], d, w))))))"

text \<open>The lambda of a part of the server, by its name.\<close>

primrec run_handler ::
    "('b, 'h, 'z world_scheme) user_handlers \<Rightarrow> 'b message_buffer \<Rightarrow> ds_handler \<Rightarrow> request \<Rightarrow>
     ('b, 'h) distributed_server \<Rightarrow> 'z world_scheme \<Rightarrow>
     (status \<times> ds_event list \<times> ('b, 'h) distributed_server \<times> 'z world_scheme) outcome" where
  "run_handler user B ForwardRequestToHandler req d w = forwardRequestToHandler user req d w"
| "run_handler user B HandleConnect req d w = handleConnect B req d w"
| "run_handler user B HandleConnectAck req d w = handleConnectAck B req d w"

section \<open>Turns of the servers\<close>

text \<open>
  The distributed server and the events so far are part of the state its handlers work on. A
  turn of one of its servers works on the server's table and hands requests to the lambdas.
\<close>

record ('b, 'h) ds_world = world +
  dw_server :: "('b, 'h) distributed_server"
  dw_events :: "ds_event list"

definition handler_effect ::
    "('b, 'h, ('b, 'h, 'z) ds_world_scheme) user_handlers \<Rightarrow> 'b message_buffer \<Rightarrow> ('r \<Rightarrow> request) \<Rightarrow>
     ds_handler \<Rightarrow> 'r \<Rightarrow> ('b, 'h, 'z) ds_world_scheme \<Rightarrow>
     (status \<times> ('b, 'h, 'z) ds_world_scheme) outcome" where
  "handler_effect user B kind h r w =
     bind_outcome (run_handler user B h (kind r) (dw_server w) w) (\<lambda>(st, es, d, w).
       Ret (st, w\<lparr>dw_server := d, dw_events := dw_events w @ es\<rparr>))"

definition DistributedServer_udp_turn ::
    "('b, 'h, ('b, 'h, 'z) ds_world_scheme) user_handlers \<Rightarrow> 'b message_buffer \<Rightarrow>
     ('b, 'h, 'z) ds_world_scheme \<Rightarrow> ('b, 'h, 'z) ds_world_scheme outcome" where
  "DistributedServer_udp_turn user B w =
     bind_outcome (UdpServer_run_turn (handler_effect user B UdpReq) (ds_udpServer (dw_server w)) w)
       (\<lambda>(s, w). Ret (w\<lparr>dw_server := (dw_server w)\<lparr>ds_udpServer := s\<rparr>\<rparr>))"

definition DistributedServer_tcp_turn ::
    "('b, 'h, ('b, 'h, 'z) ds_world_scheme) user_handlers \<Rightarrow> 'b message_buffer \<Rightarrow>
     ('b, 'h, 'z) ds_world_scheme \<Rightarrow> ('b, 'h, 'z) ds_world_scheme outcome" where
  "DistributedServer_tcp_turn user B w =
     bind_outcome (TcpServer_run_turn (handler_effect user B TcpReq) (ds_tcpServer (dw_server w)) w)
       (\<lambda>(s, w). Ret (w\<lparr>dw_server := (dw_server w)\<lparr>ds_tcpServer := s\<rparr>\<rparr>))"

text \<open>A turn of the read loop of a peer, with the disconnect callback the constructor installs.\<close>

primrec connector_events ::
    "ds_handler connector_event list \<Rightarrow> ('b, 'h) distributed_server \<Rightarrow>
     ds_event list \<times> ('b, 'h) distributed_server" where
  "connector_events [] d = ([], d)"
| "connector_events (e # es) d =
     (case (case e of
              StartHandler h k r \<Rightarrow> ([HandlerThread h (InternalReq k r)], d)
            | DisconnectCallback ip \<Rightarrow> DistributedServer_onConnectorDisconnect ip d) of
        (xs, d) \<Rightarrow> (case connector_events es d of (ys, d) \<Rightarrow> (xs @ ys, d)))"

definition DistributedServer_peer_turn ::
    "'b message_buffer \<Rightarrow> u32 \<Rightarrow> nat \<Rightarrow> ('b, 'h) distributed_server \<Rightarrow> 'z world_scheme \<Rightarrow>
     (bool \<times> ds_event list \<times> ('b, 'h) distributed_server \<times> 'z world_scheme) outcome" where
  "DistributedServer_peer_turn B address k d w =
     bind_outcome (Connector_runClient_turn B address k (ds_connector d) w) (\<lambda>(continue, es, cn, w).
       case connector_events es (d\<lparr>ds_connector := cn\<rparr>) of (es, d) \<Rightarrow> Ret (continue, es, d, w))"

section \<open>Announcing\<close>

lemma connect_message_simps [simp]:
  "header (connect_message p) = \<lparr>len = 2, protocol = 0\<rparr>" "data (connect_message p) = le16 p"
  "wf_message (connect_message p)"
  by (simp_all add: connect_message_def kConnectRequestProtocol_def wf_message_def)

lemma connectAck_message_simps [simp]:
  "header (connectAck_message p) = \<lparr>len = 0, protocol = p\<rparr>" "data (connectAck_message p) = []"
  "wf_message (connectAck_message p)" "frame (connectAck_message p) = encode_header \<lparr>len = 0, protocol = p\<rparr>"
  by (simp_all add: connectAck_message_def wf_message_def frame_def)

lemma os_answer_script:
  "os_answer x w = (a, w') \<Longrightarrow>
   (w_script w = [] \<and> a = x \<and> w' = w) \<or> (length (w_script w') < length (w_script w))"
  by (auto simp: os_answer_def split: list.splits)

text \<open>
  An attempt to send the connect message succeeds with the two datagrams on the wire, or has
  used up an answer of the kernel.
\<close>

definition multicast_ok :: "multicast_client \<Rightarrow> 'z world_scheme \<Rightarrow> bool" where
  "multicast_ok c w \<longleftrightarrow> 0 \<le> w_next w \<and> (cl_isSocketOpen c \<longrightarrow> w_open w (cl_clientFd c))"

lemma os_sendto_cases:
  assumes "os_sendto f bs dst w = (r, w')" "w_open w f"
  obtains (sent) "r = int (length bs)" "w_sent w' = w_sent w @ [(f, dst, bs)]" "w_open w' = w_open w"
      "w_next w' = w_next w" "length (w_script w') \<le> length (w_script w)"
  | (failed) "r = - 1" "length (w_script w') < length (w_script w)" "w_open w' = w_open w"
      "w_next w' = w_next w"
proof -
  obtain a w1 where a: "os_answer 0 w = (a, w1)" by fastforce
  note fr = os_answer_frame [OF a]
  from os_answer_script [OF a] have "length (w_script w1) < length (w_script w) \<or> (a = 0 \<and> w1 = w)" by auto
  then show ?thesis
    using assms a fr by (cases "a < 0") (auto simp: os_sendto_def intro: sent failed)
qed

lemma openSocket_cases:
  assumes "MulticastClient_openSocket c w = (st, c', w')" "\<not> cl_isSocketOpen c" "0 \<le> w_next w"
  obtains (opened) "st = OkStatus" "cl_isSocketOpen c'" "w_open w' (cl_clientFd c')" "0 \<le> w_next w'"
      "length (w_script w') \<le> length (w_script w)"
  | (failed) "st \<noteq> OkStatus" "c' = c" "length (w_script w') < length (w_script w)" "0 \<le> w_next w'"
proof -
  obtain a w1 where a: "os_answer 0 w = (a, w1)" by fastforce
  let ?w2 = "w1\<lparr>w_open := (w_open w1)(w_next w1 := True), w_next := w_next w1 + 1\<rparr>"
  obtain b w3 where b: "os_answer 0 ?w2 = (b, w3)" by fastforce
  obtain e w4 where e: "os_answer 0 w3 = (e, w4)" by fastforce
  have la: "a < 0 \<Longrightarrow> length (w_script w1) < length (w_script w)" "length (w_script w1) \<le> length (w_script w)"
    using os_answer_script [OF a] by auto
  have lb: "b < 0 \<Longrightarrow> length (w_script w3) < length (w_script w1)" "length (w_script w3) \<le> length (w_script w1)"
    using os_answer_script [OF b] by auto
  have le: "e < 0 \<Longrightarrow> length (w_script w4) < length (w_script w3)" "length (w_script w4) \<le> length (w_script w3)"
    using os_answer_script [OF e] by auto
  have nx: "w_next w1 = w_next w" "w_next w3 = w_next w + 1" "w_next w4 = w_next w + 1"
    using os_answer_frame(2) [OF a] os_answer_frame(2) [OF b] os_answer_frame(2) [OF e] by simp_all
  have op: "w_open w4 (w_next w)"
    using os_answer_frame(1) [OF b] os_answer_frame(1) [OF e] nx by simp
  show ?thesis
  proof (cases "a < 0")
    case False
    then show ?thesis
      using assms a b e la lb le op nx
      by (cases "b < 0"; cases "e < 0")
        (auto simp: MulticastClient_openSocket_def os_socket_def os_new_fd_def os_setsockopt_def
          os_control_def intro: opened failed)
  next
    case True
    then show ?thesis
      using assms a la nx
      by (auto simp: MulticastClient_openSocket_def os_socket_def intro: failed)
  qed
qed

text \<open>What was multicast: the header and the port, as two datagrams to one address.\<close>

definition announced_on :: "u16 \<Rightarrow> 'z world_scheme \<Rightarrow> bool" where
  "announced_on port w \<longleftrightarrow>
     (\<exists>pre f dst. w_sent w = pre @ [(f, dst, encode_header \<lparr>len = 2, protocol = kConnectRequestProtocol\<rparr>),
                                   (f, dst, le16 port)])"

lemma sendMessage_cases:
  assumes op: "cl_isSocketOpen c" "w_open w (cl_clientFd c)"
  obtains (sent) w' where "MulticastClient_sendMessage c (connect_message port) w = Ret (OkStatus, w')"
      "announced_on port w'"
  | (failed) st w' where "MulticastClient_sendMessage c (connect_message port) w = Ret (st, w')" "st \<noteq> OkStatus"
      "length (w_script w') < length (w_script w)" "w_open w' = w_open w" "w_next w' = w_next w"
proof -
  let ?f = "cl_clientFd c" and ?a = "cl_clientAddr c"
  let ?h = "encode_header \<lparr>len = 2, protocol = 0\<rparr>"
  obtain r w1 where s1: "os_sendto ?f ?h ?a w = (r, w1)" by fastforce
  obtain q w2 where s2: "os_sendto ?f (le16 port) ?a w1 = (q, w2)" by fastforce
  have run: "MulticastClient_sendMessage c (connect_message port) w =
      (if r < 8 then Ret (InternalError ''Failed to send message header'', w1)
       else if q < 2 then Ret (InternalError ''Failed to send message body'', w2) else Ret (OkStatus, w2))"
    using op s1 s2 by (simp add: MulticastClient_sendMessage_def kMessageHeaderLength_def mem_read_def)
  show ?thesis
  proof (rule os_sendto_cases [OF s1 op(2)], goal_cases sent1 failed1)
    case sent1
    then have "w_open w1 ?f" using op(2) by simp
    from s2 this show ?case
    proof (rule os_sendto_cases, goal_cases sent2 failed2)
      case sent2
      with sent1 run have "MulticastClient_sendMessage c (connect_message port) w = Ret (OkStatus, w2)" by simp
      then show ?case
        by (rule sent) (use sent1 sent2 in \<open>auto simp: announced_on_def kConnectRequestProtocol_def\<close>)
    next
      case failed2
      with sent1 run have "MulticastClient_sendMessage c (connect_message port) w =
          Ret (InternalError ''Failed to send message body'', w2)" by simp
      then show ?case by (rule failed) (use sent1 failed2 in simp_all)
    qed
  next
    case failed1
    with run have "MulticastClient_sendMessage c (connect_message port) w =
        Ret (InternalError ''Failed to send message header'', w1)" by simp
    then show ?case by (rule failed) (use failed1 in simp_all)
  qed
qed

lemma sendConnectMessage_cases:
  assumes ok: "multicast_ok (ds_multicastClient d) w"
  obtains (sent) d' w' where "DistributedServer_sendConnectMessage d w = Ret (OkStatus, d', w')"
      "announced_on (ds_port d) w'"
  | (failed) st d' w' where "DistributedServer_sendConnectMessage d w = Ret (st, d', w')" "st \<noteq> OkStatus"
      "length (w_script w') < length (w_script w)" "multicast_ok (ds_multicastClient d') w'" "ds_port d' = ds_port d"
proof -
  let ?c = "ds_multicastClient d"
  obtain st c w1 where op: "(if cl_isSocketOpen ?c then (OkStatus, ?c, w) else MulticastClient_openSocket ?c w) = (st, c, w1)"
    by (metis prod_cases3)
  have run: "DistributedServer_sendConnectMessage d w =
      (if st \<noteq> OkStatus then Ret (InternalError ''Failed to open socket'', d\<lparr>ds_multicastClient := c\<rparr>, w1)
       else bind_outcome (MulticastClient_sendMessage c (connect_message (ds_port d)) w1)
              (\<lambda>(st, w). Ret (st, d\<lparr>ds_multicastClient := c\<rparr>, w)))"
    using op by (simp add: DistributedServer_sendConnectMessage_def DistributedServer_multicastMessage_def Let_def)
  have "(st = OkStatus \<and> cl_isSocketOpen c \<and> w_open w1 (cl_clientFd c) \<and> 0 \<le> w_next w1 \<and>
         length (w_script w1) \<le> length (w_script w)) \<or>
        (st \<noteq> OkStatus \<and> c = ?c \<and> \<not> cl_isSocketOpen ?c \<and> 0 \<le> w_next w1 \<and>
         length (w_script w1) < length (w_script w))"
  proof (cases "cl_isSocketOpen ?c")
    case True
    with op ok show ?thesis by (auto simp: multicast_ok_def)
  next
    case False
    with op ok have mc: "MulticastClient_openSocket ?c w = (st, c, w1)" "0 \<le> w_next w"
      by (simp_all add: multicast_ok_def)
    show ?thesis by (rule openSocket_cases [OF mc(1) False mc(2)]) (use False in simp_all)
  qed
  then consider (ready) "st = OkStatus" "cl_isSocketOpen c" "w_open w1 (cl_clientFd c)" "0 \<le> w_next w1"
      "length (w_script w1) \<le> length (w_script w)"
    | (closed) "st \<noteq> OkStatus" "c = ?c" "\<not> cl_isSocketOpen ?c" "0 \<le> w_next w1"
      "length (w_script w1) < length (w_script w)" by blast
  then show ?thesis
  proof cases
    case closed
    with run have "DistributedServer_sendConnectMessage d w =
        Ret (InternalError ''Failed to open socket'', d, w1)" by simp
    then show ?thesis by (rule failed) (use closed in \<open>auto simp: multicast_ok_def\<close>)
  next
    case ready
    show ?thesis
    proof (rule sendMessage_cases [OF ready(2,3), of "ds_port d"], goal_cases s f)
      case (s w')
      with run ready have "DistributedServer_sendConnectMessage d w =
          Ret (OkStatus, d\<lparr>ds_multicastClient := c\<rparr>, w')" by simp
      then show ?case by (rule sent) (rule s(2))
    next
      case (f st' w')
      with run ready have "DistributedServer_sendConnectMessage d w =
          Ret (st', d\<lparr>ds_multicastClient := c\<rparr>, w')" by simp
      then show ?case by (rule failed) (use f ready in \<open>auto simp: multicast_ok_def\<close>)
    qed
  qed
qed

lemma connect_loop_sends:
  "multicast_ok (ds_multicastClient d) w \<Longrightarrow>
   \<exists>d' w'. connect_loop d w = Some (Ret (OkStatus, d', w')) \<and> announced_on (ds_port d) w'"
proof (induction "length (w_script w)" arbitrary: d w rule: less_induct)
  case less
  show ?case
  proof (rule sendConnectMessage_cases [OF less.prems], goal_cases s f)
    case (s d' w')
    then show ?case by (simp add: connect_loop.simps [of d w])
  next
    case (f st d' w')
    with less.hyps [OF f(3,4)] show ?case by (simp add: connect_loop.simps [of d w])
  qed
qed

section \<open>Connecting to a server that announced itself\<close>

text \<open>The client after a connection to the first address, and the world with its descriptor.\<close>

definition peer_client :: "string \<Rightarrow> u16 \<Rightarrow> 'z world_scheme \<Rightarrow> client" where
  "peer_client host port w =
     \<lparr>cl_serverAddress = host, cl_port = port, cl_clientFd = w_next w, cl_isSocketOpen = True,
      cl_clientAddr = ai_addr (w_freed w)\<rparr>"

definition connected_to :: "addrinfo \<Rightarrow> 'z world_scheme \<Rightarrow> 'z world_scheme" where
  "connected_to p w =
     w\<lparr>w_open := (w_open w)(w_next w := True), w_next := w_next w + 1,
       w_connected := (w_connected w)(w_next w := Some (ai_addr p))\<rparr>"

text \<open>What the handshake needs of the network: the announced server can be reached.\<close>

definition reachable :: "string \<Rightarrow> u16 \<Rightarrow> addrinfo \<Rightarrow> 'z world_scheme \<Rightarrow> bool" where
  "reachable host port p w \<longleftrightarrow>
     w_script w = [] \<and> 0 \<le> w_next w \<and> ai_addrlen (w_freed w) \<le> sizeof_sockaddr \<and>
     (\<exists>ps. w_resolve w (Some host) (to_string (int (unat port))) = Some (p # ps))"

lemma connected_to_simps [simp]:
  "w_open (connected_to p w) = (w_open w)(w_next w := True)" "w_script (connected_to p w) = w_script w"
  "w_in (connected_to p w) = w_in w" "w_out (connected_to p w) = w_out w"
  "w_next (connected_to p w) = w_next w + 1" "w_freed (connected_to p w) = w_freed w"
  "w_closes (connected_to p w) = w_closes w"
  "w_connected (connected_to p w) = (w_connected w)(w_next w := Some (ai_addr p))"
  by (simp_all add: connected_to_def)

lemma openSocket_reachable:
  assumes "reachable host port p w"
  shows "TcpClient_openSocket (TcpClient_new host port) w =
    Ret (OkStatus, peer_client host port w, connected_to p w)"
  using assms
  by (auto simp: reachable_def TcpClient_openSocket_def TcpClient_new_def Client_new_def
      os_socket_def os_new_fd_def os_connect_def os_control_def peer_client_def connected_to_def)

lemma sendMessage_ack:
  assumes "w_script w = []" "w_open w (cl_clientFd c)" "cl_clientFd c \<noteq> - 1"
  shows "TcpClient_sendMessage c (connectAck_message p) w = Ret (OkStatus,
    w\<lparr>w_out := (w_out w)(cl_clientFd c := w_out w (cl_clientFd c) @ frame (connectAck_message p))\<rparr>)"
  using assms
  by (simp add: TcpClient_sendMessage_def os_send_no_fault mem_read_def kMessageHeaderLength_def)

lemma receiveMessage_frame:
  assumes "w_script w = []" "w_open w (cl_clientFd c)" "cl_clientFd c \<noteq> - 1" "wf_message m"
    "w_in w (cl_clientFd c) = frame m @ rest"
  shows "TcpClient_receiveMessage c w =
    ((OkStatus, Some m), w\<lparr>w_in := (w_in w)(cl_clientFd c := rest)\<rparr>)"
  using assms readMessage_complete [of w "cl_clientFd c" m rest] by (simp add: TcpClient_receiveMessage_def)

text \<open>The world after the acknowledgement was sent and the answer received.\<close>

definition acknowledged :: "addrinfo \<Rightarrow> byte list \<Rightarrow> 'z world_scheme \<Rightarrow> 'z world_scheme" where
  "acknowledged p rest w =
     (connected_to p w)
       \<lparr>w_out := (w_out w)(w_next w := w_out w (w_next w) @ frame (connectAck_message kConnectAckRequestProtocol)),
        w_in := (w_in w)(w_next w := rest)\<rparr>"

lemma same_connector [simp]: "d\<lparr>ds_connector := ds_connector d\<rparr> = d"
  by simp

lemma handleConnect_handshake:
  assumes d: "ds_interfaces d = i # is" "i \<noteq> inet_ntop (sin_addr src)" "sin_addr src \<notin> ds_peers d"
    and net: "reachable (inet_ntop (sin_addr src)) port p w"
    and answer: "w_in w (w_next w) = frame (connectAck_message kConnectAckResponseProtocol) @ rest"
  shows "handleConnect B (UdpReq (UdpRequest_new src (connect_message port))) d w =
    (case cn_clients (ds_connector d) (sin_addr (ai_addr (w_freed w))) of
       Some k \<Rightarrow> Undef
     | None \<Rightarrow> Ret (OkStatus, if ds_has_connect_callback d then [PeerConnect (sin_addr src)] else [],
         d\<lparr>ds_connector := (ds_connector d)
            \<lparr>cn_clients := (cn_clients (ds_connector d))
               (sin_addr (ai_addr (w_freed w)) \<mapsto> length (cn_objects (ds_connector d))),
             cn_objects := cn_objects (ds_connector d) @
               [\<lparr>ic_client = peer_client (inet_ntop (sin_addr src)) port w,
                 ic_channelManager = InternalChannelManager_new connector_config (w_next w)\<rparr>]\<rparr>\<rparr>,
         acknowledged p rest w))"
proof -
  let ?host = "inet_ntop (sin_addr src)" and ?c = "peer_client (inet_ntop (sin_addr src)) port w"
  let ?w1 = "connected_to p w"
  let ?w2 = "?w1\<lparr>w_out := (w_out ?w1)(cl_clientFd ?c := w_out ?w1 (cl_clientFd ?c) @
    frame (connectAck_message kConnectAckRequestProtocol))\<rparr>"
  have c: "cl_clientFd ?c = w_next w" "cl_isSocketOpen ?c" "cl_clientFd ?c \<noteq> - 1"
    "getClientInAddr ?c = sin_addr (ai_addr (w_freed w))"
    using net by (simp_all add: peer_client_def reachable_def getClientInAddr_def)
  have rcv: "Request_receiveMessage B (UdpReq (UdpRequest_new src (connect_message port))) (ds_connector d) w =
      Ret ((OkStatus, Some (connect_message port)),
        UdpReq ((UdpRequest_new src (connect_message port))\<lparr>ur_message := None\<rparr>), ds_connector d, w)"
    by (simp add: UdpRequest_receiveMessage_def UdpRequest_new_def)
  have send: "TcpClient_sendMessage ?c (connectAck_message kConnectAckRequestProtocol) ?w1 = Ret (OkStatus, ?w2)"
    using net c(1,3) by (intro sendMessage_ack) (simp_all add: reachable_def)
  have ack: "TcpClient_receiveMessage ?c ?w2 =
      ((OkStatus, Some (connectAck_message kConnectAckResponseProtocol)), acknowledged p rest w)"
    using net c(1,3) answer receiveMessage_frame [of ?w2 ?c "connectAck_message kConnectAckResponseProtocol" rest]
    by (simp add: reachable_def acknowledged_def connected_to_def)
  note add = addClient_open [OF c(2,3), of "ds_connector d" "acknowledged p rest w"]
  show ?thesis
    using d rcv openSocket_reachable [OF net] send ack add c
    by (simp add: handleConnect_def Let_def mem_read_def finish_def UdpRequest_new_def UdpRequest_terminate_def
        split: option.split)
qed

lemma handleConnectAck_accept:
  assumes kernel: "w_script w = []" "w_open w f" "0 \<le> f"
  shows "handleConnectAck B (TcpReq (TcpRequest_new f src m)) d w =
    (let w1 = w\<lparr>w_out := (w_out w)(f := w_out w f @ frame (connectAck_message kConnectAckResponseProtocol))\<rparr>
     in case cn_clients (ds_connector d) (sin_addr src) of
       Some k \<Rightarrow> Ret (AlreadyExistsError ''Client already exists'', [], d, os_close f (os_close f w1))
     | None \<Rightarrow> Ret (OkStatus, if ds_has_connect_callback d then [PeerConnect (sin_addr src)] else [],
         d\<lparr>ds_connector := (ds_connector d)
            \<lparr>cn_clients := (cn_clients (ds_connector d))(sin_addr src \<mapsto> length (cn_objects (ds_connector d))),
             cn_objects := cn_objects (ds_connector d) @
               [\<lparr>ic_client = TcpClient_of_socket f (inet_ntop (sin_addr src)) (swap16 (sin_port src)) src,
                 ic_channelManager = InternalChannelManager_new connector_config f\<rparr>]\<rparr>\<rparr>, w1))"
proof -
  let ?c = "TcpClient_of_socket f (inet_ntop (sin_addr src)) (swap16 (sin_port src)) src"
  let ?w1 = "w\<lparr>w_out := (w_out w)(f := w_out w f @ frame (connectAck_message kConnectAckResponseProtocol))\<rparr>"
  have c: "cl_isSocketOpen ?c" "cl_clientFd ?c \<noteq> - 1" "getClientInAddr ?c = sin_addr src" "cl_clientFd ?c = f"
    using kernel(3) by (simp_all add: TcpClient_of_socket_def Client_new_addr_def getClientInAddr_def)
  have send: "writeMessage f (connectAck_message kConnectAckResponseProtocol) w = (OkStatus, ?w1)"
    using writeMessage_no_fault [OF kernel, of "connectAck_message kConnectAckResponseProtocol"]
    by (simp add: sync_length_wf)
  note add = addClient_open [OF c(1,2), of "ds_connector d" ?w1]
  show ?thesis
    using send add c
    by (simp add: handleConnectAck_def TcpRequest_receiveMessage_def TcpRequest_new_def
        TcpRequest_sendMessage_def TcpRequest_setKeepAlive_def finish_def TcpRequest_destroy_def
        TcpRequest_terminate_def Let_def split: option.split)
qed

text \<open>A connector with one more peer.\<close>

definition with_peer :: "u32 \<Rightarrow> client \<Rightarrow> ('b, 'h) connector \<Rightarrow> ('b, 'h) connector" where
  "with_peer a c cn =
     cn\<lparr>cn_clients := (cn_clients cn)(a \<mapsto> length (cn_objects cn)),
        cn_objects := cn_objects cn @
          [\<lparr>ic_client = c, ic_channelManager = InternalChannelManager_new connector_config (cl_clientFd c)\<rparr>]\<rparr>"

text \<open>The turns of the two servers that shake hands.\<close>

lemma udp_turn_connects:
  assumes d: "d = dw_server w" "ds_interfaces d = i # is" "i \<noteq> inet_ntop (sin_addr src)"
      "sin_addr src \<notin> ds_peers d"
    and udp: "srv_handlers (ds_udpServer d) kConnectRequestProtocol = Some (Some HandleConnect)"
      "w_open w (srv_serverSocketFd (ds_udpServer d))"
      "w_dgrams w (srv_serverSocketFd (ds_udpServer d)) =
         (src, encode_header \<lparr>len = 2, protocol = kConnectRequestProtocol\<rparr>) # (src, le16 port) # ds"
    and net: "reachable (inet_ntop (sin_addr src)) port p w"
    and answer: "w_in w (w_next w) = frame (connectAck_message kConnectAckResponseProtocol) @ rest"
    and fresh: "cn_clients (ds_connector d) (sin_addr (ai_addr (w_freed w))) = None"
  shows "\<exists>w'. DistributedServer_udp_turn user B w = Ret w' \<and>
    ds_connector (dw_server w') = with_peer (sin_addr (ai_addr (w_freed w)))
      (peer_client (inet_ntop (sin_addr src)) port w) (ds_connector d) \<and>
    ds_handlers (dw_server w') = ds_handlers d \<and> ds_defaultHandler (dw_server w') = ds_defaultHandler d \<and>
    w_connected w' = (w_connected w)(w_next w := Some (ai_addr p)) \<and>
    w_open w' = (w_open w)(w_next w := True) \<and> w_script w' = [] \<and> w_in w' = (w_in w)(w_next w := rest) \<and>
    w_out w' = (w_out w)(w_next w := w_out w (w_next w) @ frame (connectAck_message kConnectAckRequestProtocol)) \<and>
    dw_events w' = dw_events w @ (if ds_has_connect_callback d then [PeerConnect (sin_addr src)] else [])"
proof -
  let ?s = "ds_udpServer d" and ?m = "connect_message port"
  let ?w1 = "w\<lparr>w_dgrams := (w_dgrams w)(srv_serverSocketFd ?s := ds)\<rparr>"
  have target: "Server_target 0 ?s = HandleConnect"
    using udp(1) by (simp add: Server_target_def Server_lookup_def kConnectRequestProtocol_def)
  have net1: "reachable (inet_ntop (sin_addr src)) port p ?w1" using net by (simp add: reachable_def)
  have answer1: "w_in ?w1 (w_next ?w1) = frame (connectAck_message kConnectAckResponseProtocol) @ rest"
    using answer by simp
  have turn: "UdpServer_run_turn (handler_effect user B UdpReq) ?s w =
      bind_outcome (handler_effect user B UdpReq HandleConnect (UdpRequest_new src ?m) ?w1)
        (\<lambda>(st, w). Ret (snd (Server_lookup 0 ?s), w))"
    using UdpServer_turn_pair [of w ?s ?m src ds "handler_effect user B UdpReq"] udp net target
    by (simp add: reachable_def kConnectRequestProtocol_def)
  note hc = handleConnect_handshake [OF d(2-4) net1 answer1, of B]
  show ?thesis
    using turn hc d udp fresh net
    by (simp add: DistributedServer_udp_turn_def handler_effect_def peer_client_def acknowledged_def
        connected_to_def with_peer_def reachable_def)
qed

lemma tcp_turn_accepts:
  assumes d: "d = dw_server w"
      "srv_handlers (ds_tcpServer d) kConnectAckRequestProtocol = Some (Some HandleConnectAck)"
    and kernel: "w_script w = []" "0 \<le> w_next w"
      "w_conns w (srv_serverSocketFd (ds_tcpServer d)) = src # cs"
      "w_in w (w_next w) = frame (connectAck_message kConnectAckRequestProtocol) @ rest"
    and fresh: "cn_clients (ds_connector d) (sin_addr src) = None"
  shows "\<exists>w'. DistributedServer_tcp_turn user B w = Ret w' \<and>
    ds_connector (dw_server w') = with_peer (sin_addr src)
      (TcpClient_of_socket (w_next w) (inet_ntop (sin_addr src)) (swap16 (sin_port src)) src) (ds_connector d) \<and>
    ds_handlers (dw_server w') = ds_handlers d \<and> ds_defaultHandler (dw_server w') = ds_defaultHandler d \<and>
    w_open w' = (w_open w)(w_next w := True) \<and> w_script w' = [] \<and> w_in w' = (w_in w)(w_next w := rest) \<and>
    w_out w' = (w_out w)(w_next w := w_out w (w_next w) @ frame (connectAck_message kConnectAckResponseProtocol)) \<and>
    dw_events w' = dw_events w @ (if ds_has_connect_callback d then [PeerConnect (sin_addr src)] else [])"
proof -
  let ?f = "w_next w" and ?m = "connectAck_message kConnectAckRequestProtocol" and ?s = "ds_tcpServer d"
  let ?w1 = "w\<lparr>w_conns := (w_conns w)(srv_serverSocketFd ?s := cs), w_open := (w_open w)(?f := True), w_next := ?f + 1\<rparr>"
  let ?w2 = "?w1\<lparr>w_in := (w_in w)(?f := rest)\<rparr>"
  have acc: "os_accept (srv_serverSocketFd ?s) w = Ret (?f, Some src, ?w1)"
    using kernel by (simp add: os_accept_def os_new_fd_def)
  have rd: "readMessage ?f ?w1 = ((OkStatus, Some ?m), ?w2)"
    using readMessage_complete [of ?w1 ?f ?m rest] kernel by simp
  have target: "Server_target kConnectAckRequestProtocol ?s = HandleConnectAck"
    using d(2) by (simp add: Server_target_def Server_lookup_def)
  have w2: "w_script ?w2 = []" "w_open ?w2 ?f" "0 \<le> ?f" using kernel by simp_all
  note ha = handleConnectAck_accept [OF w2, of B src ?m d]
  have turn: "TcpServer_run_turn (handler_effect user B TcpReq) ?s w =
      bind_outcome (handler_effect user B TcpReq HandleConnectAck (TcpRequest_new ?f src ?m) ?w2)
        (\<lambda>(st, w). Ret (snd (Server_lookup kConnectAckRequestProtocol ?s), w))"
    using acc rd target kernel(2)
    by (simp add: TcpServer_run_turn_def Server_handleRequest_target bind_outcome_assoc Let_def
        TcpRequest_new_def case_prod_beta')
  show ?thesis
    using turn ha d fresh kernel
    by (simp add: DistributedServer_tcp_turn_def handler_effect_def with_peer_def Let_def
        TcpClient_of_socket_def Client_new_addr_def)
qed

section \<open>Properties\<close>

text \<open>
  C26. Starting a server: whatever the kernel refuses, \<^verbatim>\<open>run\<close> keeps trying and returns OK with
  both server threads started and the announcement (the connect header and the port) multicast
  as two datagrams. It never gives up, however many attempts fail; the variable \<^verbatim>\<open>retries\<close> has
  no effect.
\<close>

theorem run_announces:
  assumes "multicast_ok (ds_multicastClient d) w"
  shows "\<exists>d' w'. DistributedServer_run d w =
      Some ([TcpServerThread, UdpServerThread], Ret (OkStatus, d', w')) \<and> announced_on (ds_port d) w'"
  using connect_loop_sends [OF assms] by (auto simp: DistributedServer_run_def)

text \<open>
  An announcement connects two servers: the two datagrams of \<open>run_announces\<close>, received by the
  UDP server of another server, make it connect to the announced port at the sender's address,
  send its acknowledgement, and after the answer keep the connection in its connector and call
  the connect callback once.
\<close>

theorem announcement_connects:
  assumes d: "d = dw_server w" "ds_interfaces d = i # is" "i \<noteq> inet_ntop (sin_addr src)"
      "sin_addr src \<notin> ds_peers d" "ds_has_connect_callback d"
    and udp: "srv_handlers (ds_udpServer d) kConnectRequestProtocol = Some (Some HandleConnect)"
      "w_open w (srv_serverSocketFd (ds_udpServer d))"
      "w_dgrams w (srv_serverSocketFd (ds_udpServer d)) =
         (src, encode_header \<lparr>len = 2, protocol = kConnectRequestProtocol\<rparr>) # (src, le16 port) # ds"
    and net: "reachable (inet_ntop (sin_addr src)) port p w"
    and answer: "w_in w (w_next w) = frame (connectAck_message kConnectAckResponseProtocol) @ rest"
    and fresh: "cn_clients (ds_connector d) (sin_addr (ai_addr (w_freed w))) = None"
  shows "\<exists>w'. DistributedServer_udp_turn user B w = Ret w' \<and>
    cn_clients (ds_connector (dw_server w')) = (cn_clients (ds_connector d))
      (sin_addr (ai_addr (w_freed w)) \<mapsto> length (cn_objects (ds_connector d))) \<and>
    cl_clientFd (client_of (length (cn_objects (ds_connector d))) (ds_connector (dw_server w'))) = w_next w \<and>
    w_connected w' (w_next w) = Some (ai_addr p) \<and>
    w_out w' (w_next w) = w_out w (w_next w) @ frame (connectAck_message kConnectAckRequestProtocol) \<and>
    dw_events w' = dw_events w @ [PeerConnect (sin_addr src)]"
  using udp_turn_connects [OF d(1-4) udp net answer fresh, of user B] d(5)
  by (auto simp: with_peer_def peer_client_def)

text \<open>
  The other side: the connect acknowledgement on an accepted connection is answered on that
  connection, which becomes a client of the connector under the sender's address, still open;
  the request gives its descriptor away.
\<close>

theorem connectAck_accepts:
  assumes kernel: "w_script w = []" "w_open w f" "0 \<le> f"
    and fresh: "cn_clients (ds_connector d) (sin_addr src) = None"
  shows "\<exists>d' w'. handleConnectAck B (TcpReq (TcpRequest_new f src m)) d w =
      Ret (OkStatus, if ds_has_connect_callback d then [PeerConnect (sin_addr src)] else [], d', w') \<and>
    cn_clients (ds_connector d') = (cn_clients (ds_connector d))
      (sin_addr src \<mapsto> length (cn_objects (ds_connector d))) \<and>
    cl_clientFd (client_of (length (cn_objects (ds_connector d))) (ds_connector d')) = f \<and>
    w_out w' f = w_out w f @ frame (connectAck_message kConnectAckResponseProtocol) \<and>
    w_open w' = w_open w \<and> w_closes w' = w_closes w"
  using handleConnectAck_accept [OF kernel, of B src m d] fresh
  by (simp add: Let_def TcpClient_of_socket_def Client_new_addr_def)

text \<open>
  When the address is known already, the new connection is refused with an error, and its
  descriptor is closed twice: by the destruction of the client in \<^verbatim>\<open>addClient\<close> and by
  \<^verbatim>\<open>handleConnectAck\<close> itself.
\<close>

theorem connectAck_duplicate_closes_twice:
  assumes kernel: "w_script w = []" "w_open w f" "0 \<le> f"
    and known: "cn_clients (ds_connector d) (sin_addr src) = Some k"
  shows "\<exists>w'. handleConnectAck B (TcpReq (TcpRequest_new f src m)) d w =
      Ret (AlreadyExistsError ''Client already exists'', [], d, w') \<and> w_closes w' = f # f # w_closes w"
  using handleConnectAck_accept [OF kernel, of B src m d] known
  by (simp add: Let_def os_close_def)

text \<open>
  C28. A server that announces itself twice brings down the servers it is connected to. The
  first announcement connects; the set of peers stays empty, so the second one is not
  recognised, runs the handshake again, is refused by the connector, and the handler then uses
  the client pointer it has moved away.
\<close>

theorem second_announcement_crashes:
  assumes d: "ds_interfaces d = i # is" "i \<noteq> inet_ntop (sin_addr src)" "sin_addr src \<notin> ds_peers d"
    and first: "reachable (inet_ntop (sin_addr src)) port p w"
      "w_in w (w_next w) = frame (connectAck_message kConnectAckResponseProtocol) @ rest"
      "cn_clients (ds_connector d) (sin_addr (ai_addr (w_freed w))) = None"
    and second: "reachable (inet_ntop (sin_addr src)) port p v"
      "w_in v (w_next v) = frame (connectAck_message kConnectAckResponseProtocol) @ rest"
      "ai_addr (w_freed v) = ai_addr (w_freed w)"
  shows "\<exists>es d' w'. handleConnect B (UdpReq (UdpRequest_new src (connect_message port))) d w =
      Ret (OkStatus, es, d', w') \<and> ds_peers d' = ds_peers d \<and>
    handleConnect B (UdpReq (UdpRequest_new src (connect_message port))) d' v = Undef"
proof -
  obtain es d' w' where h: "handleConnect B (UdpReq (UdpRequest_new src (connect_message port))) d w =
      Ret (OkStatus, es, d', w')" "ds_peers d' = ds_peers d" "ds_interfaces d' = i # is"
    "cn_clients (ds_connector d') (sin_addr (ai_addr (w_freed v))) = Some (length (cn_objects (ds_connector d)))"
    using handleConnect_handshake [OF d first(1,2), of B] first(3) second(3) d(1) by simp
  have "handleConnect B (UdpReq (UdpRequest_new src (connect_message port))) d' v = Undef"
    using handleConnect_handshake [OF h(3) d(2) _ second(1,2), of B] h(2,4) d(3) by simp
  with h show ?thesis by blast
qed

lemma TcpServer_new_handlers:
  "TcpServer_new port h w = (Inr s, w') \<Longrightarrow> srv_handlers s = Map.empty \<and> srv_defaultHandler s = h"
  by (auto simp: TcpServer_new_def split: option.splits prod.splits if_splits)

lemma UdpServer_new_handlers:
  "UdpServer_new port grp is h w = (Inr s, w') \<Longrightarrow> srv_handlers s = Map.empty \<and> srv_defaultHandler s = h"
  by (auto simp: UdpServer_new_def split: option.splits prod.splits)

lemma DistributedServer_new_cases:
  assumes "DistributedServer_new name grp is port dh hc hdis x w = res"
  obtains (failed) e w' where "res = Ret (Inl e, w')"
  | (made) tcp udp w1 w2 where "TcpServer_new port ForwardRequestToHandler w = (Inr tcp, w1)"
      "UdpServer_new port grp is ForwardRequestToHandler w1 = (Inr udp, w2)"
      "res = Ret (Inr \<lparr>ds_interfaceName = name, ds_interfaces = is, ds_group = grp, ds_port = port,
         ds_tcpServer = tcp\<lparr>srv_handlers := [kConnectAckRequestProtocol \<mapsto> Some HandleConnectAck]\<rparr>,
         ds_udpServer = udp\<lparr>srv_handlers := [kConnectRequestProtocol \<mapsto> Some HandleConnect]\<rparr>,
         ds_connector = Connector_new ForwardRequestToHandler,
         ds_multicastClient = MulticastClient_new name grp port 1,
         ds_peers = {}, ds_handlers = Map.empty, ds_defaultHandler = x,
         ds_has_connect_callback = hc, ds_has_disconnect_callback = hdis\<rparr>, w2)"
proof -
  obtain t w1 where t: "TcpServer_new port ForwardRequestToHandler w = (t, w1)" by fastforce
  show ?thesis
  proof (cases t)
    case (Inl e)
    with t assms show ?thesis by (intro failed) (auto simp: DistributedServer_new_def)
  next
    case (Inr tcp)
    obtain u w2 where u: "UdpServer_new port grp is ForwardRequestToHandler w1 = (u, w2)" by fastforce
    show ?thesis
    proof (cases u)
      case (Inl e)
      with t u Inr assms show ?thesis by (intro failed) (auto simp: DistributedServer_new_def)
    next
      case udp: (Inr udp)
      with t u Inr have "srv_handlers tcp = Map.empty" "srv_handlers udp = Map.empty"
        using TcpServer_new_handlers UdpServer_new_handlers by metis+
      with t u Inr udp assms show ?thesis
        by (intro made [of tcp w1 udp w2]) (simp_all add: DistributedServer_new_def Server_addHandler_def)
    qed
  qed
qed

text \<open>
  The constructor: it either throws the error of one of its servers or makes a server in
  which connect requests go to \<^verbatim>\<open>handleConnect\<close> on the UDP side, connect acknowledgements to
  \<^verbatim>\<open>handleConnectAck\<close> on the TCP side and everything else to \<^verbatim>\<open>forwardRequestToHandler\<close>. Installing
  the two handlers cannot fail, so \<^verbatim>\<open>LOG(FATAL)\<close> is never reached.
\<close>

theorem constructor_installs_handlers:
  fixes w :: "'c world_scheme"
  shows
  "\<exists>(res :: string + ('b, 'h) distributed_server) w'.
    DistributedServer_new name grp is port dh hc hdis x w = Ret (res, w') \<and>
    (case res of
       Inl e \<Rightarrow> True
     | Inr d \<Rightarrow>
         Server_target p (ds_udpServer d) =
           (if p = kConnectRequestProtocol then HandleConnect else ForwardRequestToHandler) \<and>
         Server_target p (ds_tcpServer d) =
           (if p = kConnectAckRequestProtocol then HandleConnectAck else ForwardRequestToHandler) \<and>
         Connector_target p (ds_connector d) = ForwardRequestToHandler \<and>
         ds_peers d = {} \<and> \<not> cl_isSocketOpen (ds_multicastClient d))"
proof -
  obtain res :: "((string + ('b, 'h) distributed_server) \<times> 'c world_scheme) outcome"
    where res: "DistributedServer_new name grp is port dh hc hdis x w = res" by blast
  show ?thesis
  proof (rule DistributedServer_new_cases [OF res], goal_cases failed made)
    case (failed e w')
    with res show ?case by simp
  next
    case (made tcp udp w1 w2)
    then have "srv_defaultHandler tcp = ForwardRequestToHandler" "srv_defaultHandler udp = ForwardRequestToHandler"
      using TcpServer_new_handlers UdpServer_new_handlers by metis+
    with res made(3) show ?case
      by (simp add: Server_target_def Server_lookup_def Connector_target_def Connector_new_def
          MulticastClient_new_def Client_new_def client.defs multicast_client.defs)
  qed
qed

text \<open>
  The default handler given to the constructor is never called: a request whose protocol has
  no handler goes to whatever the member held before it was initialised with itself, and ends
  the process when that is an empty function.
\<close>

theorem default_handler_is_lost:
  assumes "DistributedServer_new name grp is port dh hc hdis x w = Ret (Inr d, w')"
  shows "DistributedServer_new name grp is port dh' hc hdis x w = Ret (Inr d, w') \<and>
    forwardRequestToHandler user req d v =
      (case x of None \<Rightarrow> Undef | Some h \<Rightarrow> user h req d v)"
proof (rule DistributedServer_new_cases [OF assms], goal_cases failed made)
  case (made tcp udp w1 w2)
  then have d: "ds_handlers d = Map.empty" "ds_defaultHandler d = x" by simp_all
  have "DistributedServer_new name grp is port dh' hc hdis x w = Ret (Inr d, w')"
    using assms by (simp only: DistributedServer_new_def)
  then show ?case by (simp add: d forwardRequestToHandler_def DistributedServer_target_def)
qed simp

text \<open>
  Requests of the user's protocols reach the user's handlers: after handlers for distinct
  protocols were registered, a request goes to the handler of its protocol, from whichever
  server or peer it came.
\<close>

theorem distributed_dispatch:
  assumes "distinct (map fst phs)" "\<forall>p. ds_handlers d p = None" "(Request_getProtocol req, Some h) \<in> set phs"
  shows "run_handler user B ForwardRequestToHandler req
      (snd (register_all DistributedServer_addHandler phs d)) w =
    user h req (snd (register_all DistributedServer_addHandler phs d)) w"
  using distributed_registry.register_all_ok [OF assms(1), of d] assms(2,3)
  by (auto simp: forwardRequestToHandler_def)

text \<open>
  C27. A message of a peer on a new channel ends in a handler thread that forwards the request by
  the protocol of the wrapped message, and the request gives exactly that message.
\<close>

theorem peer_request_reaches_handler:
  assumes fifo: "fifo_buffer B contents" and ready: "peer_ready k (ds_connector d) w"
    and bo: "buffers_open contents (manager_of k (ds_connector d))"
    and empty: "queue contents RemoveResponse (manager_of k (ds_connector d)) i = []"
    and m: "wf_message m" "body_len m + 12 < 4294967296" and i: "unat i < 1024"
    and wire: "w_in w (cl_clientFd (client_of k (ds_connector d))) = wire 16 [(i, m)]"
    and new: "\<forall>p. Connector_target p (ds_connector d) = ForwardRequestToHandler"
  shows "\<exists>r d' w' d''. DistributedServer_peer_turn B a k d w =
      Ret (True, [HandlerThread ForwardRequestToHandler (InternalReq k r)], d', w') \<and>
    Request_getProtocol (InternalReq k r) = protocol (header m) \<and>
    Request_receiveMessage B (InternalReq k r) (ds_connector d') w' =
      Ret ((OkStatus, Some m), InternalReq k r, d'', w')"
proof -
  let ?cn = "ds_connector d"
  have wr: "w_in w (cl_clientFd (client_of k ?cn)) = wire 16 [(i, m)] @ []" using wire by simp
  obtain r g w1 where t: "Connector_runClient_turn B a k ?cn w = Ret (True,
      [StartHandler ForwardRequestToHandler k
         (InternalRequest_new (protocol (header m)) (cl_clientAddr (client_of k ?cn)) r)],
      put_manager k g ?cn, w1)"
    and g: "mg_inv g" "mg_config g = connector_config" "buffers_open contents g"
      "slots RemoveResponse g ! unat i = Some r" "queue contents RemoveResponse g i = [m]"
    by (rule receive_request [OF fifo ready bo m i wr, of a]) (use new empty i in auto)
  let ?r = "InternalRequest_new (protocol (header m)) (cl_clientAddr (client_of k ?cn)) r"
  from ready have k: "k < length (cn_objects ?cn)" by (simp add: peer_ready_def)
  obtain g2 where "InternalRequest_receiveMessage B ?r g = Ret ((OkStatus, Some m), g2)"
    using read_queue(1) [OF fifo g(1,3) _ g(4,5), of ?r] g(2) i by auto
  then have "Request_receiveMessage B (InternalReq k ?r) (put_manager k g ?cn) w1 =
      Ret ((OkStatus, Some m), InternalReq k ?r, put_manager k g2 ?cn, w1)"
    using k by simp
  with t show ?thesis
    by (intro exI [of _ ?r] exI [of _ "d\<lparr>ds_connector := put_manager k g ?cn\<rparr>"] exI [of _ w1]
        exI [of _ "put_manager k g2 ?cn"])
      (simp add: DistributedServer_peer_turn_def InternalRequest_new_def)
qed

section \<open>Witnesses\<close>

text \<open>
  A server on one interface without handlers of the user, in a world in which a server at
  address 0 can be reached and answers the acknowledgement; its UDP socket is descriptor 4.
\<close>

definition sample_server :: "(message list option, string) distributed_server" where
  "sample_server =
     \<lparr>ds_interfaceName = ''eth0'', ds_interfaces = [''eth0''], ds_group = ''239.0.0.1'', ds_port = 7000,
      ds_tcpServer = \<lparr>srv_port = 7000, srv_handlers = [kConnectAckRequestProtocol \<mapsto> Some HandleConnectAck],
        srv_defaultHandler = ForwardRequestToHandler, srv_serverSocketFd = 3\<rparr>,
      ds_udpServer = \<lparr>srv_port = 7000, srv_handlers = [kConnectRequestProtocol \<mapsto> Some HandleConnect],
        srv_defaultHandler = ForwardRequestToHandler, srv_serverSocketFd = 4\<rparr>,
      ds_connector = Connector_new ForwardRequestToHandler,
      ds_multicastClient = MulticastClient_new ''eth0'' ''239.0.0.1'' 7000 1,
      ds_peers = {}, ds_handlers = Map.empty, ds_defaultHandler = None,
      ds_has_connect_callback = True, ds_has_disconnect_callback = True\<rparr>"

lemma sample_server_simps [simp]:
  "ds_interfaces sample_server = [''eth0'']" "ds_peers sample_server = {}" "ds_port sample_server = 7000"
  "ds_has_connect_callback sample_server" "ds_handlers sample_server = Map.empty"
  "srv_handlers (ds_udpServer sample_server) = [kConnectRequestProtocol \<mapsto> Some HandleConnect]"
  "srv_serverSocketFd (ds_udpServer sample_server) = 4"
  "cn_clients (ds_connector sample_server) = Map.empty" "cn_objects (ds_connector sample_server) = []"
  by (simp_all add: sample_server_def Connector_new_def)

definition answering_world :: "(message list option, string) ds_world" where
  "answering_world = world.extend
     (sample_world
       \<lparr>w_resolve := (\<lambda>host service. Some [\<lparr>ai_family = AF_INET, ai_addr = null_sockaddr\<rparr>]),
        w_in := (\<lambda>f. frame (connectAck_message kConnectAckResponseProtocol)),
        w_dgrams := (\<lambda>f. [(null_sockaddr, encode_header \<lparr>len = 2, protocol = kConnectRequestProtocol\<rparr>),
                          (null_sockaddr, le16 7000)])\<rparr>)
     \<lparr>dw_server = sample_server, dw_events = []\<rparr>"

lemma answering_world_simps [simp]:
  "dw_server answering_world = sample_server" "dw_events answering_world = []"
  "w_open answering_world = (\<lambda>f. f = 4)" "w_next answering_world = 5" "w_script answering_world = []"
  "w_out answering_world = (\<lambda>f. [])" "w_freed answering_world = w_freed sample_world"
  "w_in answering_world = (\<lambda>f. frame (connectAck_message kConnectAckResponseProtocol))"
  "w_resolve answering_world = (\<lambda>host service. Some [\<lparr>ai_family = AF_INET, ai_addr = null_sockaddr\<rparr>])"
  "w_dgrams answering_world = (\<lambda>f. [(null_sockaddr, encode_header \<lparr>len = 2, protocol = kConnectRequestProtocol\<rparr>),
     (null_sockaddr, le16 7000)])"
  by (simp_all add: answering_world_def world.extend_def)

lemma reachable_answering [simp]:
  "reachable host port \<lparr>ai_family = AF_INET, ai_addr = null_sockaddr\<rparr> answering_world"
  by (simp add: reachable_def ai_addrlen_def sizeof_sockaddr_def AF_INET6_def)

lemma sin_addr_null [simp]: "sin_addr null_sockaddr = 0"
  by (simp add: null_sockaddr_def)

lemma inet_ntop_0 [simp]: "inet_ntop 0 = ''0.0.0.0''"
proof -
  have four: "(4 :: nat) = Suc (Suc (Suc (Suc 0)))" by simp
  have "nat_le (Suc (Suc (Suc (Suc 0)))) 0 = [0, 0, 0, 0]" by simp
  then have "le32 0 = [0, 0, 0, 0]" by (simp add: le32_def four del: nat_le.simps)
  moreover have "char_of (48 :: nat) = CHR ''0''" by (simp add: char_of_def bit_0)
  ultimately show ?thesis by (simp add: inet_ntop_def show_nat.simps [of 0])
qed

theorem run_announces_witness:
  "\<exists>d' w'. DistributedServer_run sample_server (sample_world\<lparr>w_script := [- 1, 0, - 1]\<rparr>) =
      Some ([TcpServerThread, UdpServerThread], Ret (OkStatus, d', w')) \<and> announced_on 7000 w'"
  using run_announces [of sample_server "sample_world\<lparr>w_script := [- 1, 0, - 1]\<rparr>"]
  by (simp add: multicast_ok_def sample_server_def MulticastClient_new_def Client_new_def client.defs
      multicast_client.defs)

theorem announcement_connects_witness:
  "\<exists>w'. DistributedServer_udp_turn (\<lambda>h r d w. Undef) list_buffer answering_world = Ret w' \<and>
     dw_events w' = [PeerConnect 0] \<and> w_connected w' 5 = Some null_sockaddr"
  using announcement_connects [of sample_server answering_world "''eth0''" "[]" null_sockaddr 7000
      "[]" "\<lparr>ai_family = AF_INET, ai_addr = null_sockaddr\<rparr>" "[]" "\<lambda>h r d w. Undef" list_buffer]
  by auto

theorem connectAck_accepts_witness:
  "\<exists>d' w'. handleConnectAck list_buffer (TcpReq (TcpRequest_new 4 null_sockaddr sample_message))
      sample_server sample_world = Ret (OkStatus, [PeerConnect 0], d', w') \<and>
    cn_clients (ds_connector d') = [0 \<mapsto> 0] \<and> w_open w' 4"
  using connectAck_accepts [of sample_world 4 sample_server null_sockaddr list_buffer sample_message]
  by auto

theorem connectAck_duplicate_closes_twice_witness:
  "\<exists>w'. handleConnectAck list_buffer (TcpReq (TcpRequest_new 4 null_sockaddr sample_message))
      (sample_server\<lparr>ds_connector := (ds_connector sample_server)\<lparr>cn_clients := [0 \<mapsto> 0]\<rparr>\<rparr>) sample_world =
    Ret (AlreadyExistsError ''Client already exists'', [],
      sample_server\<lparr>ds_connector := (ds_connector sample_server)\<lparr>cn_clients := [0 \<mapsto> 0]\<rparr>\<rparr>, w') \<and>
    w_closes w' = [4, 4]"
  using connectAck_duplicate_closes_twice [of sample_world 4
      "sample_server\<lparr>ds_connector := (ds_connector sample_server)\<lparr>cn_clients := [0 \<mapsto> 0]\<rparr>\<rparr>"
      null_sockaddr 0 list_buffer sample_message]
  by simp

theorem second_announcement_crashes_witness:
  "\<exists>es d' w'. handleConnect list_buffer (UdpReq (UdpRequest_new null_sockaddr (connect_message 7000)))
      sample_server answering_world = Ret (OkStatus, es, d', w') \<and>
    handleConnect list_buffer (UdpReq (UdpRequest_new null_sockaddr (connect_message 7000)))
      d' answering_world = Undef"
  using second_announcement_crashes [of sample_server "''eth0''" "[]" null_sockaddr 7000
      "\<lparr>ai_family = AF_INET, ai_addr = null_sockaddr\<rparr>" answering_world "[]" answering_world list_buffer]
  by auto

theorem default_handler_is_lost_witness:
  "\<exists>d :: (message list option, string) distributed_server. \<exists>w'.
     DistributedServer_new ''eth0'' ''239.0.0.1'' [] 7000 (Some ''default'') True True None serving_world =
       Ret (Inr d, w') \<and>
     forwardRequestToHandler (\<lambda>h r d w. Ret (OkStatus, [], d, w))
       (UdpReq (UdpRequest_new null_sockaddr sample_message)) d w' = Undef"
proof -
  obtain d :: "(message list option, string) distributed_server" and w' where
    "DistributedServer_new ''eth0'' ''239.0.0.1'' [] 7000 (Some ''default'') True True None serving_world =
       Ret (Inr d, w')"
    by (simp add: DistributedServer_new_def TcpServer_new_def UdpServer_new_def serving_world_def
        tcp_setup_def udp_setup_def os_socket_def os_new_fd_def os_setsockopt_def os_bind_def os_listen_def
        os_control_def os_answer_def Server_addHandler_def sizeof_sockaddr_def ai_addrlen_def)
  with default_handler_is_lost [OF this] show ?thesis by auto
qed

theorem distributed_dispatch_witness:
  "run_handler (\<lambda>h r d w. Ret (OkStatus, [PeerConnect (if h = ''seven'' then 7 else 0)], d, w)) list_buffer
     ForwardRequestToHandler (UdpReq (UdpRequest_new null_sockaddr sample_message))
     (snd (register_all DistributedServer_addHandler [(7, Some ''seven''), (8, Some ''eight'')] sample_server))
     sample_world =
   Ret (OkStatus, [PeerConnect 7],
     snd (register_all DistributedServer_addHandler [(7, Some ''seven''), (8, Some ''eight'')] sample_server),
     sample_world)"
  by (subst distributed_dispatch [of _ _ _ "''seven''"]) (simp_all add: UdpRequest_new_def)

definition forwarding_connector :: "(message list option, ds_handler) connector" where
  "forwarding_connector = (Connector_new ForwardRequestToHandler)
     \<lparr>cn_clients := [0 \<mapsto> 0],
      cn_objects := [\<lparr>ic_client = sample_client,
        ic_channelManager = InternalChannelManager_new connector_config 4\<rparr>]\<rparr>"

lemma forwarding_connector_simps [simp]:
  "cn_objects forwarding_connector = cn_objects sample_connector"
  "Connector_target p forwarding_connector = ForwardRequestToHandler"
  "peer_ready 0 forwarding_connector w \<longleftrightarrow> w_open w 4 \<and> w_script w = []"
  by (auto simp: forwarding_connector_def Connector_new_def Connector_target_def peer_ready_def new_inv)

theorem peer_request_reaches_handler_witness:
  "\<exists>r d' w' d''. DistributedServer_peer_turn list_buffer 0 0
      (sample_server\<lparr>ds_connector := forwarding_connector\<rparr>)
      (sample_world\<lparr>w_in := (\<lambda>f. wire 16 [(3, sample_message)])\<rparr>) =
      Ret (True, [HandlerThread ForwardRequestToHandler (InternalReq 0 r)], d', w') \<and>
    Request_receiveMessage list_buffer (InternalReq 0 r) (ds_connector d') w' =
      Ret ((OkStatus, Some sample_message), InternalReq 0 r, d'', w')"
  using peer_request_reaches_handler [OF fifo_list_buffer, of 0
      "sample_server\<lparr>ds_connector := forwarding_connector\<rparr>"
      "sample_world\<lparr>w_in := (\<lambda>f. wire 16 [(3, sample_message)])\<rparr>" 3 sample_message 0]
  by auto

end
