(* ===== verification/Link.thy ===== *)
theory Link
  imports Connector
begin

text \<open>
  The two ends of a connection, running freely. A state holds the connector, the position of the
  peer and the process of each end, and what has been sent and received so far. A step is one
  call at one end: a new request channel, a message sent on a channel, a turn of the read loop,
  a message taken from a channel by its handler or requester; or the network carries over what
  an end has written. The steps come in any order.

  Against this stands the specification of multiplexing: each channel id is, in each direction,
  a queue of messages of its own. No channel is closed in these runs and the kernel reports no
  faults.
\<close>

section \<open>The ends of a connection\<close>

record ('b, 'h) side =
  sd_connector :: "('b, 'h) connector"
  sd_index :: nat
  sd_world :: world

type_synonym history = "bool \<Rightarrow> close_callback \<Rightarrow> channel_id_t \<Rightarrow> message list"

text \<open>
  The ends are called \<open>True\<close> and \<open>False\<close>. Histories are kept by the end that sent, by the kind of
  the channel it sent on (a request channel or a response channel) and by the channel id.
\<close>

record ('b, 'h) link =
  lk_side :: "bool \<Rightarrow> ('b, 'h) side"
  lk_sent :: history
  lk_received :: history

abbreviation sd_manager :: "('b, 'h) side \<Rightarrow> 'b manager" where
  "sd_manager d \<equiv> manager_of (sd_index d) (sd_connector d)"

abbreviation sd_fd :: "('b, 'h) side \<Rightarrow> fd" where
  "sd_fd d \<equiv> cl_clientFd (client_of (sd_index d) (sd_connector d))"

definition record_message :: "bool \<Rightarrow> close_callback \<Rightarrow> channel_id_t \<Rightarrow> message \<Rightarrow> history \<Rightarrow> history" where
  "record_message e cb i m h = h(e := (h e)(cb := (h e cb)(i := h e cb i @ [m])))"

lemma record_message_apply:
  "record_message e cb i m h e' cb' i' =
     h e' cb' i' @ (if e' = e \<and> cb' = cb \<and> i' = i then [m] else [])"
  by (simp add: record_message_def)

definition put_side :: "bool \<Rightarrow> ('b, 'h) connector \<Rightarrow> world \<Rightarrow> ('b, 'h) link \<Rightarrow> ('b, 'h) link" where
  "put_side e cn w s =
     s\<lparr>lk_side := (lk_side s)(e := (lk_side s e)\<lparr>sd_connector := cn, sd_world := w\<rparr>)\<rparr>"

text \<open>The network takes what end \<open>e\<close> has written to the other end.\<close>

definition carry :: "bool \<Rightarrow> ('b, 'h) link \<Rightarrow> ('b, 'h) link" where
  "carry e s =
     (let d = lk_side s e; d' = lk_side s (\<not> e) in
      put_side (\<not> e) (sd_connector d') (deliver (sd_fd d) (sd_world d) (sd_fd d') (sd_world d'))
        (put_side e (sd_connector d) ((sd_world d)\<lparr>w_out := (w_out (sd_world d))(sd_fd d := [])\<rparr>) s))"

inductive link_step :: "'b message_buffer \<Rightarrow> ('b, 'h) link \<Rightarrow> ('b, 'h) link \<Rightarrow> bool"
  for B :: "'b message_buffer" where
  new_request:
    "Connector_sendRequest B a (sd_connector (lk_side s e)) = Ret ((OkStatus, Some (sd_index (lk_side s e), q)), cn) \<Longrightarrow>
     link_step B s (put_side e cn (sd_world (lk_side s e)) s)"
| send:
    "sendable_on cb (sd_manager (lk_side s e)) (ir_channel q, m) \<Longrightarrow>
     i = ch_id (mg_channels (sd_manager (lk_side s e)) ! ir_channel q) \<Longrightarrow>
     InternalRequest_sendMessage q m (sd_manager (lk_side s e)) (sd_world (lk_side s e)) = Ret (OkStatus, w) \<Longrightarrow>
     link_step B s ((put_side e (sd_connector (lk_side s e)) w s)
       \<lparr>lk_sent := record_message e cb i m (lk_sent s)\<rparr>)"
| carry: "link_step B s (carry e s)"
| turn:
    "w_in (sd_world (lk_side s e)) (sd_fd (lk_side s e)) \<noteq> [] \<Longrightarrow>
     Connector_runClient_turn B a (sd_index (lk_side s e)) (sd_connector (lk_side s e)) (sd_world (lk_side s e)) =
       Ret (continue, es, cn, w) \<Longrightarrow>
     link_step B s (put_side e cn w s)"
| receive:
    "unat i < 1024 \<Longrightarrow> slots cb (sd_manager (lk_side s e)) ! unat i = Some (ir_channel q) \<Longrightarrow>
     InternalRequest_receiveMessage B q (sd_manager (lk_side s e)) = Ret ((OkStatus, Some m), g) \<Longrightarrow>
     link_step B s ((put_side e (put_manager (sd_index (lk_side s e)) g (sd_connector (lk_side s e)))
         (sd_world (lk_side s e)) s)
       \<lparr>lk_received := record_message (\<not> e) (peer_kind cb) i m (lk_received s)\<rparr>)"

definition link_start :: "(bool \<Rightarrow> ('b, 'h) side) \<Rightarrow> ('b, 'h) link" where
  "link_start d = \<lparr>lk_side = d, lk_sent = (\<lambda>e cb i. []), lk_received = (\<lambda>e cb i. [])\<rparr>"

inductive link_reached :: "'b message_buffer \<Rightarrow> (bool \<Rightarrow> ('b, 'h) side) \<Rightarrow> ('b, 'h) link \<Rightarrow> bool"
  for B :: "'b message_buffer" and d :: "bool \<Rightarrow> ('b, 'h) side" where
  start: "link_reached B d (link_start d)"
| step: "link_reached B d s \<Longrightarrow> link_step B s s' \<Longrightarrow> link_reached B d s'"

text \<open>Two ends that have just connected: new managers, nothing written, nothing to read.\<close>

definition just_connected :: "('b, 'h) side \<Rightarrow> bool" where
  "just_connected d \<longleftrightarrow>
     peer_ready (sd_index d) (sd_connector d) (sd_world d) \<and>
     sd_manager d = InternalChannelManager_new connector_config (sd_fd d) \<and>
     w_in (sd_world d) (sd_fd d) = [] \<and> w_out (sd_world d) (sd_fd d) = []"

section \<open>What is on the way\<close>

type_synonym packet = "close_callback \<times> channel_id_t \<times> message"

primrec packet_bytes :: "packet \<Rightarrow> byte list" where
  "packet_bytes (cb, x) = wire (data_protocol cb connector_config) [x]"

definition packets_bytes :: "packet list \<Rightarrow> byte list" where
  "packets_bytes xs = concat (map packet_bytes xs)"

fun packet_ok :: "packet \<Rightarrow> bool" where
  "packet_ok (cb, i, m) \<longleftrightarrow> unat i < 1024 \<and> wf_message m \<and> body_len m + 12 < 4294967296"

definition on_channel :: "close_callback \<Rightarrow> channel_id_t \<Rightarrow> packet list \<Rightarrow> message list" where
  "on_channel cb i xs = map (snd \<circ> snd) (filter (\<lambda>x. fst x = cb \<and> fst (snd x) = i) xs)"

lemma packets_simps [simp]:
  "packets_bytes [] = []" "packets_bytes (x # xs) = packet_bytes x @ packets_bytes xs"
  "packets_bytes (xs @ ys) = packets_bytes xs @ packets_bytes ys"
  "on_channel cb i [] = []"
  "on_channel cb i ((c, j, m) # xs) = (if c = cb \<and> j = i then [m] else []) @ on_channel cb i xs"
  "on_channel cb i (xs @ ys) = on_channel cb i xs @ on_channel cb i ys"
  by (simp_all add: packets_bytes_def on_channel_def)

lemma encode_header_nonempty [simp]: "encode_header h \<noteq> []"
  by (metis header_codec.length_enc list.size(3) zero_neq_numeral)

lemma packet_bytes_nonempty [simp]: "packet_bytes x \<noteq> []"
  by (cases x) (auto simp: wire_def frame_def)

lemma peer_kind_simps [simp]:
  "peer_kind (peer_kind cb) = cb" "peer_kind cb = peer_kind cb' \<longleftrightarrow> cb = cb'"
  by (cases cb; cases cb'; simp)+

section \<open>The calls at one end\<close>

definition full :: "close_callback \<Rightarrow> 'b manager \<Rightarrow> channel_id_t \<Rightarrow> bool" where
  "full cb g i \<longleftrightarrow> slots cb g ! unat i \<noteq> None"

text \<open>A manager of a connection in good order.\<close>

definition good :: "('b \<Rightarrow> message list option) \<Rightarrow> fd \<Rightarrow> 'b manager \<Rightarrow> bool" where
  "good contents f g \<longleftrightarrow>
     mg_inv g \<and> mg_config g = connector_config \<and> mg_writeFd g = f \<and> buffers_open contents g"

lemma goodD:
  "good contents f g \<Longrightarrow> mg_inv g" "good contents f g \<Longrightarrow> mg_config g = connector_config"
  "good contents f g \<Longrightarrow> mg_writeFd g = f" "good contents f g \<Longrightarrow> buffers_open contents g"
  by (simp_all add: good_def)

lemma opened_good:
  assumes fifo: "fifo_buffer B contents" and g: "good contents f g"
    and i: "unat i < 1024" "\<not> full cb g i"
  shows "good contents f (opened B cb i g)"
    and "unat j < 1024 \<Longrightarrow> queue contents cb' (opened B cb i g) j = queue contents cb' g j"
    and "full cb' (opened B cb i g) j \<longleftrightarrow> full cb' g j \<or> (cb' = cb \<and> j = i)"
proof -
  note inv = goodD(1) [OF g]
  have mx: "max_channels g = 1024" using g by (simp add: good_def)
  have side: "unat i < max_channels g" "slots cb g ! unat i = None" using i mx by (simp_all add: full_def)
  show "good contents f (opened B cb i g)"
    using g opened_inv [OF inv side] opened_queue(1) [OF fifo inv goodD(4) [OF g] side]
    by (simp add: good_def)
  show "unat j < 1024 \<Longrightarrow> queue contents cb' (opened B cb i g) j = queue contents cb' g j"
    using opened_queue(2) [OF fifo inv goodD(4) [OF g] side] mx by simp
  show "full cb' (opened B cb i g) j \<longleftrightarrow> full cb' g j \<or> (cb' = cb \<and> j = i)"
    using i(1) mx mg_inv_slots_length [OF inv, of cb] by (auto simp: full_def opened_slots nth_update)
qed

lemma pushed_good:
  assumes fifo: "fifo_buffer B contents" and g: "good contents f g"
    and i: "unat i < 1024" "slots cb g ! unat i = Some r"
  shows "good contents f (pushed B r m g)" "full cb' (pushed B r m g) j = full cb' g j"
    and "unat j < 1024 \<Longrightarrow> queue contents cb' (pushed B r m g) j =
      queue contents cb' g j @ (if cb' = cb \<and> j = i then [m] else [])"
proof -
  have mx: "max_channels g = 1024" using g by (simp add: good_def)
  note push = pushed_queue [OF fifo goodD(1) [OF g] goodD(4) [OF g] _ i(2), where m = m]
  show "good contents f (pushed B r m g)" using g push(2) i mx pushed_inv by (auto simp: good_def)
  show "full cb' (pushed B r m g) j = full cb' g j" by (simp add: full_def)
  show "unat j < 1024 \<Longrightarrow> queue contents cb' (pushed B r m g) j =
      queue contents cb' g j @ (if cb' = cb \<and> j = i then [m] else [])"
    using push(3) [of j cb'] i(1) mx by auto
qed

lemma turn_packet:
  assumes fifo: "fifo_buffer B contents" and ready: "peer_ready k cn w" and g: "good contents f (manager_of k cn)"
    and x: "packet_ok (cb, i, m)" "cb = RemoveResponse \<Longrightarrow> full RemoveRequest (manager_of k cn) i"
    and w: "f = cl_clientFd (client_of k cn)" "w_in w f = packet_bytes (cb, i, m) @ rest"
  obtains es g' where "Connector_runClient_turn B a k cn w =
      Ret (True, es, put_manager k g' cn, w\<lparr>w_in := (w_in w)(f := rest)\<rparr>)" "good contents f g'"
    "\<And>cb' j. unat j < 1024 \<Longrightarrow> queue contents cb' g' j =
      queue contents cb' (manager_of k cn) j @ (if cb' = peer_kind cb \<and> j = i then [m] else [])"
    "\<And>cb' j. full cb' g' j \<longleftrightarrow>
      full cb' (manager_of k cn) j \<or> (cb = RemoveRequest \<and> cb' = RemoveResponse \<and> j = i)"
proof -
  let ?g = "manager_of k cn" and ?M = "wrapped le32 4 (data_protocol cb connector_config) i m"
  let ?w = "w\<lparr>w_in := (w_in w)(f := rest)\<rparr>"
  note inv = goodD(1) [OF g] and cfg = goodD(2) [OF g] and bo = goodD(4) [OF g]
  have mx: "unat i < max_channels ?g" "protocols_distinct (mg_config ?g)" using x cfg by simp_all
  have wf: "wf_message ?M" using x(1) by (intro channel_id_codec.wf_wrapped) simp
  have rcv: "TcpClient_receiveMessage (client_of k cn) w = ((OkStatus, Some ?M), ?w)"
    using receive_frame [OF ready wf] w by (simp add: wire_def)
  have u: "unwrapMessage un32 4 ?M = Ret (OkStatus, Some i, Some m)"
    using x(1) by (simp add: channel_id_codec.unwrap_wrapped)
  show ?thesis
  proof (cases cb)
    case RemoveRequest
    define h where "h = (if mg_responseChannel ?g ! unat i = None then opened B RemoveResponse i ?g else ?g)"
    have h: "good contents f h" "\<And>cb' j. unat j < 1024 \<Longrightarrow> queue contents cb' h j = queue contents cb' ?g j"
      "\<And>cb' j. full cb' h j \<longleftrightarrow> full cb' ?g j \<or> (cb' = RemoveResponse \<and> j = i)"
      using opened_good [OF fifo g, of i RemoveResponse] g x(1) by (auto simp: h_def full_def)
    from h(3) [of RemoveResponse i] obtain r where r: "slots RemoveResponse h ! unat i = Some r"
      by (auto simp: full_def simp del: slots.simps)
    have p: "protocol (header ?M) = RequestProtocol (mg_config ?g)" by (simp add: RemoveRequest cfg wrapped_def)
    from forward_request [OF inv mx(2) p u, of B ?w] mx(1) r obtain st where
      "forwardMessage B ?M ?g ?w = Ret ((st, protocol (header m), Some r), pushed B r m h, ?w)"
      by (simp add: Let_def flip: h_def)
    from turn_forwards [OF rcv this, of a] pushed_good [OF fifo h(1) _ r, where m = m] h(2,3) x(1) show ?thesis
      by (intro that [of _ "pushed B r m h"]) (auto simp: RemoveRequest)
  next
    case RemoveResponse
    with x(2) obtain r where r: "slots RemoveRequest ?g ! unat i = Some r" by (auto simp: full_def)
    have p: "protocol (header ?M) = ResponseProtocol (mg_config ?g)" by (simp add: RemoveResponse cfg wrapped_def)
    from forward_response [OF inv mx(2) p u, of B ?w] mx(1) r obtain st where
      "forwardMessage B ?M ?g ?w = Ret ((st, protocol (header m), None), pushed B r m ?g, ?w)" by simp
    from turn_forwards [OF rcv this, of a] pushed_good [OF fifo g _ r, where m = m] x(1) show ?thesis
      by (intro that [of _ "pushed B r m ?g"]) (auto simp: RemoveResponse)
  qed
qed

lemma take_packet:
  assumes fifo: "fifo_buffer B contents" and g: "good contents f g" and i: "unat i < 1024"
    and r: "slots cb g ! unat i = Some (ir_channel q)"
    and rcv: "InternalRequest_receiveMessage B q g = Ret ((OkStatus, Some m), g')"
  shows "good contents f g'" "queue contents cb g i = m # queue contents cb g' i"
    and "unat j < 1024 \<Longrightarrow> cb' \<noteq> cb \<or> j \<noteq> i \<Longrightarrow> queue contents cb' g' j = queue contents cb' g j"
    and "full cb' g' j = full cb' g j"
proof -
  note inv = goodD(1) [OF g]
  have mx: "max_channels g = 1024" using g by (simp add: good_def)
  with i have im: "unat i < max_channels g" by simp
  let ?c = "mg_channels g ! ir_channel q"
  note sl = mg_inv_slot [OF inv im r]
  obtain q0 where q0: "contents (ch_buffer ?c) = Some q0" using buffers_openD [OF goodD(4) [OF g] sl(1,2)] by blast
  obtain b where b: "mb_pop B (ch_buffer ?c) = Ret ((OkStatus, Some m), b)"
    and g': "g' = put_channel (ir_channel q) (?c\<lparr>ch_buffer := b\<rparr>) g"
    using rcv sl(1) by (auto simp: InternalRequest_receiveMessage_def deref_def InternalChannel_read_def outcome_simps)
  obtain m' q1 where q1: "q0 = m' # q1" using q0 b fifo_laws(4) [OF fifo] by (cases q0) auto
  with q0 b fifo_laws(3) [OF fifo] have cb: "m' = m" "contents b = Some q1" by fastforce+
  have "buffers_open contents g'"
    using goodD(4) [OF g] cb(2) set_update_subset_insert [of "mg_channels g" "ir_channel q"]
    by (fastforce simp: buffers_open_def g')
  moreover have "mg_inv g'" unfolding g' by (rule put_channel_inv [OF inv]) (auto simp: same_channel_def)
  ultimately show "good contents f g'" using g by (simp add: good_def g')
  show "queue contents cb g i = m # queue contents cb g' i"
    using r q0 q1 cb sl(1) by (simp add: queue_def g')
  show "full cb' g' j = full cb' g j" by (simp add: full_def g')
  assume j: "unat j < 1024" and ne: "cb' \<noteq> cb \<or> j \<noteq> i"
  have "s \<noteq> ir_channel q" if "slots cb' g ! unat j = Some s" for s
    using mg_inv_slot(3,4) [OF inv _ that] j mx sl(3,4) ne by auto
  then show "queue contents cb' g' j = queue contents cb' g j" by (auto simp: queue_def g' split: option.split)
qed

section \<open>The invariant of a link\<close>

definition side_ok ::
    "('b \<Rightarrow> message list option) \<Rightarrow> ('b, 'h) side \<Rightarrow> packet list \<Rightarrow> packet list \<Rightarrow> bool" where
  "side_ok contents d xi xo \<longleftrightarrow>
     peer_ready (sd_index d) (sd_connector d) (sd_world d) \<and> good contents (sd_fd d) (sd_manager d) \<and>
     w_in (sd_world d) (sd_fd d) = packets_bytes xi \<and> w_out (sd_world d) (sd_fd d) = packets_bytes xo \<and>
     (\<forall>x \<in> set xi \<union> set xo. packet_ok x)"

text \<open>
  \<open>xin e\<close> is what end \<open>e\<close> has still to read, \<open>xout e\<close> what it has written and the network has
  not carried over. Everything sent was received, or waits in the queue of its channel, or is on
  the way; and whatever refers to a request channel finds it open.
\<close>

definition conserved :: "('b \<Rightarrow> message list option) \<Rightarrow> (bool \<Rightarrow> packet list) \<Rightarrow> (bool \<Rightarrow> packet list) \<Rightarrow>
    ('b, 'h) link \<Rightarrow> bool" where
  "conserved contents xin xout s \<longleftrightarrow>
     (\<forall>e cb i. unat i < 1024 \<longrightarrow> lk_sent s e cb i =
        lk_received s e cb i @ queue contents (peer_kind cb) (sd_manager (lk_side s (\<not> e))) i @
        on_channel cb i (xin (\<not> e)) @ on_channel cb i (xout e))"

definition answerable :: "(bool \<Rightarrow> packet list) \<Rightarrow> (bool \<Rightarrow> packet list) \<Rightarrow> ('b, 'h) link \<Rightarrow> bool" where
  "answerable xin xout s \<longleftrightarrow>
     (\<forall>e i. unat i < 1024 \<longrightarrow>
        on_channel RemoveRequest i (xin (\<not> e) @ xout e) \<noteq> [] \<or> full RemoveResponse (sd_manager (lk_side s (\<not> e))) i \<or>
        on_channel RemoveResponse i (xin e @ xout (\<not> e)) \<noteq> [] \<longrightarrow>
        full RemoveRequest (sd_manager (lk_side s e)) i)"

definition link_ok :: "('b \<Rightarrow> message list option) \<Rightarrow> (bool \<Rightarrow> packet list) \<Rightarrow> (bool \<Rightarrow> packet list) \<Rightarrow>
    ('b, 'h) link \<Rightarrow> bool" where
  "link_ok contents xin xout s \<longleftrightarrow>
     (\<forall>e. side_ok contents (lk_side s e) (xin e) (xout e)) \<and> conserved contents xin xout s \<and>
     answerable xin xout s"

lemma put_side_simps [simp]:
  "lk_side (put_side e cn w s) e =
     (lk_side s e)\<lparr>sd_connector := cn, sd_world := w\<rparr>"
  "e' \<noteq> e \<Longrightarrow> lk_side (put_side e cn w s) e' = lk_side s e'"
  "lk_sent (put_side e cn w s) = lk_sent s" "lk_received (put_side e cn w s) = lk_received s"
  by (simp_all add: put_side_def)

text \<open>
  A change at one end keeps the link in order when the end is in order afterwards and the two
  accounts balance at this end and across.
\<close>

lemma link_ok_change:
  assumes ok: "link_ok contents xin xout s"
    and other: "lk_side s' (\<not> e) = lk_side s (\<not> e)"
    and side: "side_ok contents (lk_side s' e) (xin' e) (xout' e)" "xin' (\<not> e) = xin (\<not> e)" "xout' (\<not> e) = xout (\<not> e)"
    and out: "\<And>cb i. unat i < 1024 \<Longrightarrow> \<exists>ms. lk_sent s' e cb i = lk_sent s e cb i @ ms \<and>
        lk_received s' e cb i = lk_received s e cb i \<and>
        on_channel cb i (xout' e) = on_channel cb i (xout e) @ ms"
    and "in": "\<And>cb i. unat i < 1024 \<Longrightarrow>
        lk_sent s' (\<not> e) cb i = lk_sent s (\<not> e) cb i \<and>
        lk_received s' (\<not> e) cb i @ queue contents (peer_kind cb) (sd_manager (lk_side s' e)) i @ on_channel cb i (xin' e) =
        lk_received s (\<not> e) cb i @ queue contents (peer_kind cb) (sd_manager (lk_side s e)) i @ on_channel cb i (xin e)"
    and ans: "answerable xin' xout' s'"
  shows "link_ok contents xin' xout' s'"
proof -
  have "side_ok contents (lk_side s' e') (xin' e') (xout' e')" for e'
    using ok other side by (cases "e' = e") (auto simp: link_ok_def)
  moreover have "conserved contents xin' xout' s'"
    unfolding conserved_def
  proof (intro allI impI)
    fix e' cb and i :: channel_id_t
    assume i: "unat i < 1024"
    from ok i have old: "lk_sent s e' cb i = lk_received s e' cb i @
        queue contents (peer_kind cb) (sd_manager (lk_side s (\<not> e'))) i @
        on_channel cb i (xin (\<not> e')) @ on_channel cb i (xout e')"
      by (simp add: link_ok_def conserved_def)
    show "lk_sent s' e' cb i = lk_received s' e' cb i @
        queue contents (peer_kind cb) (sd_manager (lk_side s' (\<not> e'))) i @
        on_channel cb i (xin' (\<not> e')) @ on_channel cb i (xout' e')"
    proof (cases "e' = e")
      case True
      from out [OF i, of cb] obtain ms where "lk_sent s' e cb i = lk_sent s e cb i @ ms"
        "lk_received s' e cb i = lk_received s e cb i" "on_channel cb i (xout' e) = on_channel cb i (xout e) @ ms" by blast
      with old True other side(2) show ?thesis by simp
    next
      case False
      then have e': "e' = (\<not> e)" by simp
      with old have "lk_sent s (\<not> e) cb i = (lk_received s (\<not> e) cb i @
        queue contents (peer_kind cb) (sd_manager (lk_side s e)) i @ on_channel cb i (xin e)) @ on_channel cb i (xout (\<not> e))"
        by simp
      with "in" [OF i, of cb] side(3) e' show ?thesis by simp
    qed
  qed
  ultimately show ?thesis using ans by (simp add: link_ok_def)
qed

lemma side_ok_update:
  assumes "side_ok contents d xi xo" "good contents (sd_fd d) g'"
    "w_open w' = w_open (sd_world d)" "w_script w' = w_script (sd_world d)"
    "w_in w' (sd_fd d) = packets_bytes xi'" "w_out w' (sd_fd d) = packets_bytes xo'"
    "\<forall>x \<in> set xi' \<union> set xo'. packet_ok x"
  shows "side_ok contents (d\<lparr>sd_connector := put_manager (sd_index d) g' (sd_connector d), sd_world := w'\<rparr>) xi' xo'"
    "sd_manager (d\<lparr>sd_connector := put_manager (sd_index d) g' (sd_connector d), sd_world := w'\<rparr>) = g'"
  using assms by (auto simp: side_ok_def peer_ready_def good_def)

lemma side_ok_world:
  assumes "side_ok contents d xi xo" "w_open w' = w_open (sd_world d)" "w_script w' = w_script (sd_world d)"
    "w_in w' (sd_fd d) = packets_bytes xi'" "w_out w' (sd_fd d) = packets_bytes xo'"
    "\<forall>x \<in> set xi' \<union> set xo'. packet_ok x"
  shows "side_ok contents (d\<lparr>sd_world := w'\<rparr>) xi' xo'"
  using assms by (auto simp: side_ok_def peer_ready_def good_def)

lemma same_side: "d\<lparr>sd_connector := sd_connector d, sd_world := w\<rparr> = d\<lparr>sd_world := w\<rparr>"
  by simp

lemma new_request_ok:
  assumes fifo: "fifo_buffer B contents" and ok: "link_ok contents xin xout s"
    and run: "Connector_sendRequest B a (sd_connector (lk_side s e)) = Ret ((OkStatus, Some (sd_index (lk_side s e), q)), cn)"
  shows "link_ok contents xin xout (put_side e cn (sd_world (lk_side s e)) s)"
proof -
  let ?d = "lk_side s e" and ?g = "sd_manager (lk_side s e)"
  from ok have side: "side_ok contents ?d (xin e) (xout e)" by (simp add: link_ok_def)
  then have g: "good contents (sd_fd ?d) ?g" by (simp add: side_ok_def)
  note inv = goodD(1) [OF g]
  from run have cl: "cn_clients (sd_connector ?d) a = Some (sd_index ?d)"
    by (auto simp: Connector_sendRequest_def Let_def outcome_simps split: option.splits if_splits prod.splits)
  with run obtain i rest where free: "mg_freeList ?g = i # rest"
    and cn: "cn = put_manager (sd_index ?d) (opened B RemoveRequest i ?g) (sd_connector ?d)"
    by (auto simp: Connector_sendRequest_def createRequestChannel_eq [OF inv] Let_def
        split: list.splits)
  from mg_inv_free [OF inv, of i] free goodD(2) [OF g] have i: "unat i < 1024" "\<not> full RemoveRequest ?g i"
    by (auto simp: full_def)
  note op = opened_good [OF fifo g i]
  have new: "side_ok contents (lk_side (put_side e cn (sd_world ?d) s) e) (xin e) (xout e)"
    "sd_manager (lk_side (put_side e cn (sd_world ?d) s) e) = opened B RemoveRequest i ?g"
    using side_ok_update [OF side op(1), of "sd_world ?d" "xin e" "xout e"] side by (simp_all add: cn side_ok_def)
  have "full RemoveRequest (sd_manager (lk_side s e')) j \<Longrightarrow>
      full RemoveRequest (sd_manager (lk_side (put_side e cn (sd_world ?d) s) e')) j"
    "full RemoveResponse (sd_manager (lk_side (put_side e cn (sd_world ?d) s) e')) j =
      full RemoveResponse (sd_manager (lk_side s e')) j" for e' j
    using op(3) new(2) by (cases "e' = e"; simp)+
  then have "answerable xin xout (put_side e cn (sd_world ?d) s)"
    using ok unfolding link_ok_def answerable_def by blast
  then show ?thesis
    by (intro link_ok_change [OF ok, where e = e]) (use new op(2) in simp_all)
qed

lemma send_ok:
  assumes ok: "link_ok contents xin xout s"
    and x: "sendable_on cb (sd_manager (lk_side s e)) (ir_channel q, m)"
    and i: "i = ch_id (mg_channels (sd_manager (lk_side s e)) ! ir_channel q)"
    and run: "InternalRequest_sendMessage q m (sd_manager (lk_side s e)) (sd_world (lk_side s e)) = Ret (OkStatus, w)"
  shows "link_ok contents xin (xout(e := xout e @ [(cb, i, m)]))
    ((put_side e (sd_connector (lk_side s e)) w s)\<lparr>lk_sent := record_message e cb i m (lk_sent s)\<rparr>)"
proof -
  let ?d = "lk_side s e" and ?g = "sd_manager (lk_side s e)"
  from ok have side: "side_ok contents ?d (xin e) (xout e)" by (simp add: link_ok_def)
  then have g: "good contents (sd_fd ?d) ?g" and ready: "peer_ready (sd_index ?d) (sd_connector ?d) (sd_world ?d)"
    by (simp_all add: side_ok_def)
  note inv = goodD(1) [OF g] and cfg = goodD(2,3) [OF g]
  have w: "w = (sd_world ?d)\<lparr>w_out := (w_out (sd_world ?d))(sd_fd ?d := w_out (sd_world ?d) (sd_fd ?d) @ packet_bytes (cb, i, m))\<rparr>"
    using send_one [OF inv x, of "sd_world ?d"] ready run cfg by (simp add: peer_ready_def i)
  have r: "ir_channel q < length (mg_channels ?g)" "\<not> ch_isClosed (mg_channels ?g ! ir_channel q)"
    "ch_closeCallback (mg_channels ?g ! ir_channel q) = cb" using x by (simp_all add: sendable_on_def)
  have pk: "packet_ok (cb, i, m)" and fl: "full cb ?g i"
    using x mg_inv_channel [OF inv r(1)] mg_inv_open_channel [OF inv r(1,2)] cfg r(3)
    by (simp_all add: sendable_on_def channel_ok_def i full_def)
  let ?s = "(put_side e (sd_connector ?d) w s)\<lparr>lk_sent := record_message e cb i m (lk_sent s)\<rparr>"
  have new: "side_ok contents (lk_side ?s e) (xin e) (xout e @ [(cb, i, m)])"
    using side_ok_world [OF side, of w "xin e" "xout e @ [(cb, i, m)]"] side pk
    by (simp add: w side_ok_def)
  have mgr: "sd_manager (lk_side ?s e') = sd_manager (lk_side s e')" for e' by (cases "e' = e") simp_all
  have "answerable xin (xout(e := xout e @ [(cb, i, m)])) ?s"
    using ok fl mgr pk unfolding link_ok_def answerable_def by (cases cb) (auto split: if_splits)
  then show ?thesis
    by (intro link_ok_change [OF ok, where e = e]) (use new mgr in \<open>auto simp: record_message_apply\<close>)
qed


lemma carry_ok:
  assumes ok: "link_ok contents xin xout s"
  shows "link_ok contents (xin(\<not> e := xin (\<not> e) @ xout e)) (xout(e := [])) (carry e s)"
proof -
  let ?d = "lk_side s e" and ?d' = "lk_side s (\<not> e)" and ?s = "carry e s"
  let ?xin = "xin(\<not> e := xin (\<not> e) @ xout e)" and ?xout = "xout(e := [])"
  from ok have side: "side_ok contents (lk_side s e') (xin e') (xout e')" for e' by (simp add: link_ok_def)
  have carried: "lk_side ?s e = ?d\<lparr>sd_world := (sd_world ?d)\<lparr>w_out := (w_out (sd_world ?d))(sd_fd ?d := [])\<rparr>\<rparr>"
    "lk_side ?s (\<not> e) = ?d'\<lparr>sd_world := deliver (sd_fd ?d) (sd_world ?d) (sd_fd ?d') (sd_world ?d')\<rparr>"
    "lk_sent ?s = lk_sent s" "lk_received ?s = lk_received s"
    by (simp_all add: carry_def Let_def put_side_def)
  have "side_ok contents (lk_side ?s e) (?xin e) (?xout e)"
    using side_ok_world [OF side [of e], of _ "xin e" "[]"] side [of e] by (simp add: carried(1) side_ok_def)
  moreover have "side_ok contents (lk_side ?s (\<not> e)) (?xin (\<not> e)) (?xout (\<not> e))"
    unfolding carried(2)
    by (rule side_ok_world [OF side]) (use side [of e] side [of "\<not> e"] in \<open>auto simp: side_ok_def\<close>)
  ultimately have sides: "side_ok contents (lk_side ?s e') (?xin e') (?xout e')" for e'
    by (cases "e' = e") auto
  have mgr: "sd_manager (lk_side ?s e') = sd_manager (lk_side s e')" for e'
    by (cases "e' = e") (simp_all add: carried)
  have way: "on_channel cb i (?xin (\<not> e')) @ on_channel cb i (?xout e') =
      on_channel cb i (xin (\<not> e')) @ on_channel cb i (xout e')" for cb i e'
    by (cases "e' = e") auto
  have "conserved contents ?xin ?xout ?s"
    using ok by (simp only: link_ok_def conserved_def mgr carried(3,4) way) blast
  moreover have "answerable ?xin ?xout ?s"
    using ok way [of _ _ "\<not> e'" for e'] unfolding link_ok_def answerable_def mgr packets_simps(6) way not_not
    by simp
  ultimately show ?thesis using sides by (simp add: link_ok_def)
qed


lemma turn_ok:
  assumes fifo: "fifo_buffer B contents" and ok: "link_ok contents xin xout s"
    and more: "w_in (sd_world (lk_side s e)) (sd_fd (lk_side s e)) \<noteq> []"
    and run: "Connector_runClient_turn B a (sd_index (lk_side s e)) (sd_connector (lk_side s e)) (sd_world (lk_side s e)) = R"
  shows "\<exists>es cn w rest. R = Ret (True, es, cn, w) \<and> xin e = hd (xin e) # rest \<and>
    link_ok contents (xin(e := rest)) xout (put_side e cn w s)"
proof -
  let ?d = "lk_side s e" and ?g = "sd_manager (lk_side s e)"
  from ok have side: "side_ok contents ?d (xin e) (xout e)" by (simp add: link_ok_def)
  with more obtain cb i m rest where x: "xin e = (cb, i, m) # rest" by (cases "xin e") (auto simp: side_ok_def)
  with side have ready: "peer_ready (sd_index ?d) (sd_connector ?d) (sd_world ?d)"
    and g: "good contents (sd_fd ?d) ?g" and pk: "packet_ok (cb, i, m)"
    and "in": "w_in (sd_world ?d) (sd_fd ?d) = packet_bytes (cb, i, m) @ packets_bytes rest"
    by (simp_all add: side_ok_def)
  have fl: "full RemoveRequest ?g i" if "cb = RemoveResponse"
    using ok x pk that unfolding link_ok_def answerable_def by fastforce
  let ?w = "(sd_world ?d)\<lparr>w_in := (w_in (sd_world ?d))(sd_fd ?d := packets_bytes rest)\<rparr>"
  from turn_packet [OF fifo ready g pk fl refl "in", of a] obtain es g' where
    run': "Connector_runClient_turn B a (sd_index ?d) (sd_connector ?d) (sd_world ?d) =
      Ret (True, es, put_manager (sd_index ?d) g' (sd_connector ?d), ?w)"
    and g': "good contents (sd_fd ?d) g'"
    and q: "\<And>cb' j. unat j < 1024 \<Longrightarrow> queue contents cb' g' j =
      queue contents cb' ?g j @ (if cb' = peer_kind cb \<and> j = i then [m] else [])"
    and f: "\<And>cb' j. full cb' g' j \<longleftrightarrow>
      full cb' ?g j \<or> (cb = RemoveRequest \<and> cb' = RemoveResponse \<and> j = i)" by blast
  let ?s = "put_side e (put_manager (sd_index ?d) g' (sd_connector ?d)) ?w s"
  have new: "side_ok contents (lk_side ?s e) rest (xout e)" "sd_manager (lk_side ?s e) = g'"
    using side_ok_update [OF side g', of ?w rest "xout e"] side x by (simp_all add: side_ok_def)
  have other: "lk_side ?s (\<not> e) = lk_side s (\<not> e)" by simp
  have "answerable (xin(e := rest)) xout ?s"
    unfolding answerable_def
  proof (intro allI impI)
    fix e' and j :: channel_id_t
    assume j: "unat j < 1024" and pre: "on_channel RemoveRequest j ((xin(e := rest)) (\<not> e') @ xout e') \<noteq> [] \<or>
        full RemoveResponse (sd_manager (lk_side ?s (\<not> e'))) j \<or>
        on_channel RemoveResponse j ((xin(e := rest)) e' @ xout (\<not> e')) \<noteq> []"
    from ok j have old:
      "on_channel RemoveRequest j (xin (\<not> e')) \<noteq> [] \<Longrightarrow> full RemoveRequest (sd_manager (lk_side s e')) j"
      "on_channel RemoveRequest j (xout e') \<noteq> [] \<Longrightarrow> full RemoveRequest (sd_manager (lk_side s e')) j"
      "full RemoveResponse (sd_manager (lk_side s (\<not> e'))) j \<Longrightarrow> full RemoveRequest (sd_manager (lk_side s e')) j"
      "on_channel RemoveResponse j (xin e') \<noteq> [] \<Longrightarrow> full RemoveRequest (sd_manager (lk_side s e')) j"
      "on_channel RemoveResponse j (xout (\<not> e')) \<noteq> [] \<Longrightarrow> full RemoveRequest (sd_manager (lk_side s e')) j"
      unfolding link_ok_def answerable_def packets_simps(6) by blast+
    have "full RemoveRequest (sd_manager (lk_side s e')) j"
    proof (cases "e' = e")
      case True
      with pre other x old show ?thesis by (auto split: if_splits)
    next
      case False
      then have e': "e' = (\<not> e)" by simp
      with pre new(2) f [of RemoveResponse j] x old show ?thesis by (auto split: if_splits)
    qed
    then show "full RemoveRequest (sd_manager (lk_side ?s e')) j"
      using f new(2) by (cases "e' = e") simp_all
  qed
  then have "link_ok contents (xin(e := rest)) xout ?s"
    by (intro link_ok_change [OF ok, where e = e]) (use new q x in auto)
  with run run' x show ?thesis by auto
qed

lemma receive_ok:
  assumes fifo: "fifo_buffer B contents" and ok: "link_ok contents xin xout s" and i: "unat i < 1024"
    and r: "slots cb (sd_manager (lk_side s e)) ! unat i = Some (ir_channel q)"
    and run: "InternalRequest_receiveMessage B q (sd_manager (lk_side s e)) = Ret ((OkStatus, Some m), g)"
  shows "link_ok contents xin xout
    ((put_side e (put_manager (sd_index (lk_side s e)) g (sd_connector (lk_side s e))) (sd_world (lk_side s e)) s)
       \<lparr>lk_received := record_message (\<not> e) (peer_kind cb) i m (lk_received s)\<rparr>)"
    (is "link_ok contents xin xout ?s")
proof -
  let ?d = "lk_side s e"
  from ok have side: "side_ok contents ?d (xin e) (xout e)" by (simp add: link_ok_def)
  then have g: "good contents (sd_fd ?d) (sd_manager ?d)" by (simp add: side_ok_def)
  note take = take_packet [OF fifo g i r run]
  have new: "side_ok contents (lk_side ?s e) (xin e) (xout e)" "sd_manager (lk_side ?s e) = g"
    using side_ok_update [OF side take(1), of "sd_world ?d" "xin e" "xout e"] side by (simp_all add: side_ok_def)
  have "full cb' (sd_manager (lk_side ?s e')) j = full cb' (sd_manager (lk_side s e')) j" for cb' e' j
    using new(2) take(4) by (cases "e' = e") simp_all
  then have ans: "answerable xin xout ?s" using ok by (simp add: link_ok_def answerable_def)
  have account: "lk_received ?s (\<not> e) cb' j @ queue contents (peer_kind cb') (sd_manager (lk_side ?s e)) j =
      lk_received s (\<not> e) cb' j @ queue contents (peer_kind cb') (sd_manager ?d) j" if "unat j < 1024" for cb' j
  proof (cases "cb' = peer_kind cb \<and> j = i")
    case True
    then show ?thesis using take(2) new(2) by (simp add: record_message_apply)
  next
    case False
    then have "peer_kind cb' \<noteq> cb \<or> j \<noteq> i" by auto
    with take(3) [OF that, of "peer_kind cb'"] new(2) False show ?thesis by (auto simp: record_message_apply)
  qed
  show ?thesis
    by (rule link_ok_change [OF ok, where e = e])
      (use new(1) ans account in \<open>simp_all add: record_message_apply flip: append_assoc\<close>)
qed

section \<open>Each channel is a queue\<close>

lemma link_start_ok:
  assumes "\<And>e. just_connected (d e)"
  shows "link_ok contents (\<lambda>e. []) (\<lambda>e. []) (link_start d)"
proof -
  have "\<not> full cb (sd_manager (d e)) i" if "unat i < 1024" for cb e i
    using assms [of e] that by (cases cb) (simp_all add: just_connected_def full_def InternalChannelManager_new_def)
  moreover have "queue contents cb (sd_manager (d e)) i = []" if "unat i < 1024" for cb e i
    using assms [of e] that by (simp add: just_connected_def)
  moreover have "side_ok contents (d e) [] []" for e
    using assms [of e] by (auto simp: just_connected_def side_ok_def good_def peer_ready_def new_inv)
  ultimately show ?thesis
    by (auto simp: link_ok_def link_start_def conserved_def answerable_def)
qed

lemma link_reached_ok:
  assumes "link_reached B d s" "fifo_buffer B contents" "\<And>e. just_connected (d e)"
  shows "\<exists>xin xout. link_ok contents xin xout s"
  using assms(1)
proof induction
  case start
  show ?case by (intro exI) (rule link_start_ok, rule assms(3))
next
  case (step s s')
  from step.IH obtain xin xout where ok: "link_ok contents xin xout s" by blast
  from step.hyps(2) show ?case
  proof cases
    case (turn e a continue es cn w)
    from turn_ok [OF assms(2) ok turn(2,3)] turn(1) show ?thesis by auto
  qed (use new_request_ok [OF assms(2) ok] send_ok [OF ok] carry_ok [OF ok] receive_ok [OF assms(2) ok] in blast)+
qed


text \<open>What has been written is carried over and read, turn by turn.\<close>

lemma read_all:
  assumes fifo: "fifo_buffer B contents" and ok: "link_ok contents xin xout s"
  shows "\<exists>s'. (link_step B)\<^sup>*\<^sup>* s s' \<and> link_ok contents (xin(e := [])) xout s' \<and>
    lk_sent s' = lk_sent s \<and> lk_received s' = lk_received s"
  using ok
proof (induction "length (xin e)" arbitrary: xin s)
  case 0
  then have "xin(e := []) = xin" by auto
  with 0 show ?case by auto
next
  case (Suc n)
  let ?d = "lk_side s e"
  from Suc.hyps(2) Suc.prems have more: "w_in (sd_world ?d) (sd_fd ?d) \<noteq> []"
    by (cases "xin e") (auto simp: link_ok_def side_ok_def)
  from turn_ok [OF fifo Suc.prems more refl, of 0] obtain es cn w rest where
    t: "Connector_runClient_turn B 0 (sd_index ?d) (sd_connector ?d) (sd_world ?d) = Ret (True, es, cn, w)"
      "link_ok contents (xin(e := rest)) xout (put_side e cn w s)" "xin e = hd (xin e) # rest" by metis
  from t(3) Suc.hyps(2) have "n = length ((xin(e := rest)) e)" by (metis fun_upd_same length_Cons nat.inject)
  from Suc.hyps(1) [OF this t(2)] obtain s' where s': "(link_step B)\<^sup>*\<^sup>* (put_side e cn w s) s'"
    "link_ok contents (xin(e := [])) xout s'" "lk_sent s' = lk_sent s" "lk_received s' = lk_received s" by auto
  from link_step.turn [OF more t(1)] s'(1) have "(link_step B)\<^sup>*\<^sup>* s s'" by (rule converse_rtranclp_into_rtranclp)
  with s' show ?case by blast
qed

lemma packets_bytes_empty [simp]: "packets_bytes xs = [] \<longleftrightarrow> xs = []"
  by (cases xs) simp_all



section \<open>Witnesses\<close>

definition sample_ends :: "bool \<Rightarrow> (message list option, string) side" where
  "sample_ends e = \<lparr>sd_connector = sample_connector, sd_index = 0, sd_world = sample_world\<rparr>"

lemma sample_just_connected [simp]: "just_connected (sample_ends e)"
  by (simp add: just_connected_def sample_ends_def)

lemma sample_link:
  "\<exists>s i. link_reached list_buffer sample_ends s \<and> unat i < 1024 \<and>
     lk_sent s True RemoveRequest i = [sample_message] \<and> lk_received s True RemoveRequest i = []"
proof -
  have m: "wf_message sample_message" "body_len sample_message + 12 < 4294967296" by simp_all
  have cl: "cn_clients sample_connector 0 = Some 0" and ready: "peer_ready 0 sample_connector sample_world"
    and bo: "buffers_open (\<lambda>b. b) (manager_of 0 sample_connector)"
    and fd: "4 = cl_clientFd (client_of 0 sample_connector)" by simp_all
  have free: "mg_freeList (manager_of 0 sample_connector) \<noteq> []"
    using mg_inv_free [OF new_inv, of 0 connector_config 4]
    by (auto simp: InternalChannelManager_new_def simp del: upt_rec_numeral)
  from request_sent [OF fifo_list_buffer cl ready bo free m fd] obtain i r g where
    new: "Connector_sendRequest list_buffer 0 sample_connector =
       Ret ((OkStatus, Some (0, InternalRequest_of_channel r)), put_manager 0 g sample_connector)"
    and sent: "InternalRequest_sendMessage (InternalRequest_of_channel r) sample_message
        (manager_of 0 (put_manager 0 g sample_connector)) sample_world =
       Ret (OkStatus, sample_world\<lparr>w_out := (w_out sample_world)(4 := w_out sample_world 4 @ wire 16 [(i, sample_message)])\<rparr>)"
    and i: "unat i < 1024" and g: "mg_inv g" "mg_config g = connector_config" "mg_requestChannel g ! unat i = Some r" by blast
  let ?s0 = "link_start sample_ends :: (message list option, string) link"
  let ?s1 = "put_side True (put_manager 0 g sample_connector) sample_world ?s0"
  have s0: "lk_side ?s0 True = \<lparr>sd_connector = sample_connector, sd_index = 0, sd_world = sample_world\<rparr>"
    by (simp add: link_start_def sample_ends_def)
  then have s1: "lk_side ?s1 True = \<lparr>sd_connector = put_manager 0 g sample_connector, sd_index = 0, sd_world = sample_world\<rparr>"
    by simp
  have step1: "link_step list_buffer ?s0 ?s1"
    using link_step.new_request [of list_buffer 0 ?s0 True] new unfolding s0 by fastforce
  have send: "sendable_on RemoveRequest g (r, sample_message)" "ch_id (mg_channels g ! r) = i"
    using slot_sendable [OF g(1) _ _ m, of i RemoveRequest r] g i by simp_all
  have step2: "link_reached list_buffer sample_ends ((put_side True (sd_connector (lk_side ?s1 True)) w ?s1)
      \<lparr>lk_sent := record_message True RemoveRequest i sample_message (lk_sent ?s1)\<rparr>)"
    if "w = sample_world\<lparr>w_out := (w_out sample_world)(4 := w_out sample_world 4 @ wire 16 [(i, sample_message)])\<rparr>" for w
    by (rule link_reached.step [OF link_reached.step [OF link_reached.start step1] link_step.send])
      (use send sent that s1 in simp_all)
  show ?thesis
    by (intro exI conjI, rule step2 [OF refl])
      (use i in \<open>simp_all add: record_message_apply link_start_def\<close>)
qed



end
