(* ===== verification/Discovery.thy ===== *)
theory Discovery
  imports Distributed Link
begin

text \<open>
  Two distributed servers find each other. One announces itself; the announcement makes the
  UDP server of the other connect back and acknowledge, and the TCP server of the first accepts and
  answers. What comes out are the two ends of a connection from which the runs of \<open>Link\<close>
  start.
\<close>

section \<open>The end of a connection after the handshake\<close>

text \<open>
  What a server and its process are for the connection to the peer at position \<open>k\<close>, when the
  network has carried over what was written.
\<close>

definition end_of :: "nat \<Rightarrow> ('b, 'h) ds_world \<Rightarrow> ('b, ds_handler) side" where
  "end_of k w =
     (let cn = ds_connector (dw_server w); f = cl_clientFd (client_of k cn)
      in \<lparr>sd_connector = cn, sd_index = k, sd_world = world.truncate (w\<lparr>w_out := (w_out w)(f := [])\<rparr>)\<rparr>)"

lemma truncate_simps [simp]:
  "w_open (world.truncate w) = w_open w" "w_in (world.truncate w) = w_in w"
  "w_out (world.truncate w) = w_out w" "w_script (world.truncate w) = w_script w"
  by (simp_all add: world.defs)

lemma with_peer_simps [simp]:
  "cn_clients (with_peer a c cn) = (cn_clients cn)(a \<mapsto> length (cn_objects cn))"
  "client_of (length (cn_objects cn)) (with_peer a c cn) = c"
  "manager_of (length (cn_objects cn)) (with_peer a c cn) =
     InternalChannelManager_new connector_config (cl_clientFd c)"
  "length (cn_objects (with_peer a c cn)) = Suc (length (cn_objects cn))"
  by (simp_all add: with_peer_def)

lemma new_peer_just_connected:
  assumes "ds_connector (dw_server w) = with_peer a c cn" "k = length (cn_objects cn)"
    "0 \<le> cl_clientFd c" "w_open w (cl_clientFd c)" "w_script w = []" "w_in w (cl_clientFd c) = []"
  shows "just_connected (end_of k w)"
  using assms by (simp add: just_connected_def end_of_def peer_ready_def new_inv Let_def)

section \<open>From the announcement to the connection\<close>

text \<open>The datagrams at the end of what a process has sent, as they arrive from an address.\<close>

definition announcement_from :: "sockaddr \<Rightarrow> 'z world_scheme \<Rightarrow> (sockaddr \<times> byte list) list" where
  "announcement_from src w = map (\<lambda>(f, dst, bs). (src, bs)) (drop (length (w_sent w) - 2) (w_sent w))"

lemma announced_from:
  "announced_on port w \<Longrightarrow> announcement_from src w =
     [(src, encode_header \<lparr>len = 2, protocol = kConnectRequestProtocol\<rparr>), (src, le16 port)]"
  by (auto simp: announced_on_def announcement_from_def)

text \<open>
  Server B is about to read the announcement of A, connects to A's port when it does, and does not know A
  yet; A accepts a connection from B's address next. What the other will have sent on the connection
  is there to be read.
\<close>

definition about_to_meet ::
    "u16 \<Rightarrow> sockaddr \<Rightarrow> sockaddr \<Rightarrow> 'z world_scheme \<Rightarrow> ('b, 'h) ds_world \<Rightarrow> ('b, 'h) ds_world \<Rightarrow> bool" where
  "about_to_meet port addrA addrB w wA wB \<longleftrightarrow>
     (let dA = dw_server wA; dB = dw_server wB; udp = srv_serverSocketFd (ds_udpServer dB) in
      (\<exists>ds. w_dgrams wB udp = announcement_from addrA w @ ds) \<and> w_open wB udp \<and>
      srv_handlers (ds_udpServer dB) kConnectRequestProtocol = Some (Some HandleConnect) \<and>
      (\<exists>i ifs. ds_interfaces dB = i # ifs \<and> i \<noteq> inet_ntop (sin_addr addrA)) \<and> sin_addr addrA \<notin> ds_peers dB \<and>
      (\<exists>p. reachable (inet_ntop (sin_addr addrA)) port p wB) \<and>
      cn_clients (ds_connector dB) (sin_addr (ai_addr (w_freed wB))) = None \<and>
      srv_handlers (ds_tcpServer dA) kConnectAckRequestProtocol = Some (Some HandleConnectAck) \<and>
      w_script wA = [] \<and> 0 \<le> w_next wA \<and> (\<exists>cs. w_conns wA (srv_serverSocketFd (ds_tcpServer dA)) = addrB # cs) \<and>
      cn_clients (ds_connector dA) (sin_addr addrB) = None \<and>
      w_out wB (w_next wB) = [] \<and> w_out wA (w_next wA) = [] \<and>
      w_in wA (w_next wA) = frame (connectAck_message kConnectAckRequestProtocol) \<and>
      w_in wB (w_next wB) = frame (connectAck_message kConnectAckResponseProtocol))"

text \<open>The position a server gives to its next peer.\<close>

abbreviation next_peer :: "('b, 'h) ds_world \<Rightarrow> nat" where
  "next_peer w \<equiv> length (cn_objects (ds_connector (dw_server w)))"

text \<open>What a server becomes by the handshake.\<close>

definition shook_hands :: "u32 \<Rightarrow> sockaddr \<Rightarrow> ('b, 'h) ds_world \<Rightarrow> ('b, 'h) ds_world \<Rightarrow> bool" where
  "shook_hands a peer w w' \<longleftrightarrow>
     (let d = dw_server w; d' = dw_server w' in
      (\<exists>c. ds_connector d' = with_peer a c (ds_connector d)) \<and>
      ds_handlers d' = ds_handlers d \<and> ds_defaultHandler d' = ds_defaultHandler d \<and>
      dw_events w' = dw_events w @ (if ds_has_connect_callback d then [PeerConnect (sin_addr peer)] else []) \<and>
      just_connected (end_of (next_peer w) w'))"

lemma servers_meet:
  assumes run: "DistributedServer_run dA w = Some (ts, Ret (st, dA', w'))" "multicast_ok (ds_multicastClient dA) w"
    and meet: "about_to_meet (ds_port dA) addrA addrB w' wA wB"
  obtains wB' wA' where "DistributedServer_udp_turn user B wB = Ret wB'" "DistributedServer_tcp_turn user B wA = Ret wA'"
    "w_out wB' (w_next wB) = w_in wA (w_next wA)" "w_out wA' (w_next wA) = w_in wB (w_next wB)"
    "shook_hands (sin_addr (ai_addr (w_freed wB))) addrA wB wB'" "shook_hands (sin_addr addrB) addrB wA wA'"
proof -
  let ?dA = "dw_server wA" and ?dB = "dw_server wB"
  from meet obtain ds i ifs p cs where
    B: "w_dgrams wB (srv_serverSocketFd (ds_udpServer ?dB)) = announcement_from addrA w' @ ds"
      "w_open wB (srv_serverSocketFd (ds_udpServer ?dB))"
      "srv_handlers (ds_udpServer ?dB) kConnectRequestProtocol = Some (Some HandleConnect)"
      "ds_interfaces ?dB = i # ifs" "i \<noteq> inet_ntop (sin_addr addrA)" "sin_addr addrA \<notin> ds_peers ?dB"
      "reachable (inet_ntop (sin_addr addrA)) (ds_port dA) p wB"
      "cn_clients (ds_connector ?dB) (sin_addr (ai_addr (w_freed wB))) = None"
    and A: "srv_handlers (ds_tcpServer ?dA) kConnectAckRequestProtocol = Some (Some HandleConnectAck)"
      "w_script wA = []" "0 \<le> w_next wA" "w_conns wA (srv_serverSocketFd (ds_tcpServer ?dA)) = addrB # cs"
      "cn_clients (ds_connector ?dA) (sin_addr addrB) = None"
    and connection: "w_out wB (w_next wB) = []" "w_out wA (w_next wA) = []"
      "w_in wA (w_next wA) = frame (connectAck_message kConnectAckRequestProtocol)"
      "w_in wB (w_next wB) = frame (connectAck_message kConnectAckResponseProtocol)"
    by (auto simp: about_to_meet_def Let_def)
  from connect_loop_sends [OF run(2)] run(1) have "announced_on (ds_port dA) w'"
    by (auto simp: DistributedServer_run_def)
  with B(1) have arrived: "w_dgrams wB (srv_serverSocketFd (ds_udpServer ?dB)) =
      (addrA, encode_header \<lparr>len = 2, protocol = kConnectRequestProtocol\<rparr>) # (addrA, le16 (ds_port dA)) # ds"
    by (simp add: announced_from)
  have answer: "w_in wB (w_next wB) = frame (connectAck_message kConnectAckResponseProtocol) @ []"
    and ack: "w_in wA (w_next wA) = frame (connectAck_message kConnectAckRequestProtocol) @ []"
    using connection by simp_all
  from udp_turn_connects [OF refl B(4-6,3,2) arrived B(7) answer B(8), of user B] obtain wB' where
    tB: "DistributedServer_udp_turn user B wB = Ret wB'" and
    cB: "ds_connector (dw_server wB') = with_peer (sin_addr (ai_addr (w_freed wB)))
      (peer_client (inet_ntop (sin_addr addrA)) (ds_port dA) wB) (ds_connector ?dB)" and
    hB: "ds_handlers (dw_server wB') = ds_handlers ?dB" "ds_defaultHandler (dw_server wB') = ds_defaultHandler ?dB" and
    wB': "w_open wB' = (w_open wB)(w_next wB := True)" "w_script wB' = []" "w_in wB' = (w_in wB)(w_next wB := [])"
      "w_out wB' (w_next wB) = frame (connectAck_message kConnectAckRequestProtocol)"
      "dw_events wB' = dw_events wB @ (if ds_has_connect_callback ?dB then [PeerConnect (sin_addr addrA)] else [])"
    using connection(1) by auto
  from tcp_turn_accepts [OF refl A(1-4) ack A(5), of user B] obtain wA' where
    tA: "DistributedServer_tcp_turn user B wA = Ret wA'" and
    cA: "ds_connector (dw_server wA') = with_peer (sin_addr addrB)
      (TcpClient_of_socket (w_next wA) (inet_ntop (sin_addr addrB)) (swap16 (sin_port addrB)) addrB)
      (ds_connector ?dA)" and
    hA: "ds_handlers (dw_server wA') = ds_handlers ?dA" "ds_defaultHandler (dw_server wA') = ds_defaultHandler ?dA" and
    wA': "w_open wA' = (w_open wA)(w_next wA := True)" "w_script wA' = []" "w_in wA' = (w_in wA)(w_next wA := [])"
      "w_out wA' (w_next wA) = frame (connectAck_message kConnectAckResponseProtocol)"
      "dw_events wA' = dw_events wA @ (if ds_has_connect_callback ?dA then [PeerConnect (sin_addr addrB)] else [])"
    using connection(2) by auto
  have "just_connected (end_of (next_peer wB) wB')"
    by (rule new_peer_just_connected [OF cB refl]) (use wB' B(7) in \<open>simp_all add: peer_client_def reachable_def\<close>)
  moreover have "just_connected (end_of (next_peer wA) wA')"
    by (rule new_peer_just_connected [OF cA refl])
      (use wA' A(3) in \<open>simp_all add: TcpClient_of_socket_def Client_new_addr_def\<close>)
  ultimately show thesis
    using that [OF tB tA] connection(3,4) wB'(4,5) wA'(4,5) cA cB hA hB by (simp add: shook_hands_def Let_def) blast
qed

text \<open>
  C1. Discovery. Server A runs and announces itself, whatever its kernel refuses on the way; server B
  receives the announcement, and A accepts the connection that B opens. Then each server has
  sent on the new connection exactly what the other has received, each has the other as one more
  client of its connector and has called its connect callback once, and the two connectors are the
  ends of a connection that has just been made, with nothing left to read.
\<close>

theorem discovery_links_servers:
  assumes run: "DistributedServer_run dA w = Some (ts, Ret (st, dA', w'))" "multicast_ok (ds_multicastClient dA) w"
    and meet: "about_to_meet (ds_port dA) addrA addrB w' wA wB"
    and callbacks: "ds_has_connect_callback (dw_server wA)" "ds_has_connect_callback (dw_server wB)"
  shows "\<exists>wB' wA'. DistributedServer_udp_turn user B wB = Ret wB' \<and>
    DistributedServer_tcp_turn user B wA = Ret wA' \<and>
    w_out wB' (w_next wB) = w_in wA (w_next wA) \<and> w_out wA' (w_next wA) = w_in wB (w_next wB) \<and>
    dw_events wB' = dw_events wB @ [PeerConnect (sin_addr addrA)] \<and>
    dw_events wA' = dw_events wA @ [PeerConnect (sin_addr addrB)] \<and>
    cn_clients (ds_connector (dw_server wA')) (sin_addr addrB) = Some (next_peer wA) \<and>
    cn_clients (ds_connector (dw_server wB')) (sin_addr (ai_addr (w_freed wB))) = Some (next_peer wB) \<and>
    just_connected (end_of (next_peer wB) wB') \<and> just_connected (end_of (next_peer wA) wA')"
proof (rule servers_meet [OF run meet, of user B])
  fix wB' wA'
  assume "DistributedServer_udp_turn user B wB = Ret wB'" "DistributedServer_tcp_turn user B wA = Ret wA'"
    "w_out wB' (w_next wB) = w_in wA (w_next wA)" "w_out wA' (w_next wA) = w_in wB (w_next wB)"
    "shook_hands (sin_addr (ai_addr (w_freed wB))) addrA wB wB'" "shook_hands (sin_addr addrB) addrB wA wA'"
  with callbacks show ?thesis by (auto simp: shook_hands_def Let_def)
qed

section \<open>A witness\<close>

definition accepting_world :: "(message list option, string) distributed_server \<Rightarrow> (message list option, string) ds_world" where
  "accepting_world d = world.extend
     (sample_world\<lparr>w_conns := (\<lambda>f. [null_sockaddr]),
        w_in := (\<lambda>f. frame (connectAck_message kConnectAckRequestProtocol))\<rparr>)
     \<lparr>dw_server = d, dw_events = []\<rparr>"

lemma accepting_world_simps [simp]:
  "dw_server (accepting_world d) = d" "dw_events (accepting_world d) = []" "w_script (accepting_world d) = []"
  "w_next (accepting_world d) = 5" "w_conns (accepting_world d) = (\<lambda>f. [null_sockaddr])"
  "w_in (accepting_world d) = (\<lambda>f. frame (connectAck_message kConnectAckRequestProtocol))"
  "w_out (accepting_world d) = (\<lambda>f. [])"
  by (simp_all add: accepting_world_def world.defs)

lemma sample_runs:
  fixes d :: "('b, 'h) distributed_server"
  assumes "ds_multicastClient d = MulticastClient_new ''eth0'' ''239.0.0.1'' 7000 1" "ds_port d = 7000"
  obtains c w' where "DistributedServer_run d sample_world =
      Some ([TcpServerThread, UdpServerThread], Ret (OkStatus, d\<lparr>ds_multicastClient := c\<rparr>, w'))"
    "announced_on 7000 w'" "multicast_ok (ds_multicastClient d) sample_world"
proof -
  have ok: "multicast_ok (ds_multicastClient d) sample_world"
    using assms by (simp add: multicast_ok_def MulticastClient_new_def Client_new_def client.defs multicast_client.defs)
  have "\<exists>c w'. DistributedServer_sendConnectMessage d sample_world = Ret (OkStatus, d\<lparr>ds_multicastClient := c\<rparr>, w')"
    using assms by (auto simp: DistributedServer_sendConnectMessage_def DistributedServer_multicastMessage_def
        MulticastClient_new_def Client_new_def client.defs multicast_client.defs MulticastClient_openSocket_def
        os_socket_def os_new_fd_def os_setsockopt_def os_control_def MulticastClient_sendMessage_def os_sendto_def
        mem_read_def kMessageHeaderLength_def Let_def)
  with connect_loop_sends [OF ok] assms(2) ok that show thesis
    by (auto simp: DistributedServer_run_def connect_loop.simps [of d sample_world])
qed

theorem discovery_links_servers_witness:
  "\<exists>c w' wB' wA'. DistributedServer_run sample_server sample_world =
      Some ([TcpServerThread, UdpServerThread], Ret (OkStatus, sample_server\<lparr>ds_multicastClient := c\<rparr>, w')) \<and>
    DistributedServer_udp_turn (\<lambda>h r d w. Undef) list_buffer answering_world = Ret wB' \<and>
    DistributedServer_tcp_turn (\<lambda>h r d w. Undef) list_buffer
      (accepting_world (sample_server\<lparr>ds_multicastClient := c\<rparr>)) = Ret wA' \<and>
    w_out wB' 5 = frame (connectAck_message kConnectAckRequestProtocol) \<and>
    dw_events wA' = [PeerConnect 0] \<and> just_connected (end_of 0 wB') \<and> just_connected (end_of 0 wA')"
proof -
  obtain c w' where run: "DistributedServer_run sample_server sample_world =
      Some ([TcpServerThread, UdpServerThread], Ret (OkStatus, sample_server\<lparr>ds_multicastClient := c\<rparr>, w'))"
    "announced_on 7000 w'" "multicast_ok (ds_multicastClient sample_server) sample_world"
    by (rule sample_runs [of sample_server]) (simp_all add: sample_server_def)
  have "\<exists>p. reachable host port p answering_world" for host port using reachable_answering by blast
  then have "about_to_meet 7000 null_sockaddr null_sockaddr w' (accepting_world (sample_server\<lparr>ds_multicastClient := c\<rparr>)) answering_world"
    using run(2) by (simp add: about_to_meet_def announced_from sample_server_def Connector_new_def)
  from discovery_links_servers [OF run(1,3) _, of null_sockaddr null_sockaddr, unfolded sample_server_simps, OF this,
      of "\<lambda>h r d w. Undef" list_buffer] run(1)
  show ?thesis by (auto simp: sample_server_def Connector_new_def)
qed

end
