(* ===== verification/Demos.thy ===== *)
theory Demos
  imports Servers Clients
begin

text \<open>
  The programs under \<^verbatim>\<open>src/demos\<close> that use one socket: a TCP server that prints what it receives, a
  TCP client and a multicast client that send what is typed, and a UDP server that prints. The
  world has a console: what the programs print, one text for each output statement. What the
  user has typed so far is an argument of a client; a client that has read all of it waits
  for more. What goes to the standard error output is left out.
\<close>

section \<open>The console\<close>

record console_world = world +
  co_output :: "string list"

definition print :: "string \<Rightarrow> 'z console_world_scheme \<Rightarrow> 'z console_world_scheme" where
  "print s w = w\<lparr>co_output := co_output w @ [s]\<rparr>"

definition endl :: string where
  "endl = [CHR 0x0A]"

text \<open>\<^verbatim>\<open>vector<uint8_t>(s.begin(), s.end())\<close> and \<^verbatim>\<open>string(v.begin(), v.end())\<close>.\<close>

definition text_bytes :: "string \<Rightarrow> byte list" where
  "text_bytes s = map (\<lambda>c. of_nat (of_char c)) s"

definition bytes_text :: "byte list \<Rightarrow> string" where
  "bytes_text bs = map (\<lambda>b. char_of (unat b)) bs"

lemma length_text_bytes [simp]: "length (text_bytes s) = length s"
  by (simp add: text_bytes_def)

lemma bytes_text_text_bytes [simp]: "bytes_text (text_bytes s) = s"
proof -
  have "unat (of_nat (of_char c) :: byte) = of_char c" for c :: char
    by (simp add: unat_of_nat char_of_def)
  then show ?thesis by (simp add: text_bytes_def bytes_text_def comp_def)
qed

lemma print_simps [simp]:
  "co_output (print s w) = co_output w @ [s]"
  "w_open (print s w) = w_open w" "w_next (print s w) = w_next w" "w_in (print s w) = w_in w"
  "w_out (print s w) = w_out w" "w_dgrams (print s w) = w_dgrams w" "w_sent (print s w) = w_sent w"
  "w_script (print s w) = w_script w" "w_closes (print s w) = w_closes w"
  by (simp_all add: print_def)

section \<open>The clients\<close>

text \<open>The message made of a typed line.\<close>

definition console_message :: "protocol_t \<Rightarrow> string \<Rightarrow> message" where
  "console_message p line =
     \<lparr>header = \<lparr>len = of_nat (length line), protocol = p\<rparr>, data = text_bytes line\<rparr>"

text \<open>
  One turn of the loop of a client, for what the user types in it; a number is the exit code of
  the program, \<open>None\<close> means that the loop goes on. \<open>send\<close> is the send operation of the client.
\<close>

definition client_demo_turn ::
    "(message \<Rightarrow> 'z console_world_scheme \<Rightarrow> (status \<times> 'z console_world_scheme) outcome) \<Rightarrow>
     protocol_t \<times> string \<Rightarrow> 'z console_world_scheme \<Rightarrow> (int option \<times> 'z console_world_scheme) outcome" where
  "client_demo_turn send typed w =
     (case typed of (p, line) \<Rightarrow>
        let w = print ''Enter protocol: '' w;
            w = print ''Enter message: '' w;
            m = console_message p line;
            w = print (''Sending '' @ show_nat (unat (len (header m))) @ '' bytes to server.'' @ endl) w
        in bind_outcome (send m w) (\<lambda>(st, w).
             if \<not> status_ok st then Ret (Some 1, print (''Could not send message.'' @ endl) w)
             else Ret (None, w)))"

primrec client_demo_loop ::
    "(message \<Rightarrow> 'z console_world_scheme \<Rightarrow> (status \<times> 'z console_world_scheme) outcome) \<Rightarrow>
     (protocol_t \<times> string) list \<Rightarrow> 'z console_world_scheme \<Rightarrow>
     (int option \<times> 'z console_world_scheme) outcome" where
  "client_demo_loop send [] w = Ret (None, w)"
| "client_demo_loop send (x # xs) w =
     bind_outcome (client_demo_turn send x w) (\<lambda>(exit, w).
       case exit of Some code \<Rightarrow> Ret (Some code, w) | None \<Rightarrow> client_demo_loop send xs w)"

text \<open>The TCP client; the destructor of the client runs when \<^verbatim>\<open>main\<close> returns.\<close>

definition tcp_client_demo ::
    "(protocol_t \<times> string) list \<Rightarrow> 'z console_world_scheme \<Rightarrow>
     (int option \<times> client \<times> 'z console_world_scheme) outcome" where
  "tcp_client_demo typed w =
     bind_outcome (TcpClient_openSocket (TcpClient_new ''localhost'' 7000) w) (\<lambda>(st, c, w).
       if \<not> status_ok st
       then Ret (Some 1, c, TcpClient_destroy c (print (''Could not open socket.'' @ endl) w))
       else bind_outcome (client_demo_loop (TcpClient_sendMessage c) typed w) (\<lambda>(exit, w).
              Ret (exit, c, case exit of None \<Rightarrow> w | Some _ \<Rightarrow> TcpClient_destroy c w)))"

text \<open>The multicast client.\<close>

definition multicast_client_demo ::
    "(protocol_t \<times> string) list \<Rightarrow> 'z console_world_scheme \<Rightarrow>
     (int option \<times> multicast_client \<times> 'z console_world_scheme) outcome" where
  "multicast_client_demo typed w =
     (case MulticastClient_openSocket (MulticastClient_new ''lo'' ''224.0.0.1'' 6000 1) w of (st, c, w) \<Rightarrow>
       if \<not> status_ok st
       then Ret (Some 1, c, MulticastClient_destroy c (print (''Failed to open socket.'' @ endl) w))
       else bind_outcome (client_demo_loop (MulticastClient_sendMessage c) typed w) (\<lambda>(exit, w).
              Ret (exit, c, case exit of None \<Rightarrow> w | Some _ \<Rightarrow> MulticastClient_destroy c w)))"

section \<open>The servers\<close>

text \<open>What both handlers print for a message.\<close>

definition print_message :: "message \<Rightarrow> 'z console_world_scheme \<Rightarrow> 'z console_world_scheme" where
  "print_message m w =
     print (''As string: '' @ bytes_text (data m) @ endl)
       (print (''Protocol: '' @ show_nat (unat (protocol (header m))) @ endl)
         (print (''Received request: '' @ show_nat (unat (len (header m))) @ endl) w))"

text \<open>
  The handler of the TCP server prints messages until one cannot be received or has protocol 0.
  A message that is received takes bytes from the stream, so the loop ends.
\<close>

function tcp_demo_handler ::
    "tcp_request \<Rightarrow> 'z console_world_scheme \<Rightarrow> (tcp_request \<times> 'z console_world_scheme) outcome" where
  "tcp_demo_handler r w =
     (case TcpRequest_receiveMessage r w of ((st, message), r', w') \<Rightarrow>
        if \<not> status_ok st then Ret (r', w')
        else case message of
               None \<Rightarrow> Undef
             | Some m \<Rightarrow>
                 let v = print_message m w' in
                 if protocol (header m) = 0 then Ret (r', print (''Closing connection.'' @ endl) v)
                 else tcp_demo_handler r' v)"
  by pat_completeness auto

termination
  by (relation "measure (\<lambda>(r, w). length (w_in w (tr_clientSocketFd r)) +
        (case tr_message r of None \<Rightarrow> 0 | Some _ \<Rightarrow> 1))")
    (auto simp: TcpRequest_receiveMessage_def print_message_def frame_def
      dest!: readMessage_sound split: option.splits prod.splits)

declare tcp_demo_handler.simps [simp del]

definition tcp_demo_act ::
    "'h \<Rightarrow> tcp_request \<Rightarrow> 'z console_world_scheme \<Rightarrow>
     (status \<times> tcp_request option \<times> 'z console_world_scheme) outcome" where
  "tcp_demo_act h r w = bind_outcome (tcp_demo_handler r w) (\<lambda>(r, w). Ret (OkStatus, Some r, w))"

text \<open>\<^verbatim>\<open>main\<close> of the TCP server, for \<open>n\<close> turns of its loop; a constructor that throws ends it.\<close>

definition tcp_server_demo ::
    "nat \<Rightarrow> 'z console_world_scheme \<Rightarrow> (string + unit server \<times> 'z console_world_scheme) outcome" where
  "tcp_server_demo n w =
     (case TcpServer_new 7000 () w of
        (Inl e, w) \<Rightarrow> Ret (Inl e)
      | (Inr s, w) \<Rightarrow>
          bind_outcome (TcpServer_run (own_tcp_request tcp_demo_act) n s
            (print (''Server listening on port 7000.'' @ endl) w)) (\<lambda>r. Ret (Inr r)))"

text \<open>The handler of the UDP server. A request gives its message once, so its loop ends.\<close>

function udp_demo_handler :: "udp_request \<Rightarrow> 'z console_world_scheme \<Rightarrow> 'z console_world_scheme outcome" where
  "udp_demo_handler r w =
     (case UdpRequest_receiveMessage r of ((st, message), r') \<Rightarrow>
        if \<not> status_ok st then Ret w
        else case message of None \<Rightarrow> Undef | Some m \<Rightarrow> udp_demo_handler r' (print_message m w))"
  by pat_completeness auto

termination
  by (relation "measure (\<lambda>(r, w). case ur_message r of None \<Rightarrow> 0 | Some _ \<Rightarrow> 1)")
    (auto simp: UdpRequest_receiveMessage_def split: option.splits)

declare udp_demo_handler.simps [simp del]

definition udp_demo_act ::
    "'h \<Rightarrow> udp_request \<Rightarrow> 'z console_world_scheme \<Rightarrow> (status \<times> 'z console_world_scheme) outcome" where
  "udp_demo_act h r w =
     bind_outcome (udp_demo_handler r w) (\<lambda>w. Ret (OkStatus, UdpRequest_terminate r w))"

definition udp_server_demo ::
    "nat \<Rightarrow> 'z console_world_scheme \<Rightarrow> (string + unit server \<times> 'z console_world_scheme) outcome" where
  "udp_server_demo n w =
     (case UdpServer_new 6000 ''224.0.0.1'' [''127.0.0.1''] () w of
        (Inl e, w) \<Rightarrow> Ret (Inl e)
      | (Inr s, w) \<Rightarrow>
          bind_outcome (UdpServer_run udp_demo_act n s
            (print (''Server listening on port 6000.'' @ endl) w)) (\<lambda>r. Ret (Inr r)))"

section \<open>From the keyboard to the screen\<close>

abbreviation typed_messages :: "(protocol_t \<times> string) list \<Rightarrow> message list" where
  "typed_messages typed \<equiv> map (\<lambda>(p, line). console_message p line) typed"

definition message_lines :: "message \<Rightarrow> string list" where
  "message_lines m =
     [''Received request: '' @ show_nat (unat (len (header m))) @ endl,
      ''Protocol: '' @ show_nat (unat (protocol (header m))) @ endl,
      ''As string: '' @ bytes_text (data m) @ endl]"

text \<open>What the TCP server prints for the messages of one connection.\<close>

primrec conversation_lines :: "message list \<Rightarrow> string list" where
  "conversation_lines [] = []"
| "conversation_lines (m # ms) =
     message_lines m @
     (if protocol (header m) = 0 then [''Closing connection.'' @ endl] else conversation_lines ms)"

lemma print_message_simps [simp]:
  "co_output (print_message m w) = co_output w @ message_lines m"
  "w_open (print_message m w) = w_open w" "w_in (print_message m w) = w_in w"
  "w_script (print_message m w) = w_script w" "w_closes (print_message m w) = w_closes w"
  "w_dgrams (print_message m w) = w_dgrams w"
  by (simp_all add: print_message_def message_lines_def print_def)

lemma console_message_wf: "length line < 4294967296 \<Longrightarrow> wf_message (console_message p line)"
  by (simp add: console_message_def wf_message_def unat_of_nat)

lemma readMessage_nothing:
  "w_script w = [] \<Longrightarrow> w_in w f = [] \<Longrightarrow> \<exists>e w'. readMessage f w = ((InvalidArgumentError e, None), w') \<and>
     co_output w' = co_output w \<and> w_closes w' = w_closes w"
  for w :: "'z console_world_scheme"
  by (auto simp: readMessage_def os_recv_def kMessageHeaderLength_def Let_def)

lemma tcp_demo_handler_stream:
  assumes "w_script w = []" "w_open w (tr_clientSocketFd r)" "tr_message r = None" "\<forall>m \<in> set ms. wf_message m"
    "w_in w (tr_clientSocketFd r) = concat (map frame ms)"
  shows "\<exists>w'. tcp_demo_handler r w = Ret (r, w') \<and>
    co_output w' = co_output w @ conversation_lines ms \<and> w_closes w' = w_closes w"
  using assms
proof (induction ms arbitrary: w)
  case Nil
  then obtain e w' where "readMessage (tr_clientSocketFd r) w = ((InvalidArgumentError e, None), w')"
    "co_output w' = co_output w" "w_closes w' = w_closes w" using readMessage_nothing by fastforce
  with Nil.prems(3) show ?case
    by (simp add: tcp_demo_handler.simps [of r w] TcpRequest_receiveMessage_def)
next
  case (Cons m ms)
  let ?w = "w\<lparr>w_in := (w_in w)(tr_clientSocketFd r := concat (map frame ms))\<rparr>"
  have "readMessage (tr_clientSocketFd r) w = ((OkStatus, Some m), ?w)"
    using Cons.prems by (intro readMessage_complete) simp_all
  then have run: "tcp_demo_handler r w =
      (if protocol (header m) = 0 then Ret (r, print (''Closing connection.'' @ endl) (print_message m ?w))
       else tcp_demo_handler r (print_message m ?w))"
    using Cons.prems(3) by (simp add: tcp_demo_handler.simps [of r w] TcpRequest_receiveMessage_def Let_def)
  from Cons.IH [of "print_message m ?w"] Cons.prems obtain w' where
    "tcp_demo_handler r (print_message m ?w) = Ret (r, w')" 
    "co_output w' = co_output w @ message_lines m @ conversation_lines ms" "w_closes w' = w_closes w" by auto
  with run show ?case by auto
qed

lemma client_demo_sends:
  assumes run: "client_demo_loop (TcpClient_sendMessage c) typed w = Ret (None, w')" and c: "client_ok c"
    and short: "\<forall>(p, line) \<in> set typed. length line < 4294967296"
  shows "w_out w' (cl_clientFd c) = w_out w (cl_clientFd c) @ concat (map frame (typed_messages typed))"
  using run short
proof (induction typed arbitrary: w)
  case (Cons x xs)
  obtain p line where x: "x = (p, line)" by fastforce
  from Cons.prems obtain v v' where sent: "TcpClient_sendMessage c (console_message p line) v = Ret (OkStatus, v')"
    and v: "w_out v = w_out w" and rest: "client_demo_loop (TcpClient_sendMessage c) xs v' = Ret (None, w')"
    by (auto simp: x client_demo_turn_def Let_def outcome_simps split: if_splits option.splits)
  have wf: "wf_message (console_message p line)" using Cons.prems(2) by (intro console_message_wf) (auto simp: x)
  have "w_out v' (cl_clientFd c) = w_out v (cl_clientFd c) @ frame (console_message p line)"
    by (rule tcp_sender.sends_ok) (use sent c wf in auto)
  with Cons.IH [OF rest] Cons.prems(2) v show ?case by (simp add: x)
qed simp

lemma tcp_connect_loop_out: "tcp_connect_loop f infos w = (g, w') \<Longrightarrow> w_out w' = w_out w"
proof (induction infos arbitrary: f w)
  case (Cons p ps)
  obtain h w1 where sock: "os_socket w = (h, w1)" by fastforce
  then have "w_out w1 = w_out w" by (auto simp: os_socket_def os_new_fd_def os_answer_frame split: prod.splits if_splits)
  moreover obtain r w2 where con: "os_connect h (ai_addr p) w1 = (r, w2)" by fastforce
  then have "w_out w2 = w_out w1"
    by (auto simp: os_connect_def os_control_def os_answer_frame split: prod.splits if_splits)
  ultimately show ?case using Cons sock con by (fastforce simp: os_close_def split: if_splits)
qed simp

lemma tcp_client_demo_sends:
  assumes run: "tcp_client_demo typed w = Ret (None, c, w')" and w: "fds_ok w" "\<forall>f. w_out w f = []"
    and short: "\<forall>(p, line) \<in> set typed. length line < 4294967296"
  shows "w_out w' (cl_clientFd c) = concat (map frame (typed_messages typed))"
proof -
  let ?c = "TcpClient_new ''localhost'' 7000"
  from run obtain w1 where opn: "TcpClient_openSocket ?c w = Ret (OkStatus, c, w1)"
    and loop: "client_demo_loop (TcpClient_sendMessage c) typed w1 = Ret (None, w')"
    by (auto simp: tcp_client_demo_def outcome_simps split: if_splits option.splits)
  have closed: "\<not> cl_isSocketOpen ?c" "tcp_client_inv (w_open w) ?c w"
    using w(1) by (simp_all add: TcpClient_new_def Client_new_def tcp_client_inv_def client_ok_def)
  have "w_out w1 = w_out w"
    using opn closed(1) by (rule TcpClient_openSocket_cases) (auto dest: tcp_connect_loop_out)
  moreover have "client_ok c"
    using TcpClient_openSocket_inv [OF opn closed(2)] by (simp add: tcp_client_inv_def)
  ultimately show ?thesis using client_demo_sends [OF loop _ short] w(2) by simp
qed


text \<open>
  C24. The TCP demos together: what is typed into the client, as long as it goes on, is what the
  server prints when it serves the connection, line by line up to the first message with
  protocol 0, and then the server closes the connection, once. The kernel of the client may
  fail as it likes.
\<close>

theorem tcp_demo_prints_typed:
  assumes client: "tcp_client_demo typed w = Ret (None, c, w')" "fds_ok w" "\<forall>f. w_out w f = []"
    and typed: "typed \<noteq> []" "\<forall>(p, line) \<in> set typed. length line < 4294967296"
    and server: "w_script v = []" "w_conns v (srv_serverSocketFd s) = a # cs" "0 \<le> w_next v"
    and connection: "w_in v (w_next v) = w_out w' (cl_clientFd c)"
  shows "\<exists>s' v'. TcpServer_run_turn (own_tcp_request tcp_demo_act) s v = Ret (s', v') \<and>
    co_output v' = co_output v @ conversation_lines (typed_messages typed) \<and>
    w_closes v' = w_next v # w_closes v"
proof -
  let ?f = "w_next v"
  obtain m ms where ms: "typed_messages typed = m # ms" using typed(1) by (cases typed) auto
  have "\<forall>m \<in> set (typed_messages typed). wf_message m" using typed(2) console_message_wf by auto
  then have wf: "wf_message m" "\<forall>m \<in> set ms. wf_message m" by (auto simp: ms)
  have stream: "w_in v ?f = frame m @ concat (map frame ms)"
    using tcp_client_demo_sends [OF client typed(2)] connection ms by simp
  let ?v1 = "v\<lparr>w_conns := (w_conns v)(srv_serverSocketFd s := cs), w_open := (w_open v)(?f := True), w_next := ?f + 1\<rparr>"
  let ?v2 = "?v1\<lparr>w_in := (w_in v)(?f := concat (map frame ms))\<rparr>"
  have acc: "os_accept (srv_serverSocketFd s) v = Ret (?f, Some a, ?v1)"
    using server by (simp add: os_accept_def os_new_fd_def)
  have rd: "readMessage ?f ?v1 = ((OkStatus, Some m), ?v2)"
    using readMessage_complete [of ?v1 ?f m "concat (map frame ms)"] stream server wf by simp
  let ?r = "TcpRequest_new ?f a m" and ?r' = "(TcpRequest_new ?f a m)\<lparr>tr_message := None\<rparr>"
  have first: "tcp_demo_handler ?r ?v2 =
      (if protocol (header m) = 0 then Ret (?r', print (''Closing connection.'' @ endl) (print_message m ?v2))
       else tcp_demo_handler ?r' (print_message m ?v2))"
    by (subst tcp_demo_handler.simps) (simp add: TcpRequest_receiveMessage_def TcpRequest_new_def Let_def)
  have "\<exists>v3. tcp_demo_handler ?r' (print_message m ?v2) = Ret (?r', v3) \<and>
      co_output v3 = co_output (print_message m ?v2) @ conversation_lines ms \<and>
      w_closes v3 = w_closes (print_message m ?v2)"
    by (rule tcp_demo_handler_stream) (use server wf in \<open>simp_all add: TcpRequest_new_def\<close>)
  with first obtain v3 where "tcp_demo_handler ?r ?v2 = Ret (?r', v3)"
    "co_output v3 = co_output v @ conversation_lines (m # ms)" "w_closes v3 = w_closes v"
    by (cases "protocol (header m) = 0") auto
  with acc rd server(3) show ?thesis
    by (simp add: TcpServer_run_turn_def Server_handleRequest_target own_tcp_request_def tcp_demo_act_def
        bind_outcome_assoc TcpRequest_destroy_def TcpRequest_terminate_def TcpRequest_new_def os_close_def ms Let_def)
qed

text \<open>
  The two datagrams of every typed line, and the UDP server that receives them.
\<close>

primrec datagrams :: "message list \<Rightarrow> byte list list" where
  "datagrams [] = []"
| "datagrams (m # ms) = encode_header (header m) # data m # datagrams ms"

lemma multicast_client_sends:
  assumes run: "client_demo_loop (MulticastClient_sendMessage c) typed w = Ret (None, w')"
    and short: "\<forall>(p, line) \<in> set typed. length line < 4294967296"
  shows "w_sent w' = w_sent w @ map (\<lambda>bs. (cl_clientFd c, cl_clientAddr c, bs)) (datagrams (typed_messages typed))"
  using run short
proof (induction typed arbitrary: w)
  case (Cons x xs)
  obtain p line where x: "x = (p, line)" by fastforce
  let ?m = "console_message p line"
  from Cons.prems obtain v v' where sent: "MulticastClient_sendMessage c ?m v = Ret (OkStatus, v')"
    and v: "w_sent v = w_sent w" and rest: "client_demo_loop (MulticastClient_sendMessage c) xs v' = Ret (None, w')"
    by (auto simp: x client_demo_turn_def Let_def outcome_simps split: if_splits option.splits)
  have "wf_message ?m" using Cons.prems(2) by (intro console_message_wf) (auto simp: x)
  then have "w_sent v' = w_sent v @
      map (\<lambda>bs. (cl_clientFd c, cl_clientAddr c, bs)) [encode_header (header ?m), data ?m]"
    using sent
    by (auto simp: MulticastClient_sendMessage_def os_sendto_def os_answer_frame outcome_simps mem_read_def
        kMessageHeaderLength_def wf_message_def split: prod.splits if_splits)
  with Cons.IH [OF rest] Cons.prems(2) v show ?case by (simp add: x)
qed simp

lemma udp_demo_act_prints:
  "udp_demo_act h (UdpRequest_new a m) w = Ret (OkStatus, print_message m w)"
  by (simp add: udp_demo_act_def udp_demo_handler.simps UdpRequest_receiveMessage_def UdpRequest_new_def
      UdpRequest_terminate_def)

lemma udp_demo_serves:
  assumes "w_script v = []" "w_open v (srv_serverSocketFd s)" "\<forall>m \<in> set ms. wf_message m"
    "w_dgrams v (srv_serverSocketFd s) = map (Pair a) (datagrams ms)"
  shows "\<exists>s' v'. UdpServer_run udp_demo_act (length ms) s v = Ret (s', v') \<and>
    co_output v' = co_output v @ concat (map message_lines ms)"
  using assms
proof (induction ms arbitrary: s v)
  case (Cons m ms)
  let ?f = "srv_serverSocketFd s"
  let ?v = "print_message m (v\<lparr>w_dgrams := (w_dgrams v)(?f := map (Pair a) (datagrams ms))\<rparr>)"
  let ?s = "snd (Server_lookup (protocol (header m)) s)"
  have turn: "UdpServer_run_turn udp_demo_act s v = Ret (?s, ?v)"
    using UdpServer_turn_pair [of v s m a "map (Pair a) (datagrams ms)" udp_demo_act] Cons.prems
    by (simp add: udp_demo_act_prints)
  have fd: "srv_serverSocketFd ?s = ?f" by (simp add: Server_lookup_def split: option.split)
  from Cons.IH [of ?v ?s] Cons.prems fd turn show ?case by fastforce
qed simp

text \<open>
  C25. The UDP demos together: what is typed into the multicast client is what the server prints,
  when the datagrams of the client reach it in order and no others come between.
\<close>

theorem udp_demo_prints_typed:
  assumes client: "multicast_client_demo typed w = Ret (None, c, w')" "w_sent w = []"
    and typed: "\<forall>(p, line) \<in> set typed. length line < 4294967296"
    and server: "w_script v = []" "w_open v (srv_serverSocketFd s)"
    and network: "w_dgrams v (srv_serverSocketFd s) = map (\<lambda>(f, dst, bs). (a, bs)) (w_sent w')"
  shows "\<exists>s' v'. UdpServer_run udp_demo_act (length typed) s v = Ret (s', v') \<and>
    co_output v' = co_output v @ concat (map message_lines (typed_messages typed))"
proof -
  let ?c = "MulticastClient_new ''lo'' ''224.0.0.1'' 6000 1"
  from client(1) obtain w1 where opn: "MulticastClient_openSocket ?c w = (OkStatus, c, w1)"
    and loop: "client_demo_loop (MulticastClient_sendMessage c) typed w1 = Ret (None, w')"
    by (auto simp: multicast_client_demo_def outcome_simps split: prod.splits if_splits option.splits)
  have "w_sent w1 = w_sent w"
    using opn by (auto simp: MulticastClient_openSocket_def os_socket_def os_new_fd_def os_setsockopt_def
        os_control_def os_answer_frame split: prod.splits if_splits)
  with multicast_client_sends [OF loop typed] client(2) network
  have "w_dgrams v (srv_serverSocketFd s) = map (Pair a) (datagrams (typed_messages typed))"
    by (simp add: comp_def)
  moreover have "\<forall>m \<in> set (typed_messages typed). wf_message m" using typed console_message_wf by auto
  ultimately show ?thesis
    using udp_demo_serves [OF server, of "typed_messages typed" a] by simp
qed


section \<open>Witnesses\<close>

definition console :: "world \<Rightarrow> console_world" where
  "console w = world.extend w \<lparr>co_output = []\<rparr>"

lemma console_simps [simp]:
  "co_output (console w) = []" "w_open (console w) = w_open w" "w_next (console w) = w_next w"
  "w_in (console w) = w_in w" "w_out (console w) = w_out w" "w_script (console w) = w_script w"
  "w_conns (console w) = w_conns w" "w_sent (console w) = w_sent w" "w_closes (console w) = w_closes w"
  "w_dgrams (console w) = w_dgrams w" "w_resolve (console w) = w_resolve w"
  by (simp_all add: console_def world.defs)

lemma digits: "char_of (48 :: nat) = CHR ''0''" "char_of (50 :: nat) = CHR ''2''"
  "char_of (51 :: nat) = CHR ''3''" "char_of (55 :: nat) = CHR ''7''"
  by (simp_all add: char_of_def bit_0)

text \<open>A world in which \<^verbatim>\<open>localhost\<close> can be reached.\<close>

definition reachable_world :: console_world where
  "reachable_world = console (sample_world\<lparr>w_resolve := (\<lambda>h p. Some [\<lparr>ai_family = 2, ai_addr = null_sockaddr\<rparr>])\<rparr>)"

abbreviation demo_server :: "unit server" where
  "demo_server \<equiv> \<lparr>srv_port = 7000, srv_handlers = Map.empty, srv_defaultHandler = (), srv_serverSocketFd = 4\<rparr>"

theorem tcp_demo_prints_typed_witness:
  "\<exists>c w' s' v'. tcp_client_demo [(7, ''hi''), (0, ''bye'')] reachable_world = Ret (None, c, w') \<and>
     TcpServer_run_turn (own_tcp_request tcp_demo_act) demo_server
       (console (sample_world\<lparr>w_conns := (\<lambda>f. [null_sockaddr]), w_in := (\<lambda>f. w_out w' (cl_clientFd c))\<rparr>)) = Ret (s', v') \<and>
     co_output v' =
       [''Received request: 2'' @ endl, ''Protocol: 7'' @ endl, ''As string: hi'' @ endl,
        ''Received request: 3'' @ endl, ''Protocol: 0'' @ endl, ''As string: bye'' @ endl,
        ''Closing connection.'' @ endl] \<and>
     w_closes v' = [5]"
proof -
  let ?typed = "[(7, ''hi''), (0, ''bye'')] :: (protocol_t \<times> string) list"
  have "\<exists>c w'. tcp_client_demo ?typed reachable_world = Ret (None, c, w')"
    by (simp add: tcp_client_demo_def TcpClient_openSocket_def TcpClient_new_def Client_new_def reachable_world_def
        os_socket_def os_new_fd_def os_connect_def os_control_def sizeof_sockaddr_def ai_addrlen_def
        client_demo_turn_def TcpClient_sendMessage_def os_send_no_fault console_message_def mem_read_def
        kMessageHeaderLength_def AF_INET6_def console_def world.defs print_def Let_def)
  then obtain c w' where client: "tcp_client_demo ?typed reachable_world = Ret (None, c, w')" by blast
  let ?v = "console (sample_world\<lparr>w_conns := (\<lambda>f. [null_sockaddr]), w_in := (\<lambda>f. w_out w' (cl_clientFd c))\<rparr>)"
  have "\<exists>s' v'. TcpServer_run_turn (own_tcp_request tcp_demo_act) demo_server ?v = Ret (s', v') \<and>
      co_output v' = co_output ?v @ conversation_lines (typed_messages ?typed) \<and> w_closes v' = w_next ?v # w_closes ?v"
    by (rule tcp_demo_prints_typed [OF client])
      (simp_all add: reachable_world_def fds_ok_def)
  with client show ?thesis
    by (auto simp: message_lines_def console_message_def show_nat.simps digits)
qed

theorem udp_demo_prints_typed_witness:
  "\<exists>c w' s' v'. multicast_client_demo [(7, ''hi'')] reachable_world = Ret (None, c, w') \<and>
     UdpServer_run udp_demo_act 1 demo_server
       (console (sample_world\<lparr>w_dgrams := (\<lambda>f. map (\<lambda>(f, dst, bs). (null_sockaddr, bs)) (w_sent w'))\<rparr>)) = Ret (s', v') \<and>
     co_output v' = [''Received request: 2'' @ endl, ''Protocol: 7'' @ endl, ''As string: hi'' @ endl]"
proof -
  let ?typed = "[(7, ''hi'')] :: (protocol_t \<times> string) list"
  have "\<exists>c w'. multicast_client_demo ?typed reachable_world = Ret (None, c, w')"
    by (simp add: multicast_client_demo_def MulticastClient_openSocket_def MulticastClient_new_def Client_new_def
        reachable_world_def os_socket_def os_new_fd_def os_setsockopt_def os_control_def
        client_demo_turn_def MulticastClient_sendMessage_def os_sendto_def console_message_def mem_read_def
        kMessageHeaderLength_def console_def world.defs client.defs multicast_client.defs print_def Let_def)
  then obtain c w' where client: "multicast_client_demo ?typed reachable_world = Ret (None, c, w')" by blast
  let ?v = "console (sample_world\<lparr>w_dgrams := (\<lambda>f. map (\<lambda>(f, dst, bs). (null_sockaddr, bs)) (w_sent w'))\<rparr>)"
  have "\<exists>s' v'. UdpServer_run udp_demo_act (length ?typed) demo_server ?v = Ret (s', v') \<and>
      co_output v' = co_output ?v @ concat (map message_lines (typed_messages ?typed))"
    by (rule udp_demo_prints_typed [OF client, of ?v demo_server null_sockaddr])
      (simp_all add: reachable_world_def)
  with client show ?thesis
    by (auto simp: message_lines_def console_message_def show_nat.simps digits)
qed

end
