(* ===== verification/DistributedDemo.thy ===== *)
theory DistributedDemo
  imports Distributed Demos
begin

text \<open>
  \<^verbatim>\<open>src/demos/distributed_demo.cc\<close>: a distributed server with an echo handler, and a shell from
  which the user sends lines to the echo handler of another server. The start of \<^verbatim>\<open>main\<close>, an
  iteration of the handler's loop and an iteration of the shell's echo loop, cut where the shell
  waits for the reply. Logging is left out.
\<close>

section \<open>Starting\<close>

datatype demo_handler = DemoDefault | DemoEcho

text \<open>
  \<^verbatim>\<open>std::stoi\<close>: white space, a sign, digits; \<open>None\<close> when it throws, without digits or when the
  number is no \<^verbatim>\<open>int\<close>.
\<close>

definition stoi :: "string \<Rightarrow> int option" where
  "stoi s =
     (let t = dropWhile (\<lambda>c. c \<in> set [CHR 0x20, CHR 0x09, CHR 0x0A, CHR 0x0B, CHR 0x0C, CHR 0x0D]) s;
          negative = (t \<noteq> [] \<and> hd t = CHR ''-'');
          t = (if t \<noteq> [] \<and> (hd t = CHR ''-'' \<or> hd t = CHR ''+'') then tl t else t);
          ds = takeWhile (\<lambda>c. of_char c \<in> set [48 ..< 58]) t;
          i = (if negative then - int (read_nat ds 0) else int (read_nat ds 0))
      in if ds = [] \<or> i < - 2147483648 \<or> 2147483647 < i then None else Some i)"

text \<open>
  The server of the demo and its echo handler. The default handler of the demo does nothing. The
  exceptions of the constructor are not caught.
\<close>

definition distributed_demo_server ::
    "string \<Rightarrow> string \<Rightarrow> string \<Rightarrow> int \<Rightarrow> demo_handler option \<Rightarrow> 'z world_scheme \<Rightarrow>
     (('b, demo_handler) distributed_server \<times> 'z world_scheme) outcome" where
  "distributed_demo_server interface interface_ip grp port self_init w =
     bind_outcome (DistributedServer_new interface grp [interface_ip] (of_int port)
       (Some DemoDefault) True True self_init w) (\<lambda>(res, w).
       case res of
         Inl e \<Rightarrow> Undef
       | Inr d \<Rightarrow>
           (case DistributedServer_addHandler 20 (Some DemoEcho) d of (st, d) \<Rightarrow> Ret (d, w)))"

text \<open>
  \<^verbatim>\<open>main\<close> up to the call of \<^verbatim>\<open>run\<close>. \<open>None\<close> is the end of the program after its usage text. The
  arguments are counted up to the group only, but the port after it is read too: then
  \<^verbatim>\<open>argv[4]\<close> is the null pointer that ends \<^verbatim>\<open>argv\<close>.
\<close>

definition distributed_demo_start ::
    "string list \<Rightarrow> demo_handler option \<Rightarrow> 'z console_world_scheme \<Rightarrow>
     (('b, demo_handler) distributed_server option \<times> 'z console_world_scheme) outcome" where
  "distributed_demo_start argv self_init w =
     (if argv = [] then Undef
      else if length argv < 4
      then Ret (None, print (''Usage: '' @ argv ! 0 @ '' <interface> <ip> <group> <port>'' @ endl) w)
      else if length argv = 4 then Undef
      else case stoi (argv ! 4) of
             None \<Rightarrow> Undef
           | Some port \<Rightarrow>
               bind_outcome (distributed_demo_server (argv ! 1) (argv ! 2) (argv ! 3) port self_init w)
                 (\<lambda>(d, w). Ret (Some d, w)))"

section \<open>The echo handler\<close>

text \<open>
  An iteration of its loop: the status the handler returns, or \<open>None\<close> when it goes on. On
  return the request is destroyed.
\<close>

definition echo_turn ::
    "'b message_buffer \<Rightarrow> request \<Rightarrow> ('b, 'h) distributed_server \<Rightarrow> 'z world_scheme \<Rightarrow>
     (status option \<times> request \<times> ('b, 'h) distributed_server \<times> 'z world_scheme) outcome" where
  "echo_turn B req d w =
     bind_outcome (Request_receiveMessage B req (ds_connector d) w) (\<lambda>((rcvStatus, message), req, cn, w).
       let d = d\<lparr>ds_connector := cn\<rparr>;
           leave = (\<lambda>st w. bind_outcome (Request_destroy B req (ds_connector d) w) (\<lambda>(cn, w).
                      Ret (Some st, req, d\<lparr>ds_connector := cn\<rparr>, w)))
       in if \<not> status_ok rcvStatus then leave OkStatus w
          else case message of
                 None \<Rightarrow> Undef
               | Some m \<Rightarrow>
                   bind_outcome (Request_sendMessage req m (ds_connector d) w) (\<lambda>(st, w).
                     ASSERT_OK st ''Failed to send echo reply'' (\<lambda>st. leave st w) (Ret (None, req, d, w))))"

section \<open>The echo loop of the shell\<close>

text \<open>
  The first half of an iteration, for the line the user types: the request on which the shell
  then waits for the reply, or \<open>None\<close> when the loop ends.
\<close>

definition shell_echo_send ::
    "'b message_buffer \<Rightarrow> u32 \<Rightarrow> string \<Rightarrow> ('b, 'h) distributed_server \<Rightarrow> 'z console_world_scheme \<Rightarrow>
     (request option \<times> ('b, 'h) distributed_server \<times> 'z console_world_scheme) outcome" where
  "shell_echo_send B ipAddr message d w =
     (let w = print ''Message: '' w in
      if message = [] then Ret (None, d, w)
      else let echoMessage = console_message 20 message in
        bind_outcome (DistributedServer_sendInternalRequest B ipAddr d) (\<lambda>((st, request), d).
          if \<not> status_ok st
          then Ret (None, d, print (''Failed to open channel to peer: '' @ status_message st @ endl) w)
          else case request of
                 None \<Rightarrow> Undef
               | Some q \<Rightarrow>
                   bind_outcome (Request_sendMessage q echoMessage (ds_connector d) w) (\<lambda>(st, w).
                     if \<not> status_ok st
                     then bind_outcome (Request_destroy B q (ds_connector d)
                            (print (''Failed to send echo request'' @ endl) w)) (\<lambda>(cn, w).
                            Ret (None, d\<lparr>ds_connector := cn\<rparr>, w))
                     else Ret (Some q, d, w))))"

text \<open>The second half; the flag says whether the loop goes on.\<close>

definition shell_echo_receive ::
    "'b message_buffer \<Rightarrow> request \<Rightarrow> ('b, 'h) distributed_server \<Rightarrow> 'z console_world_scheme \<Rightarrow>
     (bool \<times> ('b, 'h) distributed_server \<times> 'z console_world_scheme) outcome" where
  "shell_echo_receive B q d w =
     bind_outcome (Request_receiveMessage B q (ds_connector d) w) (\<lambda>((rcvStatus, reply), q, cn, w).
       let leave = (\<lambda>continue w. bind_outcome (Request_destroy B q cn w) (\<lambda>(cn, w).
                      Ret (continue, d\<lparr>ds_connector := cn\<rparr>, w)))
       in if \<not> status_ok rcvStatus
          then leave False (print (''Failed to receive echo reply: '' @ status_message rcvStatus @ endl) w)
          else case reply of
                 None \<Rightarrow> Undef
               | Some m \<Rightarrow> leave True (print (''Echo reply: '' @ quoted (bytes_text (data m)) @ endl) w))"

text \<open>
  A command of the shell: the address of the peer for the echo loop, when it is the command for
  that. \<open>pton\<close> is \<^verbatim>\<open>inet_pton\<close>, whose failure is not checked; \<open>unset\<close> is what the uninitialised
  address reads as.
\<close>

definition shell_command ::
    "(string \<Rightarrow> u32 option) \<Rightarrow> u32 \<Rightarrow> string \<Rightarrow> string \<Rightarrow> 'z console_world_scheme \<Rightarrow>
     u32 option \<times> 'z console_world_scheme" where
  "shell_command pton unset line ip w =
     (let w = print ''servercc-shell> '' w in
      if line = ''e''
      then let w = print (''Starting echo service. Send empty message to stop.'' @ endl) w;
               w = print ''Enter ip: '' w
           in (Some (case pton ip of None \<Rightarrow> unset | Some ipAddr \<Rightarrow> ipAddr), w)
      else if line = ''h''
      then (None, print (''  e: start echo server'' @ endl)
              (print (''  h: help'' @ endl) (print (''Commands:'' @ endl) w)))
      else (None, w))"

section \<open>Dispatch in the demo\<close>

lemma DistributedServer_new_handlers:
  "DistributedServer_new name grp is port dh hc hdis self_init w = Ret (Inr d, w') \<Longrightarrow>
   ds_handlers d = Map.empty \<and> ds_defaultHandler d = self_init"
  by (auto simp: DistributedServer_new_def split: sum.splits prod.splits if_splits)

text \<open>
  A demo that started answers echo messages with its echo handler. Every other message goes to
  whatever the member for the default handler holds, not to the default handler of the demo;
  and the demo cannot be started with the arguments its test lets through but the port.
\<close>

theorem distributed_demo_dispatch:
  "length argv = 4 \<longrightarrow> distributed_demo_start argv self_init w = Undef"
  "distributed_demo_start argv self_init w = Ret (Some d, w') \<longrightarrow>
     DistributedServer_target p d = (if p = 20 then Some DemoEcho else self_init)"
proof -
  show "length argv = 4 \<longrightarrow> distributed_demo_start argv self_init w = Undef"
    by (auto simp: distributed_demo_start_def)
  show "distributed_demo_start argv self_init w = Ret (Some d, w') \<longrightarrow>
     DistributedServer_target p d = (if p = 20 then Some DemoEcho else self_init)"
  proof
    assume "distributed_demo_start argv self_init w = Ret (Some d, w')"
    then obtain port where
      "distributed_demo_server (argv ! 1) (argv ! 2) (argv ! 3) port self_init w = Ret (d, w')"
      by (auto simp: distributed_demo_start_def outcome_simps split: option.splits if_splits)
    then obtain res w0 where
      made: "DistributedServer_new (argv ! 1) (argv ! 3) [argv ! 2] (of_int port) (Some DemoDefault) True True self_init w =
        Ret (res, w0)"
      and res: "(case res of Inl e \<Rightarrow> Undef
        | Inr d \<Rightarrow> (case DistributedServer_addHandler 20 (Some DemoEcho) d of (st, d) \<Rightarrow> Ret (d, w0))) = Ret (d, w')"
      by (auto simp: distributed_demo_server_def outcome_simps simp del: sum.case)
    then obtain d0 where new: "res = Inr d0" and d: "d = snd (DistributedServer_addHandler 20 (Some DemoEcho) d0)"
      by (cases res) (auto split: prod.splits)
    from DistributedServer_new_handlers [OF made [unfolded new]] d
    show "DistributedServer_target p d = (if p = 20 then Some DemoEcho else self_init)"
      by (simp add: DistributedServer_addHandler_def DistributedServer_target_def)
  qed
qed

section \<open>A sample\<close>

lemma console_message_simps [simp]:
  "protocol (header (console_message p line)) = p" "bytes_text (data (console_message p line)) = line"
  by (simp_all add: console_message_def)

lemma console_message_body: "length line < 4294967296 \<Longrightarrow> body_len (console_message p line) = length line"
  by (simp add: console_message_def unat_of_nat)

definition demo_sample :: "(message list option, demo_handler) distributed_server" where
  "demo_sample =
     \<lparr>ds_interfaceName = ''eth0'', ds_interfaces = [''eth0''], ds_group = ''239.0.0.1'', ds_port = 7000,
      ds_tcpServer = \<lparr>srv_port = 7000, srv_handlers = [kConnectAckRequestProtocol \<mapsto> Some HandleConnectAck],
        srv_defaultHandler = ForwardRequestToHandler, srv_serverSocketFd = 3\<rparr>,
      ds_udpServer = \<lparr>srv_port = 7000, srv_handlers = [kConnectRequestProtocol \<mapsto> Some HandleConnect],
        srv_defaultHandler = ForwardRequestToHandler, srv_serverSocketFd = 4\<rparr>,
      ds_connector = forwarding_connector, ds_multicastClient = MulticastClient_new ''eth0'' ''239.0.0.1'' 7000 1,
      ds_peers = {}, ds_handlers = [20 \<mapsto> Some DemoEcho], ds_defaultHandler = None,
      ds_has_connect_callback = True, ds_has_disconnect_callback = True\<rparr>"

lemma demo_sample_simps [simp]:
  "ds_connector demo_sample = forwarding_connector" "DistributedServer_target 20 demo_sample = Some DemoEcho"
  by (simp_all add: demo_sample_def DistributedServer_target_def)

end
