(* ===== verification/ChannelLife.thy ===== *)
theory ChannelLife
  imports Connector
begin

text \<open>
  A channel from its opening to its end, the same for both kinds: opened in an empty slot, pushed to,
  read, written to, shut, after which the slots are as they were. And the turns of a read loop
  that open a response channel, push a response or end a channel, with the states they lead to.
\<close>

section \<open>The life of a channel\<close>

definition holding ::
    "('b \<Rightarrow> message list option) \<Rightarrow> close_callback \<Rightarrow> channel_id_t \<Rightarrow> channel_ptr \<Rightarrow> message list \<Rightarrow>
     'b manager \<Rightarrow> 'b manager \<Rightarrow> bool" where
  "holding contents cb i r q g g' \<longleftrightarrow>
     mg_inv g' \<and> buffers_open contents g' \<and> mg_config g' = mg_config g \<and> mg_writeFd g' = mg_writeFd g \<and>
     unat i < max_channels g \<and> slots cb g ! unat i = None \<and> length (slots cb g) = max_channels g \<and>
     (\<forall>cb'. slots cb' g' = (if cb' = cb then (slots cb g)[unat i := Some r] else slots cb' g)) \<and>
     contents (ch_buffer (mg_channels g' ! r)) = Some q"

lemma holding_slot:
  assumes "holding contents cb i r q g g'"
  shows "r < length (mg_channels g')" "\<not> ch_isClosed (mg_channels g' ! r)"
    "ch_closeCallback (mg_channels g' ! r) = cb" "ch_id (mg_channels g' ! r) = i"
    "unat i < max_channels g'" "slots cb g' ! unat i = Some r"
  using assms mg_inv_slot [of g' i cb r] by (simp_all add: holding_def)

lemma holding_opened:
  assumes "fifo_buffer B contents" "mg_inv g" "buffers_open contents g" "unat i < max_channels g" "slots cb g ! unat i = None"
  shows "holding contents cb i (length (mg_channels g)) [] g (opened B cb i g)"
  using assms opened_inv [OF assms(2,4,5), of B] opened_queue(1) [OF assms] fifo_laws(1) [OF assms(1)]
  by (simp add: holding_def opened_slots opened_channels InternalChannel_new_def)

lemma holding_pushed:
  assumes "fifo_buffer B contents" "holding contents cb i r q g g'"
  shows "fst (mb_push B m (ch_buffer (mg_channels g' ! r))) = OkStatus"
    and "holding contents cb i r (q @ [m]) g (pushed B r m g')"
  using assms pushed_inv [of g' B r m] pushed_queue(1,2) [OF assms(1) _ _ holding_slot(5,6) [OF assms(2)], where m = m]
    fifo_laws(2) [OF assms(1), of "ch_buffer (mg_channels g' ! r)" q m] holding_slot(1) [OF assms(2)]
  by (auto simp: holding_def pushed_def)

lemma buffers_open_put:
  "buffers_open contents g \<Longrightarrow> contents b \<noteq> None \<or> ch_isClosed (mg_channels g ! r) \<Longrightarrow>
   buffers_open contents (put_channel r ((mg_channels g ! r)\<lparr>ch_buffer := b\<rparr>) g)"
  using set_update_subset_insert [of "mg_channels g" r] by (fastforce simp: buffers_open_def)

lemma holding_read:
  assumes "fifo_buffer B contents" "holding contents cb i r (m # q) g g'" "ir_channel x = r"
  obtains h where "InternalRequest_receiveMessage B x g' = Ret ((OkStatus, Some m), h)" "holding contents cb i r q g h"
proof -
  let ?c = "mg_channels g' ! r"
  from fifo_laws(3) [OF assms(1), of "ch_buffer ?c" m q] assms(2) obtain b where
    b: "mb_pop B (ch_buffer ?c) = Ret ((OkStatus, Some m), b)" "contents b = Some q" by (auto simp: holding_def)
  let ?h = "put_channel r (?c\<lparr>ch_buffer := b\<rparr>) g'"
  have "InternalRequest_receiveMessage B x g' = Ret ((OkStatus, Some m), ?h)"
    using b(1) assms(3) holding_slot(1) [OF assms(2)]
    by (simp add: InternalRequest_receiveMessage_def deref_def InternalChannel_read_def)
  moreover have "holding contents cb i r q g ?h"
    using assms(2) b(2) holding_slot(1) [OF assms(2)] put_channel_inv [of g' r "?c\<lparr>ch_buffer := b\<rparr>"]
      buffers_open_put [of contents g' b r] by (auto simp: holding_def same_channel_def)
  ultimately show thesis by (rule that)
qed

lemma holding_send:
  assumes h: "holding contents cb i r q g g'" "ir_channel x = r"
    and m: "wf_message m" "body_len m + 12 < 4294967296"
    and kernel: "w_script w = []" "w_open w (mg_writeFd g)" "0 \<le> mg_writeFd g"
  shows "InternalRequest_sendMessage x m g' w = Ret (OkStatus,
    w\<lparr>w_out := (w_out w)(mg_writeFd g := w_out w (mg_writeFd g) @ wire (data_protocol cb (mg_config g)) [(i, m)])\<rparr>)"
  using send_one [of g' cb x m w] holding_slot [OF h(1)] h m kernel by (simp add: holding_def sendable_on_def)

text \<open>The channel is closed again, by its owner or by the end message of the peer.\<close>

lemma holding_shut:
  assumes h: "holding contents cb i r q g g'"
  shows "mg_inv (shut B r g')" "buffers_open contents (shut B r g')" "slots cb' (shut B r g') = slots cb' g"
    "mg_config (shut B r g') = mg_config g" "mg_writeFd (shut B r g') = mg_writeFd g"
    "r < length (mg_channels (shut B r g'))" "ch_isClosed (mg_channels (shut B r g') ! r)"
    "ch_buffer (mg_channels (shut B r g') ! r) = mb_close B (ch_buffer (mg_channels g' ! r))"
    "cb = RemoveRequest \<Longrightarrow> mg_freeList (shut B r g') = i # mg_freeList g'"
proof -
  note s = holding_slot [OF h]
  show "mg_inv (shut B r g')" using shut_inv [OF _ s(1,2)] h by (simp add: holding_def)
  show "buffers_open contents (shut B r g')"
    using h set_update_subset_insert [of "mg_channels g'" r] by (fastforce simp: holding_def buffers_open_def shut_channels)
  have "(slots cb g)[unat i := None] = slots cb g" using h by (simp add: holding_def list_update_same_conv)
  with h show "slots cb' (shut B r g') = slots cb' g" by (cases "cb = cb'") (auto simp: shut_slots s holding_def)
qed (use h holding_slot [OF h] in \<open>simp_all add: shut_channels shut_freeList holding_def\<close>)

lemma holding_end_sent:
  assumes h: "holding contents cb i r q g g'"
    and kernel: "w_script w = []" "w_open w (mg_writeFd g)" "0 \<le> mg_writeFd g"
  shows "end_sent r g' w = w\<lparr>w_out := (w_out w)(mg_writeFd g := w_out w (mg_writeFd g) @
    frame (close_message (end_protocol cb (mg_config g)) i))\<rparr>"
  using writeMessage_no_fault [OF kernel, of "close_message (end_protocol cb (mg_config g)) i"] h holding_slot [OF h]
  by (simp add: end_sent_def Let_def holding_def sync_length_wf)

section \<open>Turns of a read loop\<close>

lemma turn_of_frame:
  assumes ready: "peer_ready k cn w" and M: "wf_message M" "w_in w f = frame M" and f: "f = cl_clientFd (client_of k cn)"
    and fw: "forwardMessage B M (manager_of k cn) (w\<lparr>w_in := (w_in w)(f := [])\<rparr>) = Ret ((st, p, ch), g, w')"
  shows "Connector_runClient_turn B address k cn w = Ret (True,
    (case ch of None \<Rightarrow> [] | Some r \<Rightarrow> [StartHandler (Connector_target p cn) k
       (InternalRequest_new p (cl_clientAddr (client_of k cn)) r)]), put_manager k g cn, w')"
  using receive_frame [OF ready M(1), of "[]"] M(2) f fw by (intro turn_forwards) auto

lemma wire_one: "wire p [(i, m)] = frame (wrapped le32 4 p i m)"
  by (simp add: wire_def)

lemma turn_request:
  assumes fifo: "fifo_buffer B contents" and ready: "peer_ready k cn w" and bo: "buffers_open contents (manager_of k cn)"
    and none: "mg_responseChannel (manager_of k cn) ! unat i = None" "unat i < 1024"
    and m: "wf_message m" "body_len m + 12 < 4294967296"
    and f: "f = cl_clientFd (client_of k cn)" and wire: "w_in w f = wire 16 [(i, m)]"
  obtains r h where "holding contents RemoveResponse i r [m] (manager_of k cn) h"
    "Connector_runClient_turn B address k cn w = Ret (True,
       [StartHandler (Connector_target (protocol (header m)) cn) k
          (InternalRequest_new (protocol (header m)) (cl_clientAddr (client_of k cn)) r)],
       put_manager k h cn, w\<lparr>w_in := (w_in w)(f := [])\<rparr>)"
proof -
  let ?g = "manager_of k cn" and ?M = "wrapped le32 4 16 i m" and ?r = "length (mg_channels (manager_of k cn))"
  from ready have inv: "mg_inv ?g" and cfg: "mg_config ?g = connector_config" by (simp_all add: peer_ready_def)
  have side: "unat i < max_channels ?g" "slots RemoveResponse ?g ! unat i = None" "protocols_distinct (mg_config ?g)"
    using none cfg by simp_all
  have u: "unwrapMessage un32 4 ?M = Ret (OkStatus, Some i, Some m)"
    using m by (simp add: channel_id_codec.unwrap_wrapped)
  have p: "protocol (header ?M) = RequestProtocol (mg_config ?g)" by (simp add: cfg wrapped_def)
  note h1 = holding_opened [OF fifo inv bo side(1,2)]
  note h2 = holding_pushed [OF fifo h1, of m]
  have "forwardMessage B ?M ?g (w\<lparr>w_in := (w_in w)(f := [])\<rparr>) =
      Ret ((OkStatus, protocol (header m), Some ?r), pushed B ?r m (opened B RemoveResponse i ?g),
        w\<lparr>w_in := (w_in w)(f := [])\<rparr>)"
    using forward_request [OF inv side(3) p u, of B "w\<lparr>w_in := (w_in w)(f := [])\<rparr>"] side(1) none(1) h2(1) holding_slot(6) [OF h1] by (simp add: Let_def)
  from turn_of_frame [OF ready _ _ f this, of address] m wire channel_id_codec.wf_wrapped [of m 16 i]
  show thesis by (intro that [of ?r "pushed B ?r m (opened B RemoveResponse i ?g)"]) (use h2(2) in \<open>simp_all add: wire_one\<close>)
qed

lemma turn_response:
  assumes fifo: "fifo_buffer B contents" and ready: "peer_ready k cn w"
    and h: "holding contents RemoveRequest i r q g0 (manager_of k cn)"
    and m: "wf_message m" "body_len m + 12 < 4294967296"
    and f: "f = cl_clientFd (client_of k cn)" and wire: "w_in w f = wire 19 [(i, m)]"
  obtains g' where "holding contents RemoveRequest i r (q @ [m]) g0 g'"
    "Connector_runClient_turn B address k cn w = Ret (True, [], put_manager k g' cn, w\<lparr>w_in := (w_in w)(f := [])\<rparr>)"
proof -
  let ?g = "manager_of k cn" and ?M = "wrapped le32 4 19 i m"
  from ready have inv: "mg_inv ?g" and cfg: "mg_config ?g = connector_config" by (simp_all add: peer_ready_def)
  have u: "unwrapMessage un32 4 ?M = Ret (OkStatus, Some i, Some m)"
    using m by (simp add: channel_id_codec.unwrap_wrapped)
  have p: "protocol (header ?M) = ResponseProtocol (mg_config ?g)" by (simp add: cfg wrapped_def)
  have side: "protocols_distinct (mg_config ?g)" using cfg by simp
  note h2 = holding_pushed [OF fifo h, of m]
  have "forwardMessage B ?M ?g (w\<lparr>w_in := (w_in w)(f := [])\<rparr>) =
      Ret ((OkStatus, protocol (header m), None), pushed B r m ?g, w\<lparr>w_in := (w_in w)(f := [])\<rparr>)"
    using forward_response [OF inv side p u, of B "w\<lparr>w_in := (w_in w)(f := [])\<rparr>"] h2(1) holding_slot(5,6) [OF h] by simp
  from turn_of_frame [OF ready _ _ f this, of address] m wire channel_id_codec.wf_wrapped [of m 19 i]
  show thesis by (intro that [of "pushed B r m ?g"]) (use h2(2) in \<open>simp_all add: wire_one\<close>)
qed

text \<open>The end message of the peer.\<close>

lemma turn_end:
  assumes ready: "peer_ready k cn w" and i: "unat i < 1024"
    and f: "f = cl_clientFd (client_of k cn)" and wire: "w_in w f = frame (close_message (end_protocol cb connector_config) i)"
  defines "p \<equiv> slots (peer_kind cb) (manager_of k cn) ! unat i"
  shows "Connector_runClient_turn B address k cn w = Ret (True, [], put_manager k (ended B p (manager_of k cn)) cn,
    end_answered p (manager_of k cn) (w\<lparr>w_in := (w_in w)(f := [])\<rparr>))"
proof -
  let ?g = "manager_of k cn" and ?M = "close_message (end_protocol cb connector_config) i"
  from ready have inv: "mg_inv ?g" and cfg: "mg_config ?g = connector_config" by (simp_all add: peer_ready_def)
  let ?w = "w\<lparr>w_in := (w_in w)(f := [])\<rparr>"
  have "forwardMessage B ?M ?g ?w = Ret ((OkStatus, protocol (header ?M), None), ended B p ?g, end_answered p ?g ?w)"
    using forward_end [OF inv _, of ?M cb B ?w] i cfg by (simp add: p_def Let_def)
  from turn_of_frame [OF ready wf_close_message wire f this, of address] show ?thesis by simp
qed

end
