(* ===== verification/Shell.thy ===== *)
theory Shell
  imports DistributedDemo ChannelLife
begin

text \<open>
  The shell of \<^verbatim>\<open>src/demos/distributed_demo.cc\<close> as a whole, and a session at it: the lines typed at
  one server go to the echo handler of another server and come back, each on a channel of its own
  that both servers end before the next line is typed.
\<close>

section \<open>The shell\<close>

text \<open>
  The echo loop of the shell for the lines that are still to be typed, and the lines it leaves to
  the shell. \<open>others\<close> is what the rest of the world, with a state \<open>e\<close> of its own, and the read loop
  of the server do while the shell waits for a reply and when it has it. At the end of the input
  \<^verbatim>\<open>getline\<close> leaves an empty line.
\<close>

primrec shell_echo ::
    "'b message_buffer \<Rightarrow>
     ('e \<times> ('b, 'h) distributed_server \<times> 'z console_world_scheme \<Rightarrow>
      ('e \<times> ('b, 'h) distributed_server \<times> 'z console_world_scheme) outcome) \<Rightarrow>
     u32 \<Rightarrow> string list \<Rightarrow> 'e \<times> ('b, 'h) distributed_server \<times> 'z console_world_scheme \<Rightarrow>
     (string list \<times> 'e \<times> ('b, 'h) distributed_server \<times> 'z console_world_scheme) outcome" where
  "shell_echo B others ipAddr [] s =
     (case s of (e, d, w) \<Rightarrow> bind_outcome (shell_echo_send B ipAddr [] d w) (\<lambda>(q, d, w). Ret ([], e, d, w)))"
| "shell_echo B others ipAddr (message # lines) s =
     (case s of (e, d, w) \<Rightarrow>
        bind_outcome (shell_echo_send B ipAddr message d w) (\<lambda>(q, d, w).
          case q of
            None \<Rightarrow> Ret (lines, e, d, w)
          | Some q \<Rightarrow>
              bind_outcome (others (e, d, w)) (\<lambda>(e, d, w).
              bind_outcome (shell_echo_receive B q d w) (\<lambda>(continue, d, w).
              bind_outcome (others (e, d, w)) (\<lambda>s.
                if continue then shell_echo B others ipAddr lines s else Ret (lines, s))))))"

lemma shell_echo_shorter: "shell_echo B others a lines s = Ret (rest, s') \<Longrightarrow> length rest \<le> length lines"
  by (induction lines arbitrary: s)
    (fastforce simp: outcome_simps split: prod.splits option.splits if_splits)+

text \<open>The shell, until the end of its input.\<close>

function shell ::
    "'b message_buffer \<Rightarrow> (string \<Rightarrow> u32 option) \<Rightarrow> u32 \<Rightarrow>
     ('e \<times> ('b, 'h) distributed_server \<times> 'z console_world_scheme \<Rightarrow>
      ('e \<times> ('b, 'h) distributed_server \<times> 'z console_world_scheme) outcome) \<Rightarrow>
     string list \<Rightarrow> 'e \<times> ('b, 'h) distributed_server \<times> 'z console_world_scheme \<Rightarrow>
     ('e \<times> ('b, 'h) distributed_server \<times> 'z console_world_scheme) outcome" where
  "shell B pton unset others [] (e, d, w) = Ret (e, d, print ''servercc-shell> '' w)"
| "shell B pton unset others (line # lines) (e, d, w) =
     (case shell_command pton unset line (case lines of [] \<Rightarrow> [] | ip # _ \<Rightarrow> ip) w of
        (None, w) \<Rightarrow> shell B pton unset others lines (e, d, w)
      | (Some ipAddr, w) \<Rightarrow>
          bind_outcome (shell_echo B others ipAddr (tl lines) (e, d, w)) (\<lambda>(rest, s).
            shell B pton unset others rest s))"
  by pat_completeness auto

termination
  by (relation "measure (\<lambda>(B, pton, unset, others, lines, s). length lines)")
    (auto dest!: shell_echo_shorter)

text \<open>
  \<^verbatim>\<open>main\<close>, up to its exit code; \<open>None\<close> when \<^verbatim>\<open>run\<close> does not return. The letterhead is an argument.
\<close>

definition provided_services :: "string list \<Rightarrow> string set" where
  "provided_services argv = {''echo'', ''block''} \<union> set (drop 5 argv)"

definition distributed_demo ::
    "'b message_buffer \<Rightarrow> string \<Rightarrow> (string \<Rightarrow> u32 option) \<Rightarrow> u32 \<Rightarrow>
     ('e \<times> ('b, demo_handler) distributed_server \<times> 'z console_world_scheme \<Rightarrow>
      ('e \<times> ('b, demo_handler) distributed_server \<times> 'z console_world_scheme) outcome) \<Rightarrow>
     string list \<Rightarrow> demo_handler option \<Rightarrow> string list \<Rightarrow> 'e \<Rightarrow> 'z console_world_scheme \<Rightarrow>
     (int \<times> 'z console_world_scheme) outcome option" where
  "distributed_demo B letterhead pton unset others argv self_init lines e w =
     (case distributed_demo_start argv self_init w of
        Undef \<Rightarrow> Some Undef
      | Block \<Rightarrow> Some Block
      | Ret (None, w) \<Rightarrow> Some (Ret (0, w))
      | Ret (Some d, w) \<Rightarrow>
          (case DistributedServer_run d w of
             None \<Rightarrow> None
           | Some (ts, res) \<Rightarrow> Some (bind_outcome res (\<lambda>(st, d, w).
               if \<not> status_ok st then Ret (1, w)
               else bind_outcome (shell B pton unset others lines (e, d, print (letterhead @ endl) w)) (\<lambda>(e, d, w).
                 Ret (0, w))))))"

text \<open>The exit with code 1 is never taken, because \<^verbatim>\<open>run\<close> does not return before it has succeeded.\<close>

lemma connect_loop_ok: "connect_loop d w = Some (Ret (st, s)) \<Longrightarrow> st = OkStatus"
  using connect_loop.raw_induct [where P = "\<lambda>d w res. \<forall>st s. res = Ret (st, s) \<longrightarrow> st = OkStatus" and d = d and w = w]
  by (fastforce split: outcome.splits prod.splits if_splits)

lemma distributed_demo_exit:
  "distributed_demo B letterhead pton unset others argv self_init lines e w = Some (Ret (code, w')) \<Longrightarrow> code = 0"
  by (auto simp: distributed_demo_def DistributedServer_run_def outcome_simps dest: connect_loop_ok
      split: outcome.splits option.splits prod.splits if_splits)

section \<open>The server at the other end\<close>

text \<open>The other server, its process, and the echo handlers that run there.\<close>

record ('b, 'z) echo_peer =
  pe_server :: "('b, demo_handler) distributed_server"
  pe_world :: "'z console_world_scheme"
  pe_handlers :: "request list"

definition echo_threads :: "('b, demo_handler) distributed_server \<Rightarrow> ds_event list \<Rightarrow> request list" where
  "echo_threads d es = concat (map (\<lambda>e. case e of
     HandlerThread h rq \<Rightarrow>
       (if h = ForwardRequestToHandler \<and> DistributedServer_target (Request_getProtocol rq) d = Some DemoEcho
        then [rq] else [])
   | _ \<Rightarrow> []) es)"

definition peer_reads ::
    "'b message_buffer \<Rightarrow> u32 \<Rightarrow> nat \<Rightarrow> ('b, 'z) echo_peer \<Rightarrow> ('b, 'z) echo_peer outcome" where
  "peer_reads B address k e =
     bind_outcome (DistributedServer_peer_turn B address k (pe_server e) (pe_world e)) (\<lambda>(continue, es, d, w).
       Ret (e\<lparr>pe_server := d, pe_world := w, pe_handlers := pe_handlers e @ echo_threads d es\<rparr>))"

definition peer_handles :: "'b message_buffer \<Rightarrow> ('b, 'z) echo_peer \<Rightarrow> ('b, 'z) echo_peer outcome" where
  "peer_handles B e =
     (case pe_handlers e of
        [] \<Rightarrow> Ret e
      | rq # rqs \<Rightarrow>
          bind_outcome (echo_turn B rq (pe_server e) (pe_world e)) (\<lambda>(st, rq, d, w).
            Ret (e\<lparr>pe_server := d, pe_world := w,
                   pe_handlers := (case st of None \<Rightarrow> rqs @ [rq] | Some _ \<Rightarrow> rqs)\<rparr>)))"

text \<open>The network takes what was written on a connection to the other end.\<close>

definition carry ::
    "fd \<Rightarrow> 'z world_scheme \<Rightarrow> fd \<Rightarrow> 'z world_scheme \<Rightarrow> 'z world_scheme \<times> 'z world_scheme" where
  "carry f w g v = (w\<lparr>w_out := (w_out w)(f := [])\<rparr>, deliver f w g v)"

text \<open>
  There and back: the other server reads one message and its handler has its turn, then the
  read loop of the server of the shell reads one message.
\<close>

definition network_round ::
    "'b message_buffer \<Rightarrow> u32 \<Rightarrow> nat \<Rightarrow> u32 \<Rightarrow> nat \<Rightarrow>
     ('b, 'z) echo_peer \<times> ('b, 'h) distributed_server \<times> 'z console_world_scheme \<Rightarrow>
     (('b, 'z) echo_peer \<times> ('b, 'h) distributed_server \<times> 'z console_world_scheme) outcome" where
  "network_round B a kA b kB s =
     (case s of (e, d, w) \<Rightarrow>
        let fA = cl_clientFd (client_of kA (ds_connector d));
            fB = cl_clientFd (client_of kB (ds_connector (pe_server e)))
        in case carry fA w fB (pe_world e) of (w, v) \<Rightarrow>
             bind_outcome (peer_reads B b kB (e\<lparr>pe_world := v\<rparr>)) (\<lambda>e.
             bind_outcome (peer_handles B e) (\<lambda>e.
               case carry fB (pe_world e) fA w of (v, w) \<Rightarrow>
                 bind_outcome (DistributedServer_peer_turn B a kA d w) (\<lambda>(continue, es, d, w).
                   Ret (e\<lparr>pe_world := v\<rparr>, d, w)))))"

section \<open>A line and its echo\<close>

text \<open>Both ends between the steps: what the peer has written and nobody has read, what the shell has.\<close>

abbreviation peer_fd :: "nat \<Rightarrow> ('b, 'z) echo_peer \<Rightarrow> fd" where
  "peer_fd k e \<equiv> cl_clientFd (client_of k (ds_connector (pe_server e)))"

abbreviation shell_fd :: "nat \<Rightarrow> ('b, 'h) distributed_server \<Rightarrow> fd" where
  "shell_fd k d \<equiv> cl_clientFd (client_of k (ds_connector d))"

abbreviation peer_manager :: "nat \<Rightarrow> ('b, 'z) echo_peer \<Rightarrow> 'b manager" where
  "peer_manager k e \<equiv> manager_of k (ds_connector (pe_server e))"

abbreviation shell_manager :: "nat \<Rightarrow> ('b, 'h) distributed_server \<Rightarrow> 'b manager" where
  "shell_manager k d \<equiv> manager_of k (ds_connector d)"

definition peer_sent :: "('b \<Rightarrow> message list option) \<Rightarrow> nat \<Rightarrow> byte list \<Rightarrow> ('b, 'z) echo_peer \<Rightarrow> bool" where
  "peer_sent contents k bytes e \<longleftrightarrow>
     peer_ready k (ds_connector (pe_server e)) (pe_world e) \<and> buffers_open contents (peer_manager k e) \<and>
     Connector_target 20 (ds_connector (pe_server e)) = ForwardRequestToHandler \<and>
     DistributedServer_target 20 (pe_server e) = Some DemoEcho \<and>
     w_in (pe_world e) (peer_fd k e) = [] \<and> w_out (pe_world e) (peer_fd k e) = bytes"

definition shell_sent ::
    "('b \<Rightarrow> message list option) \<Rightarrow> u32 \<Rightarrow> nat \<Rightarrow> byte list \<Rightarrow> ('b, 'h) distributed_server \<Rightarrow>
     'z console_world_scheme \<Rightarrow> bool" where
  "shell_sent contents a k bytes d w \<longleftrightarrow>
     cn_clients (ds_connector d) a = Some k \<and> peer_ready k (ds_connector d) w \<and>
     buffers_open contents (shell_manager k d) \<and>
     w_in w (shell_fd k d) = [] \<and> w_out w (shell_fd k d) = bytes"

definition no_responses :: "'b manager \<Rightarrow> bool" where
  "no_responses g \<longleftrightarrow> (\<forall>i :: channel_id_t. unat i < 1024 \<longrightarrow> mg_responseChannel g ! unat i = None)"

text \<open>No echo handler runs, or one that waits for a message on the channel of an id.\<close>

definition idle :: "nat \<Rightarrow> ('b, 'z) echo_peer \<Rightarrow> bool" where
  "idle k e \<longleftrightarrow> pe_handlers e = [] \<and> no_responses (peer_manager k e)"

definition serving :: "('b \<Rightarrow> message list option) \<Rightarrow> nat \<Rightarrow> channel_id_t \<Rightarrow> ('b, 'z) echo_peer \<Rightarrow> bool" where
  "serving contents k i e \<longleftrightarrow>
     (\<exists>rq h. pe_handlers e = [InternalReq k rq] \<and> no_responses h \<and>
        holding contents RemoveResponse i (ir_channel rq) [] h (peer_manager k e))"

text \<open>The shell has nothing to do; both servers wait.\<close>

definition at_rest ::
    "('b \<Rightarrow> message list option) \<Rightarrow> u32 \<Rightarrow> nat \<Rightarrow> nat \<Rightarrow>
     ('b, 'z) echo_peer \<times> ('b, 'h) distributed_server \<times> 'z console_world_scheme \<Rightarrow> bool" where
  "at_rest contents a kA kB s \<longleftrightarrow>
     (case s of (e, d, w) \<Rightarrow>
        peer_sent contents kB [] e \<and> idle kB e \<and> shell_sent contents a kA [] d w \<and>
        mg_freeList (shell_manager kA d) \<noteq> [])"

lemma peer_ready_world:
  "w_open w' = w_open w \<Longrightarrow> w_script w' = w_script w \<Longrightarrow> peer_ready k cn w \<Longrightarrow> peer_ready k cn w'"
  by (simp add: peer_ready_def)

lemma peer_ready_put:
  "peer_ready k cn w \<Longrightarrow> mg_inv g \<Longrightarrow> mg_config g = mg_config (manager_of k cn) \<Longrightarrow>
   mg_writeFd g = mg_writeFd (manager_of k cn) \<Longrightarrow> peer_ready k (put_manager k g cn) w"
  by (simp add: peer_ready_def)

lemma peer_readyD:
  assumes "peer_ready k cn w"
  shows "k < length (cn_objects cn)" "mg_inv (manager_of k cn)" "mg_config (manager_of k cn) = connector_config"
    "mg_writeFd (manager_of k cn) = cl_clientFd (client_of k cn)" "0 \<le> cl_clientFd (client_of k cn)"
    "w_open w (cl_clientFd (client_of k cn))" "w_script w = []"
  using assms by (simp_all add: peer_ready_def)

lemma holding_facts:
  assumes "holding contents cb i r q g g'"
  shows "mg_inv g'" "buffers_open contents g'" "mg_config g' = mg_config g" "mg_writeFd g' = mg_writeFd g"
    "unat i < max_channels g"
  using assms by (simp_all add: holding_def)

text \<open>New states of the two ends, from the old ones.\<close>

lemma peer_sent_put:
  assumes "peer_sent contents k bytes e" "mg_inv g" "buffers_open contents g"
    "mg_config g = mg_config (peer_manager k e)" "mg_writeFd g = mg_writeFd (peer_manager k e)"
    "w_open v = w_open (pe_world e)" "w_script v = w_script (pe_world e)"
    "w_in v (peer_fd k e) = []" "w_out v (peer_fd k e) = bytes'"
  shows "peer_sent contents k bytes' (e\<lparr>pe_world := v,
    pe_server := (pe_server e)\<lparr>ds_connector := put_manager k g (ds_connector (pe_server e))\<rparr>, pe_handlers := rqs\<rparr>)"
proof -
  have "peer_ready k (put_manager k g (ds_connector (pe_server e))) v"
    using assms(1,2,4-7) by (intro peer_ready_put peer_ready_world [of v "pe_world e"]) (simp_all add: peer_sent_def)
  moreover have "k < length (cn_objects (ds_connector (pe_server e)))"
    using assms(1) by (simp add: peer_sent_def peer_ready_def)
  ultimately show ?thesis
    using assms(1,3,8,9) by (auto simp: peer_sent_def DistributedServer_target_def split: option.splits)
qed

lemma shell_sent_put:
  assumes "shell_sent contents a k bytes d w" "mg_inv g" "buffers_open contents g"
    "mg_config g = mg_config (shell_manager k d)" "mg_writeFd g = mg_writeFd (shell_manager k d)"
    "w_open w' = w_open w" "w_script w' = w_script w"
    "w_in w' (shell_fd k d) = []" "w_out w' (shell_fd k d) = bytes'"
  shows "shell_sent contents a k bytes' (d\<lparr>ds_connector := put_manager k g (ds_connector d)\<rparr>) w'"
proof -
  have "peer_ready k (put_manager k g (ds_connector d)) w'"
    using assms(1,2,4-7) by (intro peer_ready_put peer_ready_world [of w' w]) (simp_all add: shell_sent_def)
  moreover have "k < length (cn_objects (ds_connector d))"
    using assms(1) by (simp add: shell_sent_def peer_ready_def)
  ultimately show ?thesis using assms(1,3,8,9) by (simp add: shell_sent_def)
qed

text \<open>The shell sends the line.\<close>

lemma line_asked:
  assumes fifo: "fifo_buffer B contents" and shell: "shell_sent contents a kA [] d w"
    and fl: "mg_freeList (shell_manager kA d) \<noteq> []"
    and line: "line \<noteq> []" "length line + 12 < 4294967296"
  obtains q i d' w' where "shell_echo_send B a line d w = Ret (Some (InternalReq kA q), d', w')"
    "shell_sent contents a kA (wire 16 [(i, console_message 20 line)]) d' w'"
    "holding contents RemoveRequest i (ir_channel q) [] (shell_manager kA d) (shell_manager kA d')"
    "co_output w' = co_output w @ [''Message: '']"
proof -
  let ?cn = "ds_connector d" and ?m = "console_message 20 line" and ?w = "print ''Message: '' w"
  let ?g = "manager_of kA ?cn" and ?f = "cl_clientFd (client_of kA ?cn)"
  from shell have ready: "peer_ready kA ?cn w" and bo: "buffers_open contents ?g" and cl: "cn_clients ?cn a = Some kA"
    and out: "w_out w ?f = []" "w_in w ?f = []" by (simp_all add: shell_sent_def)
  note p = peer_readyD [OF ready]
  from fl obtain i "is" where i: "mg_freeList ?g = i # is" by (cases "mg_freeList ?g") auto
  with mg_inv_free [OF p(2), of i] have none: "unat i < max_channels ?g" "slots RemoveRequest ?g ! unat i = None" by simp_all
  let ?q = "InternalRequest_of_channel (length (mg_channels ?g))" and ?g1 = "opened B RemoveRequest i ?g"
  note h = holding_opened [OF fifo p(2) bo none]
  have m: "wf_message ?m" "body_len ?m + 12 < 4294967296"
    using line(2) console_message_wf [of line 20] console_message_body [of line 20] by simp_all
  let ?d' = "d\<lparr>ds_connector := put_manager kA ?g1 ?cn\<rparr>" and ?w' = "?w\<lparr>w_out := (w_out w)(?f := wire 16 [(i, ?m)])\<rparr>"
  have sent: "InternalRequest_sendMessage ?q ?m ?g1 ?w = Ret (OkStatus, ?w')"
    using holding_send [OF h _ m, of ?q ?w] p out by simp
  have req: "Connector_sendRequest B a ?cn = Ret ((OkStatus, Some (kA, ?q)), put_manager kA ?g1 ?cn)"
    by (rule sendRequest_free [OF cl ready i])
  have send: "shell_echo_send B a line d w = Ret (Some (InternalReq kA ?q), ?d', ?w')"
    using req sent line(1) p(1) by (simp add: shell_echo_send_def DistributedServer_sendInternalRequest_def Let_def)
  have "shell_sent contents a kA (wire 16 [(i, ?m)]) ?d' ?w'"
    by (rule shell_sent_put [OF shell holding_facts(1-4) [OF h]]) (simp_all add: out)
  from that [OF send this] h p(1) show thesis by simp
qed

text \<open>The other server reads the message and its echo handler sends it back.\<close>

lemma peer_echoes:
  assumes fifo: "fifo_buffer B contents" and peer: "peer_sent contents k [] e" "idle k e"
    and m: "wf_message m" "body_len m + 12 < 4294967296" "protocol (header m) = 20" and i: "unat i < 1024"
  defines "v \<equiv> (pe_world e)\<lparr>w_in := (w_in (pe_world e))(peer_fd k e := wire 16 [(i, m)])\<rparr>"
  obtains e1 e2 where "peer_reads B b k (e\<lparr>pe_world := v\<rparr>) = Ret e1" "peer_handles B e1 = Ret e2"
    "peer_sent contents k (wire 19 [(i, m)]) e2" "serving contents k i e2" "peer_fd k e2 = peer_fd k e"
proof -
  let ?cn = "ds_connector (pe_server e)" and ?f = "peer_fd k e"
  from peer have ready: "peer_ready k ?cn (pe_world e)" and bo: "buffers_open contents (manager_of k ?cn)"
    and target: "Connector_target 20 ?cn = ForwardRequestToHandler" "DistributedServer_target 20 (pe_server e) = Some DemoEcho"
    and empty: "w_out (pe_world e) ?f = []" "w_in (pe_world e) ?f = []" "no_responses (manager_of k ?cn)" "pe_handlers e = []"
    by (simp_all add: peer_sent_def idle_def)
  note p = peer_readyD [OF ready]
  have r: "peer_ready k ?cn v" by (rule peer_ready_world [OF _ _ ready]) (simp_all add: v_def)
  have none: "mg_responseChannel (manager_of k ?cn) ! unat i = None" using empty(3) i by (simp add: no_responses_def)
  have "w_in v ?f = wire 16 [(i, m)]" by (simp add: v_def)
  from turn_request [OF fifo r bo none i m(1,2) refl this, of b] obtain t h where
    h: "holding contents RemoveResponse i t [m] (manager_of k ?cn) h"
    and turn: "Connector_runClient_turn B b k ?cn v = Ret (True,
       [StartHandler (Connector_target 20 ?cn) k (InternalRequest_new 20 (cl_clientAddr (client_of k ?cn)) t)],
       put_manager k h ?cn, v\<lparr>w_in := (w_in v)(?f := [])\<rparr>)" by (simp only: m(3)) blast
  let ?rq = "InternalRequest_new 20 (cl_clientAddr (client_of k ?cn)) t" and ?v = "v\<lparr>w_in := (w_in v)(?f := [])\<rparr>"
  have t: "ir_channel ?rq = t" "ir_protocol ?rq = 20" by (simp_all add: InternalRequest_new_def)
  let ?s = "(pe_server e)\<lparr>ds_connector := put_manager k h ?cn\<rparr>"
  let ?e1 = "e\<lparr>pe_world := ?v, pe_server := ?s, pe_handlers := [InternalReq k ?rq]\<rparr>"
  have "DistributedServer_target 20 ?s = Some DemoEcho"
    using target(2) by (simp add: DistributedServer_target_def split: option.splits)
  then have reads: "peer_reads B b k (e\<lparr>pe_world := v\<rparr>) = Ret ?e1"
    using turn target(1) empty(4) t(2) by (simp add: peer_reads_def DistributedServer_peer_turn_def echo_threads_def)
  from holding_read [OF fifo h t(1)] obtain h' where
    h': "InternalRequest_receiveMessage B ?rq h = Ret ((OkStatus, Some m), h')"
      "holding contents RemoveResponse i t [] (manager_of k ?cn) h'" by blast
  let ?v' = "?v\<lparr>w_out := (w_out ?v)(?f := wire 19 [(i, m)])\<rparr>"
  have send: "InternalRequest_sendMessage ?rq m h' ?v = Ret (OkStatus, ?v')"
    using holding_send [OF h'(2) t(1) m(1,2), of ?v] p empty(1) by (simp add: v_def)
  let ?e2 = "e\<lparr>pe_world := ?v', pe_server := (pe_server e)\<lparr>ds_connector := put_manager k h' ?cn\<rparr>,
    pe_handlers := [InternalReq k ?rq]\<rparr>"
  have handles: "peer_handles B ?e1 = Ret ?e2"
    using h'(1) send p(1) by (simp add: peer_handles_def echo_turn_def Let_def)
  have "peer_sent contents k (wire 19 [(i, m)]) ?e2"
    by (rule peer_sent_put [OF peer(1) holding_facts(1-4) [OF h'(2)]]) (simp_all add: v_def)
  moreover have "serving contents k i ?e2" using h'(2) empty(3) t(1) p(1) by (auto simp: serving_def)
  ultimately show thesis using that [OF reads handles] by simp
qed

text \<open>What the handlers rely on at the end of a channel: a wait on a closed, empty buffer fails.\<close>

definition closing_buffer :: "'b message_buffer \<Rightarrow> ('b \<Rightarrow> message list option) \<Rightarrow> bool" where
  "closing_buffer B contents \<longleftrightarrow>
     (\<forall>b. contents b = Some [] \<longrightarrow>
        (\<exists>st x b'. mb_pop B (mb_close B b) = Ret ((st, x), b') \<and> \<not> status_ok st))"

lemma peer_closes:
  assumes closes: "closing_buffer B contents" and peer: "peer_sent contents k [] e" "serving contents k i e"
  defines "v \<equiv> (pe_world e)\<lparr>w_in := (w_in (pe_world e))(peer_fd k e := frame (close_message 17 i))\<rparr>"
  obtains e1 e2 where "peer_reads B b k (e\<lparr>pe_world := v\<rparr>) = Ret e1" "peer_handles B e1 = Ret e2"
    "peer_sent contents k (frame (close_message 20 i)) e2" "idle k e2" "peer_fd k e2 = peer_fd k e"
proof -
  let ?cn = "ds_connector (pe_server e)" and ?f = "peer_fd k e" and ?g = "peer_manager k e"
  from peer have ready: "peer_ready k ?cn (pe_world e)" and empty: "w_out (pe_world e) ?f = []" "w_in (pe_world e) ?f = []"
    by (simp_all add: peer_sent_def)
  from peer(2) obtain rq h where rq: "pe_handlers e = [InternalReq k rq]" and none: "no_responses h"
    and hold: "holding contents RemoveResponse i (ir_channel rq) [] h ?g" by (auto simp: serving_def)
  note p = peer_readyD [OF ready] and slot = holding_slot [OF hold] and shut = holding_shut [OF hold, where B = B]
  let ?s = "ir_channel rq" and ?v = "(pe_world e)\<lparr>w_in := (w_in (pe_world e))(?f := [])\<rparr>"
  let ?v' = "?v\<lparr>w_out := (w_out ?v)(?f := frame (close_message 20 i))\<rparr>"
  have r: "peer_ready k ?cn v" by (rule peer_ready_world [OF _ _ ready]) (simp_all add: v_def)
  have i: "unat i < 1024" using slot(5) p(3) by simp
  have sent: "end_sent ?s ?g ?v = ?v'"
    using holding_end_sent [OF hold, of ?v] holding_facts(3,4) [OF hold] p empty(1) by simp
  have "w_in v ?f = frame (close_message (end_protocol RemoveRequest connector_config) i)" by (simp add: v_def)
  from turn_end [OF r i refl this, of B b] slot(6) sent have
    turn: "Connector_runClient_turn B b k ?cn v = Ret (True, [], put_manager k (shut B ?s ?g) ?cn, ?v')"
    by (simp add: ended_def end_answered_def v_def)
  let ?g1 = "shut B ?s ?g"
  let ?e1 = "e\<lparr>pe_world := ?v', pe_server := (pe_server e)\<lparr>ds_connector := put_manager k ?g1 ?cn\<rparr>,
    pe_handlers := [InternalReq k rq]\<rparr>"
  have reads: "peer_reads B b k (e\<lparr>pe_world := v\<rparr>) = Ret ?e1"
    using turn rq by (simp add: peer_reads_def DistributedServer_peer_turn_def echo_threads_def)
  have "contents (ch_buffer (mg_channels ?g ! ?s)) = Some []" using hold by (simp add: holding_def)
  with closes obtain st x b' where pop: "mb_pop B (mb_close B (ch_buffer (mg_channels ?g ! ?s))) = Ret ((st, x), b')"
    "\<not> status_ok st" unfolding closing_buffer_def by blast
  let ?g2 = "put_channel ?s ((mg_channels ?g1 ! ?s)\<lparr>ch_buffer := b'\<rparr>) ?g1"
  have g2: "mg_inv ?g2" "buffers_open contents ?g2"
    using shut(1,2,7) put_channel_inv [of ?g1 ?s] buffers_open_put [of contents ?g1 b' ?s] by (auto simp: same_channel_def)
  have rd: "InternalRequest_receiveMessage B rq ?g1 = Ret ((st, x), ?g2)"
    using pop(1) shut(6,8) by (simp add: InternalRequest_receiveMessage_def deref_def InternalChannel_read_def)
  let ?e2 = "e\<lparr>pe_world := ?v', pe_server := (pe_server e)\<lparr>ds_connector := put_manager k ?g2 ?cn\<rparr>, pe_handlers := []\<rparr>"
  have handles: "peer_handles B ?e1 = Ret ?e2"
    using rd pop(2) p(1) shut(6,7)
    by (simp add: peer_handles_def echo_turn_def Let_def InternalRequest_destroy_def InternalRequest_terminate_def)
  have "peer_sent contents k (frame (close_message 20 i)) ?e2"
    by (rule peer_sent_put [OF peer(1) g2]) (use holding_facts [OF hold] in \<open>simp_all\<close>)
  moreover have "idle k ?e2"
    using none shut(3) [of RemoveResponse] p(1) by (simp add: idle_def no_responses_def)
  ultimately show thesis using that [OF reads handles] by simp
qed

text \<open>A round of the network, from what the two ends do.\<close>

lemma round_via:
  assumes peer: "peer_sent contents kB [] e" and shell: "shell_sent contents a kA bytes d w"
    and reads: "peer_reads B b kB (e\<lparr>pe_world := (pe_world e)\<lparr>w_in := (w_in (pe_world e))(peer_fd kB e := bytes)\<rparr>\<rparr>) = Ret e1"
    and handles: "peer_handles B e1 = Ret e2"
    and sent: "peer_sent contents kB bytes' e2" and same: "peer_fd kB e2 = peer_fd kB e"
  defines "v \<equiv> w\<lparr>w_out := (w_out w)(shell_fd kA d := []), w_in := (w_in w)(shell_fd kA d := bytes')\<rparr>"
    and "e' \<equiv> e2\<lparr>pe_world := (pe_world e2)\<lparr>w_out := (w_out (pe_world e2))(peer_fd kB e2 := [])\<rparr>\<rparr>"
  assumes turn: "Connector_runClient_turn B a kA (ds_connector d) v = Ret (True, [], cn, w')"
  shows "network_round B a kA b kB (e, d, w) = Ret (e', d\<lparr>ds_connector := cn\<rparr>, w')"
    and "peer_sent contents kB [] e'" and "idle kB e' = idle kB e2" and "serving contents kB i e' = serving contents kB i e2"
proof -
  have there: "deliver (shell_fd kA d) w (peer_fd kB e) (pe_world e) =
      (pe_world e)\<lparr>w_in := (w_in (pe_world e))(peer_fd kB e := bytes)\<rparr>"
    using peer shell by (simp add: deliver_def peer_sent_def shell_sent_def)
  have home: "deliver (peer_fd kB e) (pe_world e2) (shell_fd kA d) (w\<lparr>w_out := (w_out w)(shell_fd kA d := [])\<rparr>) = v"
    using sent shell same by (simp add: deliver_def peer_sent_def shell_sent_def v_def)
  have "DistributedServer_peer_turn B a kA d v = Ret (True, [], d\<lparr>ds_connector := cn\<rparr>, w')"
    using turn by (simp add: DistributedServer_peer_turn_def)
  then show "network_round B a kA b kB (e, d, w) = Ret (e', d\<lparr>ds_connector := cn\<rparr>, w')"
    unfolding network_round_def carry_def Let_def prod.case there reads bind_outcome.simps handles home
    by (simp add: e'_def same)
  have "peer_ready kB (ds_connector (pe_server e2)) (pe_world e')"
    by (rule peer_ready_world [of _ "pe_world e2"]) (use sent in \<open>simp_all add: peer_sent_def e'_def\<close>)
  with sent show "peer_sent contents kB [] e'" by (simp add: peer_sent_def e'_def)
qed (simp_all add: e'_def idle_def serving_def)

lemma line_answered:
  assumes fifo: "fifo_buffer B contents" and peer: "peer_sent contents kB [] e" "idle kB e"
    and shell: "shell_sent contents a kA (wire 16 [(i, m)]) d w"
    and hold: "holding contents RemoveRequest i r [] g (shell_manager kA d)"
    and m: "wf_message m" "body_len m + 12 < 4294967296" "protocol (header m) = 20"
  obtains e' d' w' where "network_round B a kA b kB (e, d, w) = Ret (e', d', w')"
    "peer_sent contents kB [] e'" "serving contents kB i e'" "shell_sent contents a kA [] d' w'"
    "holding contents RemoveRequest i r [m] g (shell_manager kA d')" "co_output w' = co_output w"
proof -
  let ?cn = "ds_connector d" and ?f = "shell_fd kA d"
  let ?v = "w\<lparr>w_out := (w_out w)(?f := []), w_in := (w_in w)(?f := wire 19 [(i, m)])\<rparr>"
  from shell have ready: "peer_ready kA ?cn w" by (simp add: shell_sent_def)
  note p = peer_readyD [OF ready]
  have i: "unat i < 1024" using holding_slot(5) [OF hold] p(3) by simp
  obtain e1 e2 where e: "peer_reads B b kB (e\<lparr>pe_world :=
        (pe_world e)\<lparr>w_in := (w_in (pe_world e))(peer_fd kB e := wire 16 [(i, m)])\<rparr>\<rparr>) = Ret e1"
      "peer_handles B e1 = Ret e2" "peer_sent contents kB (wire 19 [(i, m)]) e2" "serving contents kB i e2"
      "peer_fd kB e2 = peer_fd kB e"
    by (rule peer_echoes [OF fifo peer m i])
  have r: "peer_ready kA ?cn ?v" by (rule peer_ready_world [OF _ _ ready]) simp_all
  have "w_in ?v ?f = wire 19 [(i, m)]" by simp
  from turn_response [OF fifo r hold m(1,2) refl this, of a] obtain g' where
    g': "holding contents RemoveRequest i r [m] g g'" and
    turn: "Connector_runClient_turn B a kA ?cn ?v = Ret (True, [], put_manager kA g' ?cn, ?v\<lparr>w_in := (w_in ?v)(?f := [])\<rparr>)"
    by auto
  note round = round_via [OF peer(1) shell e(1-3,5) turn]
  have "shell_sent contents a kA [] (d\<lparr>ds_connector := put_manager kA g' ?cn\<rparr>) (?v\<lparr>w_in := (w_in ?v)(?f := [])\<rparr>)"
    by (rule shell_sent_put [OF shell]) (use holding_facts [OF g'] holding_facts [OF hold] in simp_all)
  with that [OF round(1,2)] round(4) e(4) g' p(1) show thesis by simp
qed

text \<open>The shell prints the reply, and its request ends.\<close>

lemma line_printed:
  assumes fifo: "fifo_buffer B contents" and shell: "shell_sent contents a kA [] d w"
    and hold: "holding contents RemoveRequest i (ir_channel q) [m] g (shell_manager kA d)"
  obtains d' w' where "shell_echo_receive B (InternalReq kA q) d w = Ret (True, d', w')"
    "shell_sent contents a kA (frame (close_message 17 i)) d' w'"
    "mg_requestChannel (shell_manager kA d') ! unat i = None" "mg_freeList (shell_manager kA d') \<noteq> []"
    "co_output w' = co_output w @ [''Echo reply: '' @ quoted (bytes_text (data m)) @ endl]"
proof -
  let ?cn = "ds_connector d" and ?f = "shell_fd kA d"
  let ?w = "print (''Echo reply: '' @ quoted (bytes_text (data m)) @ endl) w"
  from shell have ready: "peer_ready kA ?cn w" by (simp add: shell_sent_def)
  note p = peer_readyD [OF ready]
  from holding_read [OF fifo hold refl] obtain h where
    h: "InternalRequest_receiveMessage B q (shell_manager kA d) = Ret ((OkStatus, Some m), h)"
      "holding contents RemoveRequest i (ir_channel q) [] g h" by blast
  note slot = holding_slot [OF h(2)] and shut = holding_shut [OF h(2), where B = B]
    and same = holding_facts [OF hold] holding_facts [OF h(2)]
  let ?w' = "?w\<lparr>w_out := (w_out w)(?f := frame (close_message 17 i))\<rparr>"
  have "end_sent (ir_channel q) h ?w = ?w'"
    using holding_end_sent [OF h(2), of ?w] same p shell by (simp add: shell_sent_def)
  with close_open [OF same(6) slot(1,2), of B ?w]
  have "InternalRequest_destroy B q h ?w = Ret (shut B (ir_channel q) h, ?w')"
    by (simp add: InternalRequest_destroy_def InternalRequest_terminate_def)
  with h(1) p(1) have receive: "shell_echo_receive B (InternalReq kA q) d w =
      Ret (True, d\<lparr>ds_connector := put_manager kA (shut B (ir_channel q) h) ?cn\<rparr>, ?w')"
    by (simp add: shell_echo_receive_def Let_def)
  have sent: "shell_sent contents a kA (frame (close_message 17 i))
      (d\<lparr>ds_connector := put_manager kA (shut B (ir_channel q) h) ?cn\<rparr>) ?w'"
    by (rule shell_sent_put [OF shell shut(1,2)]) (use same shut shell in \<open>simp_all add: shell_sent_def\<close>)
  have "slots RemoveRequest (shut B (ir_channel q) h) ! unat i = None"
    unfolding shut(3) using h(2) by (simp add: holding_def)
  with that [OF receive sent] shut(9) p(1) show thesis by simp
qed

text \<open>The end message of the shell ends the echo handler, and the answer to it finds no channel.\<close>

lemma line_closed:
  assumes closes: "closing_buffer B contents" and peer: "peer_sent contents kB [] e" "serving contents kB i e"
    and shell: "shell_sent contents a kA (frame (close_message 17 i)) d w"
    and none: "mg_requestChannel (shell_manager kA d) ! unat i = None" and fl: "mg_freeList (shell_manager kA d) \<noteq> []"
  obtains e' d' w' where "network_round B a kA b kB (e, d, w) = Ret (e', d', w')"
    "at_rest contents a kA kB (e', d', w')" "co_output w' = co_output w"
proof -
  let ?cn = "ds_connector d" and ?f = "shell_fd kA d"
  let ?v = "w\<lparr>w_out := (w_out w)(?f := []), w_in := (w_in w)(?f := frame (close_message 20 i))\<rparr>"
  from shell have ready: "peer_ready kA ?cn w" by (simp add: shell_sent_def)
  from peer(1) have readyB: "peer_ready kB (ds_connector (pe_server e)) (pe_world e)" by (simp add: peer_sent_def)
  have i: "unat i < 1024"
    using peer(2) peer_readyD(3) [OF readyB] holding_slot(5) by (fastforce simp: serving_def)
  obtain e1 e2 where e: "peer_reads B b kB (e\<lparr>pe_world :=
        (pe_world e)\<lparr>w_in := (w_in (pe_world e))(peer_fd kB e := frame (close_message 17 i))\<rparr>\<rparr>) = Ret e1"
      "peer_handles B e1 = Ret e2" "peer_sent contents kB (frame (close_message 20 i)) e2" "idle kB e2"
      "peer_fd kB e2 = peer_fd kB e"
    by (rule peer_closes [OF closes peer])
  have r: "peer_ready kA ?cn ?v" by (rule peer_ready_world [OF _ _ ready]) simp_all
  have "w_in ?v ?f = frame (close_message (end_protocol RemoveResponse connector_config) i)" by simp
  from turn_end [OF r i refl this, of B a] none
  have turn: "Connector_runClient_turn B a kA ?cn ?v =
      Ret (True, [], put_manager kA (shell_manager kA d) ?cn, ?v\<lparr>w_in := (w_in ?v)(?f := [])\<rparr>)"
    by (simp add: ended_def end_answered_def)
  note round = round_via [OF peer(1) shell e(1-3,5) turn]
  let ?d' = "d\<lparr>ds_connector := put_manager kA (shell_manager kA d) ?cn\<rparr>"
  have "shell_sent contents a kA [] ?d' (?v\<lparr>w_in := (w_in ?v)(?f := [])\<rparr>)"
    by (rule shell_sent_put [OF shell peer_readyD(2) [OF ready]]) (use shell in \<open>simp_all add: shell_sent_def\<close>)
  with that [OF round(1)] round(2,3) e(4) fl peer_readyD(1) [OF ready] show thesis by (simp add: at_rest_def)
qed

section \<open>A session\<close>

definition echoed :: "string \<Rightarrow> string list" where
  "echoed line = [''Message: '', ''Echo reply: '' @ quoted line @ endl]"

lemma line_echoed:
  assumes buffer: "fifo_buffer B contents" "closing_buffer B contents" and rest: "at_rest contents a kA kB (e, d, w)"
    and line: "line \<noteq> []" "length line + 12 < 4294967296"
  obtains q d1 w1 e2 d2 w2 d3 w3 e4 d4 w4 where
    "shell_echo_send B a line d w = Ret (Some q, d1, w1)" "network_round B a kA b kB (e, d1, w1) = Ret (e2, d2, w2)"
    "shell_echo_receive B q d2 w2 = Ret (True, d3, w3)" "network_round B a kA b kB (e2, d3, w3) = Ret (e4, d4, w4)"
    "at_rest contents a kA kB (e4, d4, w4)" "co_output w4 = co_output w @ echoed line"
proof -
  let ?m = "console_message 20 line"
  have m: "wf_message ?m" "body_len ?m + 12 < 4294967296" "protocol (header ?m) = 20"
    using line(2) console_message_wf [of line 20] console_message_body [of line 20] by simp_all
  from rest have r: "peer_sent contents kB [] e" "idle kB e" "shell_sent contents a kA [] d w"
    "mg_freeList (shell_manager kA d) \<noteq> []" by (simp_all add: at_rest_def)
  obtain q i d1 w1 where 1: "shell_echo_send B a line d w = Ret (Some (InternalReq kA q), d1, w1)"
    "shell_sent contents a kA (wire 16 [(i, ?m)]) d1 w1"
    "holding contents RemoveRequest i (ir_channel q) [] (shell_manager kA d) (shell_manager kA d1)"
    "co_output w1 = co_output w @ [''Message: '']"
    by (rule line_asked [OF buffer(1) r(3,4) line])
  obtain e2 d2 w2 where 2: "network_round B a kA b kB (e, d1, w1) = Ret (e2, d2, w2)"
    "peer_sent contents kB [] e2" "serving contents kB i e2" "shell_sent contents a kA [] d2 w2"
    "holding contents RemoveRequest i (ir_channel q) [?m] (shell_manager kA d) (shell_manager kA d2)"
    "co_output w2 = co_output w1"
    by (rule line_answered [OF buffer(1) r(1,2) 1(2,3) m])
  obtain d3 w3 where 3: "shell_echo_receive B (InternalReq kA q) d2 w2 = Ret (True, d3, w3)"
    "shell_sent contents a kA (frame (close_message 17 i)) d3 w3"
    "mg_requestChannel (shell_manager kA d3) ! unat i = None" "mg_freeList (shell_manager kA d3) \<noteq> []"
    "co_output w3 = co_output w2 @ [''Echo reply: '' @ quoted (bytes_text (data ?m)) @ endl]"
    by (rule line_printed [OF buffer(1) 2(4,5)])
  obtain e4 d4 w4 where 4: "network_round B a kA b kB (e2, d3, w3) = Ret (e4, d4, w4)"
    "at_rest contents a kA kB (e4, d4, w4)" "co_output w4 = co_output w3"
    by (rule line_closed [OF buffer(2) 2(2,3) 3(2-4)])
  from that [OF 1(1) 2(1) 3(1) 4(1,2)] 1(4) 2(6) 3(5) 4(3) show thesis by (simp add: echoed_def)
qed

lemma at_rest_print: "at_rest contents a kA kB (e, d, w) \<Longrightarrow> at_rest contents a kA kB (e, d, print s w)"
  by (simp add: at_rest_def shell_sent_def peer_ready_def)

lemma lines_echoed:
  assumes buffer: "fifo_buffer B contents" "closing_buffer B contents"
  shows "at_rest contents a kA kB (e, d, w) \<Longrightarrow> \<forall>line \<in> set lines. line \<noteq> [] \<and> length line + 12 < 4294967296 \<Longrightarrow>
    \<exists>e' d' w'. shell_echo B (network_round B a kA b kB) a (lines @ [] # typed) (e, d, w) = Ret (typed, e', d', w') \<and>
      at_rest contents a kA kB (e', d', w') \<and>
      co_output w' = co_output w @ concat (map echoed lines) @ [''Message: '']"
proof (induction lines arbitrary: e d w)
  case Nil
  then show ?case by (auto simp: shell_echo_send_def Let_def at_rest_print)
next
  case (Cons line lines)
  have line: "line \<noteq> []" "length line + 12 < 4294967296" using Cons.prems(2) by simp_all
  obtain q d1 w1 e2 d2 w2 d3 w3 e4 d4 w4 where
    "shell_echo_send B a line d w = Ret (Some q, d1, w1)" "network_round B a kA b kB (e, d1, w1) = Ret (e2, d2, w2)"
    "shell_echo_receive B q d2 w2 = Ret (True, d3, w3)" "network_round B a kA b kB (e2, d3, w3) = Ret (e4, d4, w4)"
    and rest: "at_rest contents a kA kB (e4, d4, w4)" and out: "co_output w4 = co_output w @ echoed line"
    by (rule line_echoed [OF buffer Cons.prems(1) line])
  then have "shell_echo B (network_round B a kA b kB) a ((line # lines) @ [] # typed) (e, d, w) =
      shell_echo B (network_round B a kA b kB) a (lines @ [] # typed) (e4, d4, w4)" by simp
  moreover from Cons.IH [OF rest] Cons.prems(2) obtain e' d' w' where
    "shell_echo B (network_round B a kA b kB) a (lines @ [] # typed) (e4, d4, w4) = Ret (typed, e', d', w')"
    "at_rest contents a kA kB (e', d', w')" "co_output w' = co_output w4 @ concat (map echoed lines) @ [''Message: '']"
    by auto
  ultimately show ?case using out by simp
qed

lemma session_at_rest:
  assumes buffer: "fifo_buffer B contents" "closing_buffer B contents"
    and rest: "at_rest contents a kA kB (e, d, w)" and ip: "pton ip = Some a"
    and lines: "\<forall>line \<in> set lines. line \<noteq> [] \<and> length line + 12 < 4294967296"
  shows "\<exists>e' d' w'. shell B pton unset (network_round B a kA b kB) (''e'' # ip # lines @ [[]]) (e, d, w) = Ret (e', d', w') \<and>
    at_rest contents a kA kB (e', d', w') \<and>
    co_output w' = co_output w @
      [''servercc-shell> '', ''Starting echo service. Send empty message to stop.'' @ endl, ''Enter ip: ''] @
      concat (map echoed lines) @ [''Message: '', ''servercc-shell> '']"
proof -
  let ?w = "print ''Enter ip: '' (print (''Starting echo service. Send empty message to stop.'' @ endl)
    (print ''servercc-shell> '' w))"
  have "at_rest contents a kA kB (e, d, ?w)" by (intro at_rest_print rest)
  from lines_echoed [OF buffer this lines, of b "[]"] obtain e' d' w' where
    "shell_echo B (network_round B a kA b kB) a (lines @ [[]]) (e, d, ?w) = Ret ([], e', d', w')"
    "at_rest contents a kA kB (e', d', w')" "co_output w' = co_output ?w @ concat (map echoed lines) @ [''Message: '']"
    by blast
  with ip show ?thesis by (auto simp: shell_command_def Let_def at_rest_print)
qed


section \<open>A witness\<close>

lemma closing_list_buffer: "closing_buffer list_buffer (\<lambda>b. b)"
  by (simp add: closing_buffer_def list_buffer_def)


end
