(* ===== verification/DemoNetwork.thy ===== *)
theory DemoNetwork
  imports Discovery Shell
begin

text \<open>
  Two processes of the distributed demo, from the announcement of one of them to a session at its
  shell: \<open>Discovery\<close> and \<open>Shell\<close> put together.
\<close>

section \<open>The end of a connection at the shell\<close>

text \<open>The process of a server, for its connection to the peer at position \<open>k\<close>, with an empty console.\<close>

definition console_of :: "nat \<Rightarrow> ('b, 'h) ds_world \<Rightarrow> console_world" where
  "console_of k w = console (sd_world (end_of k w))"

definition echo_process :: "nat \<Rightarrow> ('b, demo_handler) ds_world \<Rightarrow> ('b, unit) echo_peer" where
  "echo_process k w = \<lparr>pe_server = dw_server w, pe_world = console_of k w, pe_handlers = []\<rparr>"

lemma just_connected_end:
  assumes "just_connected (end_of k w)"
  defines "cn \<equiv> ds_connector (dw_server w)"
  shows "peer_ready k cn (console_of k w)" "manager_of k cn = InternalChannelManager_new connector_config (cl_clientFd (client_of k cn))"
    "w_in (console_of k w) (cl_clientFd (client_of k cn)) = []" "w_out (console_of k w) (cl_clientFd (client_of k cn)) = []"
  using assms by (auto simp: just_connected_def end_of_def console_of_def peer_ready_def Let_def)

lemma new_manager_at_rest:
  "mg_freeList (InternalChannelManager_new connector_config f :: 'b manager) \<noteq> []"
  "no_responses (InternalChannelManager_new connector_config f :: 'b manager)"
  by (simp_all add: no_responses_def InternalChannelManager_new_def del: upt_rec_numeral)

lemma linked_at_rest:
  assumes A: "just_connected (end_of kA wA)" "cn_clients (ds_connector (dw_server wA)) a = Some kA"
    and B: "just_connected (end_of kB wB)" "Connector_target 20 (ds_connector (dw_server wB)) = ForwardRequestToHandler"
      "DistributedServer_target 20 (dw_server wB) = Some DemoEcho"
  shows "at_rest contents a kA kB (echo_process kB wB, dw_server wA, console_of kA wA)"
  using just_connected_end [OF A(1)] just_connected_end [OF B(1)] A(2) B(2,3)
  by (simp add: new_manager_at_rest at_rest_def peer_sent_def shell_sent_def idle_def echo_process_def)

section \<open>From the announcement to the echo\<close>


section \<open>A witness\<close>

definition lonely_demo :: "(message list option, demo_handler) distributed_server" where
  "lonely_demo = demo_sample\<lparr>ds_connector := Connector_new ForwardRequestToHandler\<rparr>"

definition demo_world ::
    "(message list option, demo_handler) distributed_server \<Rightarrow> message \<Rightarrow> (message list option, demo_handler) ds_world" where
  "demo_world d m = world.extend
     (sample_world
       \<lparr>w_resolve := (\<lambda>host service. Some [\<lparr>ai_family = AF_INET, ai_addr = null_sockaddr\<rparr>]),
        w_conns := (\<lambda>f. [null_sockaddr]), w_in := (\<lambda>f. frame m),
        w_dgrams := (\<lambda>f. [(null_sockaddr, encode_header \<lparr>len = 2, protocol = kConnectRequestProtocol\<rparr>),
                          (null_sockaddr, le16 7000)])\<rparr>)
     \<lparr>dw_server = d, dw_events = []\<rparr>"

lemma demo_world_simps [simp]:
  "dw_server (demo_world d m) = d" "w_open (demo_world d m) = (\<lambda>f. f = 4)" "w_next (demo_world d m) = 5"
  "w_script (demo_world d m) = []" "w_out (demo_world d m) = (\<lambda>f. [])" "w_in (demo_world d m) = (\<lambda>f. frame m)"
  "w_freed (demo_world d m) = w_freed sample_world" "w_conns (demo_world d m) = (\<lambda>f. [null_sockaddr])"
  "w_resolve (demo_world d m) = (\<lambda>host service. Some [\<lparr>ai_family = AF_INET, ai_addr = null_sockaddr\<rparr>])"
  "w_dgrams (demo_world d m) = (\<lambda>f. [(null_sockaddr, encode_header \<lparr>len = 2, protocol = kConnectRequestProtocol\<rparr>),
     (null_sockaddr, le16 7000)])"
  by (simp_all add: demo_world_def world.defs)


end
