(* ===== verification/Threads.thy ===== *)
theory Threads
  imports Prelude
begin

text \<open>
  Accounts over threads. A thread is the list of the instructions it has still to execute, and a
  weight says what an instruction will take or give back: a lock, a token, an id, an entry of a
  map. \<open>net\<close> sums a weight over one thread, \<open>balance\<close> over all threads. When every thread has a
  net weight of at least 0, a thread's share is at most the balance, and two threads with a share of
  1 need a balance of 2: this is how exclusion follows from a balance of at most 1.
\<close>

definition net :: "('i \<Rightarrow> int) \<Rightarrow> 'i list \<Rightarrow> int" where
  "net f p = sum_list (map f p)"

lemma net_simps [simp]: "net f [] = 0" "net f (c # p) = f c + net f p" "net f (p @ q) = net f p + net f q"
  by (simp_all add: net_def)

definition balance :: "('i \<Rightarrow> int) \<Rightarrow> 'i list list \<Rightarrow> int" where
  "balance f ps = sum_list (map (net f) ps)"

lemma balance_simps [simp]: "balance f [] = 0" "balance f (p # ps) = net f p + balance f ps"
  "balance f (ps @ qs) = balance f ps + balance f qs"
  by (simp_all add: balance_def)

lemma balance_update: "t < length ps \<Longrightarrow> balance f (ps[t := p]) = balance f ps - net f (ps ! t) + net f p"
  unfolding balance_def
proof (induction ps arbitrary: t)
  case (Cons x xs)
  then show ?case by (cases t) auto
qed simp

lemma balance_nonneg: "\<forall>p \<in> set ps. 0 \<le> net f p \<Longrightarrow> 0 \<le> balance f ps"
  by (auto simp: balance_def intro!: sum_list_nonneg)

lemma balance_without:
  assumes "t < length ps" "\<forall>p \<in> set ps. 0 \<le> net f p"
  shows "net f (ps ! t) \<le> balance f ps"
proof -
  have "0 \<le> balance f (ps[t := []])"
    using assms set_update_subset_insert [of ps t "[]"] by (intro balance_nonneg) auto
  with assms(1) show ?thesis by (simp add: balance_update)
qed

lemma balance_two:
  assumes "t < length ps" "u < length ps" "t \<noteq> u" "\<forall>p \<in> set ps. 0 \<le> net f p"
  shows "net f (ps ! t) + net f (ps ! u) \<le> balance f ps"
proof -
  have "net f (ps[t := []] ! u) \<le> balance f (ps[t := []])"
    using assms set_update_subset_insert [of ps t "[]"] by (intro balance_without) auto
  with assms show ?thesis by (simp add: balance_update)
qed

lemma balance_le_0: "\<forall>p \<in> set ps. net f p \<le> 0 \<Longrightarrow> balance f ps \<le> 0"
  by (induction ps) (auto simp: balance_def add_nonpos_nonpos)

lemma balance_pos: "0 < balance f ps \<Longrightarrow> \<exists>t < length ps. 0 < net f (ps ! t)"
  using balance_le_0 [of ps f] by (force simp: in_set_conv_nth)

section \<open>Mutexes\<close>

text \<open>
  A mutex has a weight (-1 for the instruction that takes it, 1 for the one that gives it back)
  and a set of instructions that only a holder executes. In well-formed code the weights balance
  from every point on.
\<close>

primrec lock_ok :: "('i \<Rightarrow> int) \<Rightarrow> ('i \<Rightarrow> bool) \<Rightarrow> 'i list \<Rightarrow> bool" where
  "lock_ok weight inside [] = True"
| "lock_ok weight inside (c # p) \<longleftrightarrow> net weight (c # p) = of_bool (inside c) \<and> lock_ok weight inside p"

lemma lock_ok_net: "lock_ok weight inside p \<Longrightarrow> net weight p \<in> {0, 1}"
  by (cases p) simp_all

definition accounted :: "('i \<Rightarrow> int) \<Rightarrow> ('i \<Rightarrow> bool) \<Rightarrow> bool \<Rightarrow> 'i list list \<Rightarrow> bool" where
  "accounted weight inside locked ps \<longleftrightarrow>
     (\<forall>p \<in> set ps. lock_ok weight inside p) \<and> balance weight ps = of_bool locked"

lemma accounted_nonneg: "accounted weight inside locked ps \<Longrightarrow> \<forall>p \<in> set ps. 0 \<le> net weight p"
  using lock_ok_net [of weight inside] by (fastforce simp: accounted_def)

lemma accounted_net:
  "accounted weight inside locked ps \<Longrightarrow> t < length ps \<Longrightarrow> ps ! t = c # p \<Longrightarrow>
   net weight (ps ! t) = of_bool (inside c)"
  using nth_mem [of t ps] by (fastforce simp: accounted_def simp del: net_simps)

lemma accounted_balance: "accounted weight inside locked ps \<Longrightarrow> balance weight ps = of_bool locked"
  by (simp add: accounted_def)

text \<open>Who executes such an instruction holds the mutex, and nobody else does.\<close>

lemma accounted_inside:
  assumes "accounted weight inside locked ps" "t < length ps" "ps ! t = c # p" "inside c"
  shows locked
  using balance_without [OF assms(2) accounted_nonneg [OF assms(1)]] accounted_net [OF assms(1-3)] assms(4)
    accounted_balance [OF assms(1)] by (cases locked) simp_all

lemma accounted_exclusive:
  assumes "accounted weight inside locked ps" "t < length ps" "u < length ps" "t \<noteq> u"
    and "ps ! t = c # p" "ps ! u = d # q" "inside c"
  shows "\<not> inside d"
  using balance_two [OF assms(2-4) accounted_nonneg [OF assms(1)]] accounted_balance [OF assms(1)]
    accounted_net [OF assms(1,2,5)] accounted_net [OF assms(1,3,6)] assms(7)
  by (cases locked; cases "inside d") simp_all

lemma accounted_holder:
  assumes "accounted weight inside True ps"
  obtains t c p where "t < length ps" "ps ! t = c # p" "inside c"
proof -
  from accounted_balance [OF assms] balance_pos [of weight ps]
  obtain t where t: "t < length ps" "0 < net weight (ps ! t)" by auto
  then obtain c p where c: "ps ! t = c # p" by (cases "ps ! t") auto
  with accounted_net [OF assms t(1) c] t(2) have "inside c" by (cases "inside c") (simp_all del: net_simps)
  with t(1) c show thesis by (rule that)
qed

lemma accounted_spawn:
  "accounted weight inside locked ps \<Longrightarrow> lock_ok weight inside p \<Longrightarrow> net weight p = 0 \<Longrightarrow>
   accounted weight inside locked (ps @ [p])"
  by (simp add: accounted_def)

text \<open>
  The contract of code that uses a mutex: \<open>steps c s q new s'\<close> says that the instruction \<open>c\<close>
  leads from \<open>s\<close> to \<open>s'\<close>, puts \<open>q\<close> in front of its thread and starts the threads \<open>new\<close>.
\<close>

locale mutex =
  fixes steps :: "'i \<Rightarrow> 's \<Rightarrow> 'i list \<Rightarrow> 'i list list \<Rightarrow> 's \<Rightarrow> bool"
    and weight :: "'i \<Rightarrow> int"
    and inside :: "'i \<Rightarrow> bool"
    and locked :: "'s \<Rightarrow> bool"
  assumes account: "steps c s q new s' \<Longrightarrow> inside c \<longrightarrow> locked s \<Longrightarrow>
      (of_bool (locked s') :: int) = of_bool (locked s) - weight c + net weight q"
    and well_formed: "steps c s q new s' \<Longrightarrow> lock_ok weight inside (c # p) \<Longrightarrow> lock_ok weight inside (q @ p)"
    and started: "steps c s q new s' \<Longrightarrow> p \<in> set new \<Longrightarrow> lock_ok weight inside p \<and> net weight p = 0"
begin

lemma step_accounted:
  assumes ok: "accounted weight inside (locked s) ps" and t: "t < length ps" "ps ! t = c # p"
    and step: "steps c s q new s'"
  shows "accounted weight inside (locked s') (ps[t := q @ p] @ new)"
proof -
  have "inside c \<longrightarrow> locked s" using accounted_inside [OF ok t] by blast
  note acc = account [OF step this]
  have "lock_ok weight inside (c # p)" using ok t nth_mem [OF t(1)] by (auto simp: accounted_def)
  note wf = well_formed [OF step this]
  have "balance weight new = 0"
    using started [OF step] by (induction new) (auto simp: balance_def)
  moreover have "\<forall>x \<in> set (ps[t := q @ p] @ new). lock_ok weight inside x"
    using ok wf started [OF step] set_update_subset_insert [of ps t "q @ p"] by (auto simp: accounted_def)
  ultimately show ?thesis
    using acc ok t by (simp add: accounted_def balance_update)
qed

end

end
