(* ===== verification/Concurrency.thy ===== *)
theory Concurrency
  imports ChannelProps Threads
begin

text \<open>
  Threads on one channel manager. The theories before treat each operation of
  \<^verbatim>\<open>InternalChannelManager\<close> and \<^verbatim>\<open>InternalChannel\<close> as one step; here the operations are cut
  where another thread can come in between: at every lock and unlock, every access to the free
  list, the semaphore, the slots and the closed flag, and between the two \<^verbatim>\<open>send\<close> calls of
  \<^verbatim>\<open>writeMessage\<close>.

  A thread is the list of the instructions it has still to execute. An instruction may put
  further instructions in front of that list, which is how a test chooses a branch and how a
  call passes the values of its local variables on. Memory is sequentially consistent: an
  access to a slot or a flag without a lock is one step. The locks are \<^verbatim>\<open>freeListMutex\<close> and
  \<^verbatim>\<open>writeMutex\<close>; a thread waits (\<open>Block\<close>) on a lock that is taken and on a semaphore at zero.

  Not cut, and done by one thread per connection only: the creation of response channels and
  the pushes of the read loop. The message buffers of libcc have locks of their own.
\<close>

section \<open>Instructions\<close>

datatype instr =
    AcquireSemaphore | LockFreeList | TopFreeList | PopFreeList channel_id_t | UnlockFreeList
  | StoreRequest channel_id_t | ReturnRequest channel_id_t
  | PushFreeList channel_id_t | ReleaseSemaphore
  | TestRequest channel_id_t | CheckRequest channel_id_t | MoveRequest channel_id_t
  | TestResponse channel_id_t | CheckResponse channel_id_t | MoveResponse channel_id_t
  | CloseChannel channel_ptr | CloseBuffer channel_ptr | MarkClosed channel_ptr
  | WriteChannel channel_ptr message
  | LockWrite | SendHeader fd message | SendBody fd message | UnlockWrite

text \<open>
  The state the threads share. \<open>pl_results\<close> collects what \<^verbatim>\<open>createRequestChannel\<close> returned: the
  code reads the slot again to return its pointer.
\<close>

record ('b, 'z) pool =
  pl_manager :: "'b manager"
  pl_world :: "'z world_scheme"
  pl_freeLocked :: bool
  pl_writeLocked :: bool
  pl_results :: "channel_ptr option list"
  pl_threads :: "instr list list"

text \<open>The callback of a channel.\<close>

primrec callback_code :: "close_callback \<Rightarrow> channel_id_t \<Rightarrow> instr" where
  "callback_code RemoveRequest i = CheckRequest i"
| "callback_code RemoveResponse i = CheckResponse i"

primrec exec ::
    "'b message_buffer \<Rightarrow> instr \<Rightarrow> ('b, 'z) pool \<Rightarrow> (instr list \<times> ('b, 'z) pool) outcome" where
  "exec B AcquireSemaphore s =
     (let g = pl_manager s in
      if mg_semaphore g = 0 then Block
      else Ret ([], s\<lparr>pl_manager := g\<lparr>mg_semaphore := mg_semaphore g - 1\<rparr>\<rparr>))"
| "exec B LockFreeList s = (if pl_freeLocked s then Block else Ret ([], s\<lparr>pl_freeLocked := True\<rparr>))"
| "exec B TopFreeList s =
     (case mg_freeList (pl_manager s) of
        [] \<Rightarrow> Undef
      | i # _ \<Rightarrow> Ret ([PopFreeList i, UnlockFreeList, StoreRequest i, ReturnRequest i], s))"
| "exec B (PopFreeList _) s =
     (let g = pl_manager s in
      case mg_freeList g of
        [] \<Rightarrow> Undef
      | _ # rest \<Rightarrow> Ret ([], s\<lparr>pl_manager := g\<lparr>mg_freeList := rest\<rparr>\<rparr>))"
| "exec B UnlockFreeList s = Ret ([], s\<lparr>pl_freeLocked := False\<rparr>)"
| "exec B (StoreRequest i) s =
     (let g = pl_manager s;
          c = InternalChannel_new B (RequestProtocol (mg_config g)) (RequestEndProtocol (mg_config g)) i
                (mg_writeFd g) RemoveRequest
      in bind_outcome (slot (mg_requestChannel g) i) (\<lambda>_.
           Ret ([], s\<lparr>pl_manager := g\<lparr>mg_channels := mg_channels g @ [c],
                   mg_requestChannel := (mg_requestChannel g)[unat i := Some (length (mg_channels g))]\<rparr>\<rparr>)))"
| "exec B (ReturnRequest i) s =
     bind_outcome (slot (mg_requestChannel (pl_manager s)) i) (\<lambda>p.
       Ret ([], s\<lparr>pl_results := pl_results s @ [p]\<rparr>))"
| "exec B (PushFreeList i) s =
     (let g = pl_manager s in Ret ([], s\<lparr>pl_manager := g\<lparr>mg_freeList := i # mg_freeList g\<rparr>\<rparr>))"
| "exec B ReleaseSemaphore s =
     (let g = pl_manager s in Ret ([], s\<lparr>pl_manager := g\<lparr>mg_semaphore := mg_semaphore g + 1\<rparr>\<rparr>))"
| "exec B (TestRequest i) s =
     bind_outcome (slot (mg_requestChannel (pl_manager s)) i) (\<lambda>p.
       Ret (if p = None then [] else [CheckRequest i], s))"
| "exec B (CheckRequest i) s =
     bind_outcome (slot (mg_requestChannel (pl_manager s)) i) (\<lambda>p.
       Ret (if p = None then [] else [MoveRequest i], s))"
| "exec B (MoveRequest i) s =
     (let g = pl_manager s in
      bind_outcome (slot (mg_requestChannel g) i) (\<lambda>p.
        case p of
          None \<Rightarrow> Undef
        | Some r \<Rightarrow>
            Ret ([CloseChannel r, LockFreeList, PushFreeList i, UnlockFreeList, ReleaseSemaphore],
              s\<lparr>pl_manager := g\<lparr>mg_requestChannel := (mg_requestChannel g)[unat i := None]\<rparr>\<rparr>)))"
| "exec B (TestResponse i) s =
     bind_outcome (slot (mg_responseChannel (pl_manager s)) i) (\<lambda>p.
       Ret (if p = None then [] else [CheckResponse i], s))"
| "exec B (CheckResponse i) s =
     bind_outcome (slot (mg_responseChannel (pl_manager s)) i) (\<lambda>p.
       Ret (if p = None then [] else [MoveResponse i], s))"
| "exec B (MoveResponse i) s =
     (let g = pl_manager s in
      bind_outcome (slot (mg_responseChannel g) i) (\<lambda>p.
        case p of
          None \<Rightarrow> Undef
        | Some r \<Rightarrow>
            Ret ([CloseChannel r],
              s\<lparr>pl_manager := g\<lparr>mg_responseChannel := (mg_responseChannel g)[unat i := None]\<rparr>\<rparr>)))"
| "exec B (CloseChannel r) s =
     bind_outcome (deref (pl_manager s) r) (\<lambda>c.
       Ret (if ch_isClosed c then []
            else [CloseBuffer r, LockWrite,
                  SendHeader (ch_writeFd c) (close_message (ch_WriteEndProtocol c) (ch_id c)), UnlockWrite,
                  MarkClosed r, callback_code (ch_closeCallback c) (ch_id c)], s))"
| "exec B (CloseBuffer r) s =
     bind_outcome (deref (pl_manager s) r) (\<lambda>c.
       Ret ([], s\<lparr>pl_manager := put_channel r (c\<lparr>ch_buffer := mb_close B (ch_buffer c)\<rparr>) (pl_manager s)\<rparr>))"
| "exec B (MarkClosed r) s =
     bind_outcome (deref (pl_manager s) r) (\<lambda>c.
       Ret ([], s\<lparr>pl_manager := put_channel r (c\<lparr>ch_isClosed := True\<rparr>) (pl_manager s)\<rparr>))"
| "exec B (WriteChannel r m) s =
     bind_outcome (deref (pl_manager s) r) (\<lambda>c.
       if ch_isClosed c then Ret ([], s)
       else bind_outcome (wrapMessage le32 4 (ch_WriteProtocol c) (ch_id c) m) (\<lambda>m.
              Ret ([LockWrite, SendHeader (ch_writeFd c) m, UnlockWrite], s)))"
| "exec B LockWrite s = (if pl_writeLocked s then Block else Ret ([], s\<lparr>pl_writeLocked := True\<rparr>))"
| "exec B (SendHeader f m) s =
     (if f < 0 then Ret ([], s)
      else let m = sync_length m in
        case os_send f (encode_header (header m)) (pl_world s) of (n, w) \<Rightarrow>
          Ret (if n < int kMessageHeaderLength then [] else [SendBody f m], s\<lparr>pl_world := w\<rparr>))"
| "exec B (SendBody f m) s =
     (case os_send f (take (body_len m) (data m)) (pl_world s) of (n, w) \<Rightarrow>
        Ret ([], s\<lparr>pl_world := w\<rparr>))"
| "exec B UnlockWrite s = Ret ([], s\<lparr>pl_writeLocked := False\<rparr>)"

text \<open>A step of the thread at position \<open>t\<close>.\<close>

definition step_thread ::
    "'b message_buffer \<Rightarrow> nat \<Rightarrow> ('b, 'z) pool \<Rightarrow> ('b, 'z) pool outcome" where
  "step_thread B t s =
     (if t < length (pl_threads s)
      then case pl_threads s ! t of
             [] \<Rightarrow> Block
           | c # p \<Rightarrow> bind_outcome (exec B c s) (\<lambda>(q, s').
               Ret (s'\<lparr>pl_threads := (pl_threads s)[t := q @ p]\<rparr>))
      else Block)"

text \<open>What threads start with: the calls that reach a manager from outside.\<close>

datatype call =
    CallCreate                        \<comment> \<open>\<^verbatim>\<open>createRequestChannel\<close>\<close>
  | CallClose channel_ptr               \<comment> \<open>\<^verbatim>\<open>close\<close> on a channel, by a request or a destructor\<close>
  | CallWrite channel_ptr message       \<comment> \<open>\<^verbatim>\<open>write\<close> on a channel\<close>
  | CallEndOfRequest channel_id_t         \<comment> \<open>\<^verbatim>\<open>forwardMessage\<close> with a response end message\<close>
  | CallEndOfResponse channel_id_t        \<comment> \<open>\<^verbatim>\<open>forwardMessage\<close> with a request end message\<close>

primrec code :: "call \<Rightarrow> instr list" where
  "code CallCreate = [AcquireSemaphore, LockFreeList, TopFreeList]"
| "code (CallClose r) = [CloseChannel r]"
| "code (CallWrite r m) = [WriteChannel r m]"
| "code (CallEndOfRequest i) = [TestRequest i]"
| "code (CallEndOfResponse i) = [TestResponse i]"

primrec call_ok :: "'b manager \<Rightarrow> call \<Rightarrow> bool" where
  "call_ok g CallCreate = True"
| "call_ok g (CallClose r) = (r < length (mg_channels g))"
| "call_ok g (CallWrite r m) =
     (r < length (mg_channels g) \<and> wf_message m \<and> body_len m + 12 < 4294967296)"
| "call_ok g (CallEndOfRequest i) = (unat i < max_channels g)"
| "call_ok g (CallEndOfResponse i) = (unat i < max_channels g)"

inductive interleaved :: "'b message_buffer \<Rightarrow> ('b, 'z) pool \<Rightarrow> ('b, 'z) pool \<Rightarrow> bool"
  for B :: "'b message_buffer" where
  spawn: "call_ok (pl_manager s) c \<Longrightarrow>
     interleaved B s (s\<lparr>pl_threads := pl_threads s @ [code c]\<rparr>)"
| run: "step_thread B t s = Ret s' \<Longrightarrow> interleaved B s s'"

definition pool_start :: "'b manager \<Rightarrow> 'z world_scheme \<Rightarrow> ('b, 'z) pool" where
  "pool_start g w =
     \<lparr>pl_manager = g, pl_world = w, pl_freeLocked = False, pl_writeLocked = False, pl_results = [],
      pl_threads = []\<rparr>"

inductive reached :: "'b message_buffer \<Rightarrow> 'b manager \<Rightarrow> 'z world_scheme \<Rightarrow> ('b, 'z) pool \<Rightarrow> bool"
  for B :: "'b message_buffer" and g :: "'b manager" and w :: "'z world_scheme" where
  start: "reached B g w (pool_start g w)"
| step: "reached B g w s \<Longrightarrow> interleaved B s s' \<Longrightarrow> reached B g w s'"

text \<open>A schedule, for running examples: the threads in the order in which they take their steps.\<close>

primrec run_schedule ::
    "'b message_buffer \<Rightarrow> nat list \<Rightarrow> ('b, 'z) pool \<Rightarrow> ('b, 'z) pool outcome" where
  "run_schedule B [] s = Ret s"
| "run_schedule B (t # ts) s = bind_outcome (step_thread B t s) (run_schedule B ts)"

section \<open>Balances\<close>

text \<open>
  What an instruction will give back, as seen before it: a lock it will release without taking
  it first, a semaphore token, a channel id. Summed over the code of all threads these balances
  account for the locks, the semaphore and the free list.
\<close>

fun freeW :: "instr \<Rightarrow> int" where
  "freeW LockFreeList = - 1"
| "freeW TopFreeList = 1"
| "freeW UnlockFreeList = 1"
| "freeW _ = 0"

fun writeW :: "instr \<Rightarrow> int" where
  "writeW LockWrite = - 1"
| "writeW UnlockWrite = 1"
| "writeW _ = 0"

fun tokenW :: "instr \<Rightarrow> int" where
  "tokenW AcquireSemaphore = - 1"
| "tokenW TopFreeList = 1"
| "tokenW (PopFreeList i) = 1"
| "tokenW (PushFreeList i) = - 1"
| "tokenW ReleaseSemaphore = 1"
| "tokenW _ = 0"

fun idW :: "channel_id_t \<Rightarrow> instr \<Rightarrow> int" where
  "idW i (PopFreeList j) = (if i = j then - 1 else 0)"
| "idW i (StoreRequest j) = of_bool (i = j)"
| "idW i (PushFreeList j) = of_bool (i = j)"
| "idW i _ = 0"

text \<open>Whether a thread that is about to execute an instruction holds a lock.\<close>

fun in_free :: "instr \<Rightarrow> bool" where
  "in_free TopFreeList = True"
| "in_free (PopFreeList i) = True"
| "in_free (PushFreeList i) = True"
| "in_free UnlockFreeList = True"
| "in_free _ = False"

fun in_write :: "instr \<Rightarrow> bool" where
  "in_write (SendHeader f m) = True"
| "in_write (SendBody f m) = True"
| "in_write UnlockWrite = True"
| "in_write _ = False"

text \<open>Instructions that only follow another one directly.\<close>

fun only_first :: "instr \<Rightarrow> bool" where
  "only_first (PopFreeList i) = True"
| "only_first (SendBody f m) = True"
| "only_first _ = False"

lemma callback_code_simps [simp]:
  "freeW (callback_code cb i) = 0" "writeW (callback_code cb i) = 0" "tokenW (callback_code cb i) = 0"
  "idW j (callback_code cb i) = 0" "\<not> in_free (callback_code cb i)" "\<not> in_write (callback_code cb i)"
  "\<not> only_first (callback_code cb i)"
  by (cases cb; simp)+

primrec code_ok :: "instr list \<Rightarrow> bool" where
  "code_ok [] = True"
| "code_ok (c # p) =
     (0 \<le> net tokenW (c # p) \<and> (\<forall>i. 0 \<le> net (idW i) (c # p)) \<and>
      (\<forall>d \<in> set p. \<not> only_first d) \<and> code_ok p)"

lemma code_ok_code: "code_ok (code c)"
  by (cases c) auto

lemma code_ok_net:
  assumes "code_ok p"
  shows "0 \<le> net tokenW p" "0 \<le> net (idW i) p"
  using assms by (cases p; simp)+

lemma code_ok_exec:
  assumes "exec B c s = Ret (q, s')" "code_ok (c # p)"
  shows "code_ok (q @ p)"
  using assms code_ok_net [of p]
  by (cases c)
    (auto simp: Let_def outcome_simps split: list.splits option.splits prod.splits if_splits
      dest: spec)

text \<open>The two mutexes. An instruction starts no thread.\<close>

interpretation free_mutex: mutex "\<lambda>c s q new s'. exec B c s = Ret (q, s') \<and> new = []"
  freeW in_free pl_freeLocked
proof (unfold_locales, goal_cases account well_formed started)
  case (account c s q new s')
  then show ?case
    by (induct c; force simp: Let_def outcome_simps split: list.splits option.splits prod.splits if_splits)
next
  case (well_formed c s q new s' p)
  then show ?case
    by (cases c) (auto simp: Let_def outcome_simps split: list.splits option.splits prod.splits if_splits)
qed simp

interpretation write_mutex: mutex "\<lambda>c s q new s'. exec B c s = Ret (q, s') \<and> new = []"
  writeW in_write pl_writeLocked
proof (unfold_locales, goal_cases account well_formed started)
  case (account c s q new s')
  then show ?case
    by (induct c; force simp: Let_def outcome_simps split: list.splits option.splits prod.splits if_splits)
next
  case (well_formed c s q new s' p)
  then show ?case
    by (cases c) (auto simp: Let_def outcome_simps split: list.splits option.splits prod.splits if_splits)
qed simp

section \<open>The invariant\<close>

text \<open>Pointers, ids, descriptors and messages that instructions carry are valid.\<close>

fun instr_ok :: "'b manager \<Rightarrow> instr \<Rightarrow> bool" where
  "instr_ok g (StoreRequest i) \<longleftrightarrow> unat i < max_channels g"
| "instr_ok g (ReturnRequest i) \<longleftrightarrow> unat i < max_channels g"
| "instr_ok g (PopFreeList i) \<longleftrightarrow> unat i < max_channels g"
| "instr_ok g (PushFreeList i) \<longleftrightarrow> unat i < max_channels g"
| "instr_ok g (TestRequest i) \<longleftrightarrow> unat i < max_channels g"
| "instr_ok g (CheckRequest i) \<longleftrightarrow> unat i < max_channels g"
| "instr_ok g (MoveRequest i) \<longleftrightarrow> unat i < max_channels g"
| "instr_ok g (TestResponse i) \<longleftrightarrow> unat i < max_channels g"
| "instr_ok g (CheckResponse i) \<longleftrightarrow> unat i < max_channels g"
| "instr_ok g (MoveResponse i) \<longleftrightarrow> unat i < max_channels g"
| "instr_ok g (CloseChannel r) \<longleftrightarrow> r < length (mg_channels g)"
| "instr_ok g (CloseBuffer r) \<longleftrightarrow> r < length (mg_channels g)"
| "instr_ok g (MarkClosed r) \<longleftrightarrow> r < length (mg_channels g)"
| "instr_ok g (WriteChannel r m) \<longleftrightarrow>
     r < length (mg_channels g) \<and> wf_message m \<and> body_len m + 12 < 4294967296"
| "instr_ok g (SendHeader f m) \<longleftrightarrow> f = mg_writeFd g \<and> wf_message m"
| "instr_ok g (SendBody f m) \<longleftrightarrow> f = mg_writeFd g \<and> wf_message m"
| "instr_ok g _ \<longleftrightarrow> True"

definition manager_ok :: "'b manager \<Rightarrow> bool" where
  "manager_ok g \<longleftrightarrow>
     (\<forall>cb. length (slots cb g) = max_channels g \<and>
        (\<forall>r. Some r \<in> set (slots cb g) \<longrightarrow> r < length (mg_channels g))) \<and>
     (\<forall>c \<in> set (mg_channels g). channel_ok g c) \<and>
     (\<forall>i \<in> set (mg_freeList g). unat i < max_channels g)"

text \<open>
  The locks, the tokens of the semaphore and every channel id are accounted for: an id is at
  exactly one place, the free list, a slot or the code of one thread.
\<close>

definition pool_inv :: "('b, 'z) pool \<Rightarrow> bool" where
  "pool_inv s \<longleftrightarrow>
     (let g = pl_manager s; ps = pl_threads s in
      manager_ok g \<and>
      (\<forall>p \<in> set ps. code_ok p \<and> (\<forall>c \<in> set p. instr_ok g c)) \<and>
      accounted freeW in_free (pl_freeLocked s) ps \<and>
      accounted writeW in_write (pl_writeLocked s) ps \<and>
      int (length (mg_freeList g)) = int (mg_semaphore g) + balance tokenW ps \<and>
      (\<forall>i. unat i < max_channels g \<longrightarrow>
         int (count_list (mg_freeList g) i) + of_bool (mg_requestChannel g ! unat i \<noteq> None) +
         balance (idW i) ps = 1) \<and>
      (\<forall>i p. PopFreeList i # p \<in> set ps \<longrightarrow> (\<exists>rest. mg_freeList g = i # rest)))"

lemma channel_ok_cong: "mg_config g = mg_config g' \<Longrightarrow> mg_writeFd g = mg_writeFd g' \<Longrightarrow>
    channel_ok g c = channel_ok g' c"
  by (simp add: channel_ok_def)

lemma instr_ok_mono:
  assumes "instr_ok g c" "mg_config g' = mg_config g" "mg_writeFd g' = mg_writeFd g"
    "length (mg_channels g) \<le> length (mg_channels g')"
  shows "instr_ok g' c"
  using assms by (cases c) auto

lemma slots_update [simp]:
  "slots RemoveRequest (g\<lparr>mg_requestChannel := xs\<rparr>) = xs"
  "slots RemoveResponse (g\<lparr>mg_requestChannel := xs\<rparr>) = slots RemoveResponse g"
  "slots RemoveRequest (g\<lparr>mg_responseChannel := xs\<rparr>) = slots RemoveRequest g"
  "slots RemoveResponse (g\<lparr>mg_responseChannel := xs\<rparr>) = xs"
  "slots cb (g\<lparr>mg_freeList := ys\<rparr>) = slots cb g"
  "slots cb (g\<lparr>mg_semaphore := n\<rparr>) = slots cb g"
  "slots cb (g\<lparr>mg_channels := cs\<rparr>) = slots cb g"
  by (cases cb; simp)+

lemma manager_ok_put_channel:
  assumes "manager_ok g" "channel_ok g c"
  shows "manager_ok (put_channel r c g)"
  using assms set_update_subset_insert [of "mg_channels g" r c]
  by (auto simp: manager_ok_def channel_ok_def)

lemma all_callbacks: "(\<forall>cb. P cb) \<longleftrightarrow> P RemoveRequest \<and> P RemoveResponse"
  by (metis close_callback.exhaust)

lemma wrapped_ok:
  assumes "wf_message m" "body_len m + 12 < 4294967296"
  shows "wrapMessage le32 4 P i m = Ret (wrapped le32 4 P i m)" "wf_message (wrapped le32 4 P i m)"
  using assms by (simp_all add: channel_id_codec.wrapMessage_wrapped channel_id_codec.wf_wrapped)

lemma manager_ok_lengths:
  "manager_ok g \<Longrightarrow> length (mg_requestChannel g) = max_channels g"
  "manager_ok g \<Longrightarrow> length (mg_responseChannel g) = max_channels g"
  by (simp_all add: manager_ok_def all_callbacks)

lemma manager_ok_slot:
  assumes "manager_ok g"
  shows "slot (mg_requestChannel g) i = Ret (Some r) \<Longrightarrow> r < length (mg_channels g)"
    "slot (mg_responseChannel g) i = Ret (Some r) \<Longrightarrow> r < length (mg_channels g)"
  using assms by (auto simp: manager_ok_def all_callbacks slot_eq_Ret) (metis nth_mem)+

lemma manager_ok_deref:
  assumes "manager_ok g" "deref g r = Ret c"
  shows "r < length (mg_channels g)" "ch_writeFd c = mg_writeFd g" "unat (ch_id c) < max_channels g"
    "manager_ok (put_channel r (c\<lparr>ch_buffer := b\<rparr>) g)" "manager_ok (put_channel r (c\<lparr>ch_isClosed := True\<rparr>) g)"
proof -
  from assms have "channel_ok g c" "r < length (mg_channels g)"
    by (auto simp: manager_ok_def deref_def split: if_splits)
  then show "r < length (mg_channels g)" "ch_writeFd c = mg_writeFd g" "unat (ch_id c) < max_channels g"
    "manager_ok (put_channel r (c\<lparr>ch_buffer := b\<rparr>) g)" "manager_ok (put_channel r (c\<lparr>ch_isClosed := True\<rparr>) g)"
    using assms(1) by (auto simp: channel_ok_def intro!: manager_ok_put_channel)
qed

lemma instr_ok_callback [simp]: "instr_ok g (callback_code cb i) \<longleftrightarrow> unat i < max_channels g"
  by (cases cb) simp_all

lemma manager_ok_clear:
  assumes "manager_ok g"
  shows "manager_ok (g\<lparr>mg_requestChannel := (mg_requestChannel g)[k := None]\<rparr>)"
    "manager_ok (g\<lparr>mg_responseChannel := (mg_responseChannel g)[k := None]\<rparr>)"
  using assms set_update_subset_insert [of "mg_requestChannel g" k None]
    set_update_subset_insert [of "mg_responseChannel g" k None]
  by (auto simp: manager_ok_def all_callbacks channel_ok_def)

lemma manager_ok_store:
  assumes "manager_ok g" "unat i < max_channels g"
  shows "manager_ok (g\<lparr>mg_channels := mg_channels g @
      [InternalChannel_new B (RequestProtocol (mg_config g)) (RequestEndProtocol (mg_config g)) i (mg_writeFd g) RemoveRequest],
    mg_requestChannel := (mg_requestChannel g)[unat i := Some (length (mg_channels g))]\<rparr>)"
  using assms set_update_subset_insert [of "mg_requestChannel g" "unat i" "Some (length (mg_channels g))"]
  by (auto simp: manager_ok_def all_callbacks channel_ok_def InternalChannel_new_def less_SucI)

lemma manager_ok_update:
  "manager_ok (g\<lparr>mg_semaphore := n\<rparr>) = manager_ok g"
  "manager_ok g \<Longrightarrow> set xs \<subseteq> {i. unat i < max_channels g} \<Longrightarrow> manager_ok (g\<lparr>mg_freeList := xs\<rparr>)"
  by (auto simp: manager_ok_def all_callbacks channel_ok_def)

lemma manager_ok_free: "manager_ok g \<Longrightarrow> mg_freeList g = i # is \<Longrightarrow> unat i < max_channels g \<and> set is \<subseteq> {i. unat i < max_channels g}"
  "manager_ok g \<Longrightarrow> set (mg_freeList g) \<subseteq> {i. unat i < max_channels g}"
  by (auto simp: manager_ok_def)

lemma exec_manager:
  assumes "exec B c s = Ret (q, s')" "manager_ok (pl_manager s)" "instr_ok (pl_manager s) c"
  shows "manager_ok (pl_manager s') \<and> mg_config (pl_manager s') = mg_config (pl_manager s) \<and>
    mg_writeFd (pl_manager s') = mg_writeFd (pl_manager s) \<and>
    length (mg_channels (pl_manager s)) \<le> length (mg_channels (pl_manager s')) \<and>
    (\<forall>d \<in> set q. instr_ok (pl_manager s') d)"
  using assms manager_ok_free [of "pl_manager s"]
  by (cases c)
    (auto simp: Let_def outcome_simps manager_ok_update manager_ok_clear manager_ok_store wrapped_ok
        sync_length_wf manager_ok_deref
      split: list.splits option.splits prod.splits if_splits
      , (erule (1) manager_ok_slot)+)

section \<open>Every step keeps the invariant\<close>

lemma callback_net [simp]: "net f [callback_code cb i] = f (callback_code cb i)"
  by simp

text \<open>What one instruction changes is what its balance says.\<close>

lemma exec_tokens:
  assumes "exec B c s = Ret (q, s')"
  shows "int (length (mg_freeList (pl_manager s'))) - int (mg_semaphore (pl_manager s')) =
    int (length (mg_freeList (pl_manager s))) - int (mg_semaphore (pl_manager s)) - tokenW c + net tokenW q"
  using assms
  by (cases c) (auto simp: Let_def outcome_simps of_nat_diff
      split: list.splits option.splits prod.splits if_splits)

lemma exec_ids:
  assumes "exec B c s = Ret (q, s')" "manager_ok (pl_manager s)" "unat i < max_channels (pl_manager s)"
    and pop: "\<And>j. c = PopFreeList j \<Longrightarrow> \<exists>rest. mg_freeList (pl_manager s) = j # rest"
    and store: "\<And>j. c = StoreRequest j \<Longrightarrow> mg_requestChannel (pl_manager s) ! unat j = None"
  shows "int (count_list (mg_freeList (pl_manager s')) i) +
      of_bool (mg_requestChannel (pl_manager s') ! unat i \<noteq> None) =
    int (count_list (mg_freeList (pl_manager s)) i) +
      of_bool (mg_requestChannel (pl_manager s) ! unat i \<noteq> None) + idW i c - net (idW i) q"
  using assms manager_ok_lengths [OF assms(2)]
  by (cases c)
    (auto simp: Let_def outcome_simps nth_update slot_eq_Ret
      split: list.splits option.splits prod.splits if_splits)

text \<open>What the invariant says of a thread that is about to execute an instruction.\<close>

lemma pool_inv_nets:
  assumes "pool_inv s" "p \<in> set (pl_threads s)"
  shows "0 \<le> net tokenW p" "0 \<le> net (idW i) p"
  using assms code_ok_net [of p] by (auto simp: pool_inv_def Let_def)

lemma pool_inv_locks:
  assumes "pool_inv s"
  shows "accounted freeW in_free (pl_freeLocked s) (pl_threads s)"
    "accounted writeW in_write (pl_writeLocked s) (pl_threads s)"
  using assms by (simp_all add: pool_inv_def Let_def)

lemma about_to:
  assumes inv: "pool_inv s" and t: "t < length (pl_threads s)" "pl_threads s ! t = c # p"
  shows "in_free c \<Longrightarrow> pl_freeLocked s"
    and "in_write c \<Longrightarrow> pl_writeLocked s"
    and "tokenW c = 1 \<Longrightarrow> c \<noteq> ReleaseSemaphore \<Longrightarrow> mg_freeList (pl_manager s) \<noteq> []"
    and "c = StoreRequest i \<Longrightarrow> mg_requestChannel (pl_manager s) ! unat i = None"
    and "code_ok (c # p)" "instr_ok (pl_manager s) c"
proof -
  let ?ps = "pl_threads s"
  from t have mem: "c # p \<in> set ?ps" by (metis nth_mem)
  with inv show ok: "code_ok (c # p)" and io: "instr_ok (pl_manager s) c"
    by (auto simp: pool_inv_def Let_def)
  note rest = code_ok_net [of p]
  from ok have okp: "code_ok p" by simp
  have le: "net f (c # p) \<le> balance f ?ps" if "\<And>p. p \<in> set ?ps \<Longrightarrow> 0 \<le> net f p" for f
    using balance_without [OF t(1), of f] that t(2) by simp
  note let' = le [of tokenW, OF pool_inv_nets(1) [OF inv]] and lei = le [of "idW i", OF pool_inv_nets(2) [OF inv]]
  show "in_free c \<Longrightarrow> pl_freeLocked s" by (rule accounted_inside [OF pool_inv_locks(1) [OF inv] t])
  show "in_write c \<Longrightarrow> pl_writeLocked s" by (rule accounted_inside [OF pool_inv_locks(2) [OF inv] t])
  show "tokenW c = 1 \<Longrightarrow> c \<noteq> ReleaseSemaphore \<Longrightarrow> mg_freeList (pl_manager s) \<noteq> []"
    using let' rest(1) [OF okp] inv by (auto simp: pool_inv_def Let_def)
  show "c = StoreRequest i \<Longrightarrow> mg_requestChannel (pl_manager s) ! unat i = None"
    using lei rest(2) [OF okp, of i] inv io
    by (cases "mg_requestChannel (pl_manager s) ! unat i")
      (auto simp: pool_inv_def Let_def split: if_splits dest!: spec [of _ i])
qed

text \<open>Two threads are never inside the same lock.\<close>

lemma exclusive:
  assumes inv: "pool_inv s"
    and t: "t < length (pl_threads s)" "pl_threads s ! t = c # p"
    and u: "u < length (pl_threads s)" "pl_threads s ! u = d # q"
  shows "in_free c \<Longrightarrow> in_free d \<Longrightarrow> t = u" "in_write c \<Longrightarrow> in_write d \<Longrightarrow> t = u"
  using accounted_exclusive [OF pool_inv_locks(1) [OF inv] t(1) u(1) _ t(2) u(2)]
    accounted_exclusive [OF pool_inv_locks(2) [OF inv] t(1) u(1) _ t(2) u(2)] by blast+

lemma exec_list_same: "exec B c s = Ret (q, s') \<Longrightarrow> \<not> in_free c \<Longrightarrow>
    mg_freeList (pl_manager s') = mg_freeList (pl_manager s)"
  by (cases c) (auto simp: Let_def outcome_simps split: list.splits option.splits prod.splits if_splits)

lemma exec_first:
  "exec B c s = Ret (PopFreeList i # q, s') \<Longrightarrow> \<exists>rest. mg_freeList (pl_manager s') = i # rest"
  "exec B c s = Ret (SendBody f m # q, s') \<Longrightarrow> \<exists>m'. c = SendHeader f m'"
  by (cases c; auto simp: Let_def outcome_simps split: list.splits option.splits prod.splits if_splits;
      metis callback_code_simps(7) only_first.simps(1,2) list.inject)+

lemma step_threadE:
  assumes "step_thread B t s = Ret s'"
  obtains c p q s1 where "t < length (pl_threads s)" "pl_threads s ! t = c # p"
    "exec B c s = Ret (q, s1)" "s' = s1\<lparr>pl_threads := (pl_threads s)[t := q @ p]\<rparr>"
  using assms by (auto simp: step_thread_def outcome_simps split: if_splits list.splits)

lemma step_inv:
  assumes inv: "pool_inv s" and st: "step_thread B t s = Ret s'"
  shows "pool_inv s'"
proof -
  obtain c p q s1 where t: "t < length (pl_threads s)" "pl_threads s ! t = c # p"
    and ex: "exec B c s = Ret (q, s1)" and s': "s' = s1\<lparr>pl_threads := (pl_threads s)[t := q @ p]\<rparr>"
    by (rule step_threadE [OF st])
  let ?ps = "pl_threads s" and ?g = "pl_manager s" and ?g' = "pl_manager s1"
  note ab = about_to [OF inv t]
  have mo: "manager_ok ?g" and codes: "\<forall>p \<in> set ?ps. code_ok p \<and> (\<forall>c \<in> set p. instr_ok ?g c)"
    using inv by (simp_all add: pool_inv_def Let_def)
  note man = exec_manager [OF ex mo ab(6)]
  have bal: "balance f (?ps[t := q @ p]) = balance f ?ps - f c + net f q" for f
    using t by (simp add: balance_update)
  have pop: "\<exists>rest. mg_freeList ?g = j # rest" if "c = PopFreeList j" for j
    using inv t nth_mem [OF t(1)] that by (auto simp: pool_inv_def Let_def)
  have "\<forall>x \<in> set (?ps[t := q @ p]). code_ok x \<and> (\<forall>c \<in> set x. instr_ok ?g' c)"
  proof
    fix x assume "x \<in> set (?ps[t := q @ p])"
    then consider "x = q @ p" | "x \<in> set ?ps" using set_update_subset_insert [of ?ps t "q @ p"] by auto
    then show "code_ok x \<and> (\<forall>c \<in> set x. instr_ok ?g' c)"
    proof cases
      case 1
      have "\<forall>c \<in> set p. instr_ok ?g c" using codes nth_mem [OF t(1)] t(2) by auto
      with 1 show ?thesis using code_ok_exec [OF ex ab(5)] man by (auto intro: instr_ok_mono)
    next
      case 2
      with codes man show ?thesis by (auto intro: instr_ok_mono)
    qed
  qed
  moreover have "accounted freeW in_free (pl_freeLocked s1) (?ps[t := q @ p])"
    "accounted writeW in_write (pl_writeLocked s1) (?ps[t := q @ p])"
    using free_mutex.step_accounted [OF pool_inv_locks(1) [OF inv] t conjI [OF ex refl]]
      write_mutex.step_accounted [OF pool_inv_locks(2) [OF inv] t conjI [OF ex refl]] by simp_all
  moreover have "int (length (mg_freeList ?g')) = int (mg_semaphore ?g') + balance tokenW (?ps[t := q @ p])"
    using exec_tokens [OF ex] bal [of tokenW] inv by (simp add: pool_inv_def Let_def)
  moreover have "int (count_list (mg_freeList ?g') i) +
      of_bool (mg_requestChannel ?g' ! unat i \<noteq> None) + balance (idW i) (?ps[t := q @ p]) = 1"
    if i: "unat i < max_channels ?g'" for i
  proof -
    have "int (count_list (mg_freeList ?g) i) + of_bool (mg_requestChannel ?g ! unat i \<noteq> None) +
        balance (idW i) ?ps = 1"
      using inv i man unfolding pool_inv_def Let_def by simp
    moreover have "unat i < max_channels ?g" using i man by simp
    note exec_ids [OF ex mo this pop ab(4)]
    ultimately show ?thesis using bal [of "idW i"] by simp
  qed
  moreover have "\<exists>rest. mg_freeList ?g' = i # rest" if "PopFreeList i # x \<in> set (?ps[t := q @ p])" for i x
  proof -
    from that obtain u where u: "u < length ?ps" "?ps[t := q @ p] ! u = PopFreeList i # x"
      by (auto simp: in_set_conv_nth)
    show ?thesis
    proof (cases "u = t")
      case True
      with u ab(5) have "q \<noteq> []" by (cases p) auto
      with u True obtain q' where "q = PopFreeList i # q'" by (cases q) auto
      with ex show ?thesis by (auto dest: exec_first)
    next
      case False
      with u have pu: "?ps ! u = PopFreeList i # x" by simp
      with False exclusive(1) [OF inv t u(1)] have "\<not> in_free c" by auto
      with exec_list_same [OF ex] inv nth_mem [OF u(1)] pu show ?thesis
        by (auto simp: pool_inv_def Let_def)
    qed
  qed
  ultimately show ?thesis using man by (auto simp: s' pool_inv_def Let_def)
qed

lemma spawn_inv:
  assumes inv: "pool_inv s" and ok: "call_ok (pl_manager s) c"
  shows "pool_inv (s\<lparr>pl_threads := pl_threads s @ [code c]\<rparr>)"
proof -
  have "net tokenW (code c) = 0" "net (idW i) (code c) = 0" "net freeW (code c) = 0" "net writeW (code c) = 0"
    "lock_ok freeW in_free (code c)" "lock_ok writeW in_write (code c)" for i
    by (cases c; simp)+
  moreover have "\<forall>d \<in> set (code c). instr_ok (pl_manager s) d" using ok by (cases c) auto
  moreover have "PopFreeList i # x \<noteq> code c" for i x by (cases c) auto
  ultimately show ?thesis using inv by (auto simp: pool_inv_def Let_def code_ok_code accounted_spawn)
qed

lemma mg_inv_manager_ok:
  assumes inv: "mg_inv g"
  shows "manager_ok g"
proof -
  have "r < length (mg_channels g)" if "Some r \<in> set (slots cb g)" for cb r
  proof -
    from that inv obtain k where k: "k < max_channels g" "slots cb g ! k = Some r"
      by (auto simp: in_set_conv_nth)
    have "unat (of_nat k :: channel_id_t) = k"
      using less_trans [OF k(1) unat_u32_less [of "MaxChannels (mg_config g)"]] by (simp add: unat_of_nat_u32)
    with k mg_inv_slot(1) [OF inv, of "of_nat k" cb r] show ?thesis by simp
  qed
  then show ?thesis
    using inv mg_inv_channel [OF inv] mg_inv_free [OF inv] by (auto simp: manager_ok_def in_set_conv_nth)
qed

lemma start_inv:
  assumes "mg_inv g"
  shows "pool_inv (pool_start g w)"
proof -
  have "distinct xs \<Longrightarrow> count_list xs i = (if i \<in> set xs then 1 else 0)" for xs and i :: channel_id_t
    by (induction xs) auto
  then have "count_list (mg_freeList g) i = (if i \<in> set (mg_freeList g) then 1 else 0)" for i
    using assms by (simp add: mg_inv_def)
  then show ?thesis
    using mg_inv_semaphore [OF assms] mg_inv_free [OF assms] mg_inv_manager_ok [OF assms]
    by (auto simp: pool_inv_def pool_start_def accounted_def Let_def)
qed

lemma reached_inv:
  assumes "reached B g w s" "mg_inv g"
  shows "pool_inv s"
  using assms
proof (induction rule: reached.induct)
  case start
  then show ?case by (rule start_inv)
next
  case (step s s')
  from step.hyps(2) step.IH [OF step.prems] show ?case
    by (cases rule: interleaved.cases) (auto intro: spawn_inv step_inv)
qed

text \<open>The only undefined step is the move out of a slot that another thread has emptied.\<close>

lemma exec_undefined:
  assumes "exec B c s = Undef" "manager_ok (pl_manager s)" "instr_ok (pl_manager s) c"
    and "tokenW c = 1 \<Longrightarrow> c \<noteq> ReleaseSemaphore \<Longrightarrow> mg_freeList (pl_manager s) \<noteq> []"
  shows "(\<exists>i. c = MoveRequest i \<and> mg_requestChannel (pl_manager s) ! unat i = None) \<or>
         (\<exists>i. c = MoveResponse i \<and> mg_responseChannel (pl_manager s) ! unat i = None)"
  using assms manager_ok_lengths [OF assms(2)]
  by (induct c; force simp: Let_def outcome_simps slot_def deref_def wrapped_ok
      split: list.splits option.splits prod.splits if_splits)

lemma wrapMessage_not_Block [simp]: "wrapMessage enc sz P v m \<noteq> Block"
  by (simp add: wrapMessage_def outcome_simps mem_write_def Let_def)

lemma exec_blocked:
  "exec B c s = Block \<Longrightarrow>
     (c = AcquireSemaphore \<and> mg_semaphore (pl_manager s) = 0) \<or>
     (c = LockFreeList \<and> pl_freeLocked s) \<or> (c = LockWrite \<and> pl_writeLocked s)"
  by (induct c; force simp: Let_def outcome_simps
      split: list.splits option.splits prod.splits if_splits)

section \<open>The bytes on the connection\<close>

text \<open>A thread between the two \<^verbatim>\<open>send\<close> calls of a message has written the header.\<close>

fun pending :: "instr list \<Rightarrow> byte list" where
  "pending (SendBody f m # p) = encode_header (header m)"
| "pending p = []"

definition wire_inv :: "'z world_scheme \<Rightarrow> ('b, 'z) pool \<Rightarrow> bool" where
  "wire_inv w0 s \<longleftrightarrow>
     (let f = mg_writeFd (pl_manager s); w = pl_world s in
      0 \<le> f \<and> w_script w = [] \<and> w_open w f \<and>
      (\<exists>ms. (\<forall>m \<in> set ms. wf_message m) \<and>
         w_out w f = w_out w0 f @ concat (map frame ms) @ concat (map pending (pl_threads s))))"

lemma concat_map_single:
  assumes "t < length xs" "\<And>u. u < length xs \<Longrightarrow> u \<noteq> t \<Longrightarrow> f (xs ! u) = []"
  shows "concat (map f xs) = f (xs ! t)" "concat (map f (xs[t := x])) = f x"
proof -
  have two: "concat (map f ys) = f (ys ! t)"
    if "t < length ys" "\<And>u. u < length ys \<Longrightarrow> u \<noteq> t \<Longrightarrow> f (ys ! u) = []" for ys
  proof -
    have "ys = take t ys @ ys ! t # drop (Suc t) ys" using that(1) by (rule id_take_nth_drop)
    moreover have "concat (map f (take t ys)) = []" "concat (map f (drop (Suc t) ys)) = []"
      using that by (auto simp: in_set_conv_nth)
    ultimately show ?thesis by (metis append_Nil append_Nil2 concat.simps(2) concat_append list.simps(9) map_append)
  qed
  from two [of xs] assms show "concat (map f xs) = f (xs ! t)" by simp
  from two [of "xs[t := x]"] assms show "concat (map f (xs[t := x])) = f x" by simp
qed

lemma exec_world:
  assumes "exec B c s = Ret (q, s')" "\<not> in_write c \<or> c = UnlockWrite"
  shows "pl_world s' = pl_world s"
  using assms
  by (induct c; force simp: Let_def outcome_simps split: list.splits option.splits prod.splits if_splits)

lemma pending_nonempty: "pending p \<noteq> [] \<Longrightarrow> \<exists>f m q. p = SendBody f m # q"
  by (cases p rule: pending.cases) auto

lemma step_wire:
  assumes inv: "pool_inv s" and wi: "wire_inv w0 s" and st: "step_thread B t s = Ret s'"
  shows "wire_inv w0 s'"
proof -
  obtain c p q s1 where t: "t < length (pl_threads s)" "pl_threads s ! t = c # p"
    and ex: "exec B c s = Ret (q, s1)" and s': "s' = s1\<lparr>pl_threads := (pl_threads s)[t := q @ p]\<rparr>"
    by (rule step_threadE [OF st])
  let ?ps = "pl_threads s" and ?f = "mg_writeFd (pl_manager s)"
  note ab = about_to(5,6) [OF inv t]
  have "manager_ok (pl_manager s)" using inv by (simp add: pool_inv_def Let_def)
  with exec_manager [OF ex this ab(2)] have fd: "mg_writeFd (pl_manager s1) = ?f" by simp
  from wi obtain ms where ms: "\<forall>m \<in> set ms. wf_message m"
    "w_out (pl_world s) ?f = w_out w0 ?f @ concat (map frame ms) @ concat (map pending ?ps)"
    and w: "0 \<le> ?f" "w_script (pl_world s) = []" "w_open (pl_world s) ?f"
    by (auto simp: wire_inv_def Let_def)
  from ab(1) have pp: "pending p = []" using pending_nonempty [of p] by fastforce
  show ?thesis
  proof (cases "in_write c \<and> c \<noteq> UnlockWrite")
    case False
    have "pending (q @ p) = pending (?ps ! t)"
    proof (cases q)
      case Nil
      with False pp t(2) show ?thesis by (cases c) auto
    next
      case (Cons d q')
      have "d \<noteq> SendBody f m" for f m using exec_first(2) [of B c s f m q' s1] ex Cons False by auto
      with Cons False t(2) show ?thesis by (cases d; cases c) auto
    qed
    then have "map pending (?ps[t := q @ p]) = map pending ?ps"
      by (simp add: map_update) (metis list_update_id map_update)
    moreover have "pl_world s1 = pl_world s" using exec_world [OF ex] False by blast
    ultimately show ?thesis
      using ms w fd unfolding wire_inv_def s' by auto
  next
    case True
    have others: "pending (?ps ! u) = []" if "u < length ?ps" "u \<noteq> t" for u
    proof (rule ccontr)
      assume "pending (?ps ! u) \<noteq> []"
      then obtain f m r where "?ps ! u = SendBody f m # r" using pending_nonempty by blast
      with exclusive(2) [OF inv t that(1) this] True that(2) show False by simp
    qed
    note single = concat_map_single [OF t(1), of pending, OF others]
    from True consider (h) m where "c = SendHeader ?f m" "wf_message m" | (b) m where "c = SendBody ?f m" "wf_message m"
      using ab(2) by (cases c) auto
    then show ?thesis
    proof cases
      case h
      with ex w have "q = [SendBody ?f m]" "w_out (pl_world s1) ?f = w_out (pl_world s) ?f @ encode_header (header m)"
        "w_script (pl_world s1) = []" "w_open (pl_world s1) ?f"
        by (auto simp: os_send_no_fault sync_length_wf kMessageHeaderLength_def)
      then show ?thesis
        using ms w fd single t(2) h unfolding wire_inv_def s' by (auto simp: Let_def)
    next
      case b
      with ex w have "q = []" "w_out (pl_world s1) ?f = w_out (pl_world s) ?f @ data m"
        "w_script (pl_world s1) = []" "w_open (pl_world s1) ?f"
        by (auto simp: os_send_no_fault wf_message_def)
      then have "w_out (pl_world s1) ?f = w_out w0 ?f @ concat (map frame (ms @ [m])) @ pending (q @ p)"
        using ms(2) single(1) t(2) b pp by (simp add: frame_def)
      then show ?thesis
        using \<open>w_script (pl_world s1) = []\<close> \<open>w_open (pl_world s1) ?f\<close> ms(1) w fd single(2) b(2)
        unfolding wire_inv_def s' Let_def by (auto intro!: exI [of _ "ms @ [m]"])
    qed
  qed
qed

lemma reached_config:
  assumes "reached B g w s" "mg_inv g"
  shows "mg_writeFd (pl_manager s) = mg_writeFd g \<and> mg_config (pl_manager s) = mg_config g"
  using assms
proof (induction rule: reached.induct)
  case start
  then show ?case by (simp add: pool_start_def)
next
  case (step s s')
  note inv = reached_inv [OF step.hyps(1) step.prems]
  from step.hyps(2) show ?case
  proof cases
    case (spawn c)
    with step show ?thesis by simp
  next
    case (run t)
    then obtain c p q s1 where t: "t < length (pl_threads s)" "pl_threads s ! t = c # p"
      and ex: "exec B c s = Ret (q, s1)" and s': "s' = s1\<lparr>pl_threads := (pl_threads s)[t := q @ p]\<rparr>"
      by (rule step_threadE)
    have "manager_ok (pl_manager s)" using inv by (simp add: pool_inv_def Let_def)
    with exec_manager [OF ex this about_to(6) [OF inv t]] step s' show ?thesis by simp
  qed
qed

lemma reached_wire:
  assumes "reached B g w s" "mg_inv g" "0 \<le> mg_writeFd g" "w_script w = []" "w_open w (mg_writeFd g)"
  shows "wire_inv w s"
  using assms
proof (induction rule: reached.induct)
  case start
  then show ?case by (auto simp: wire_inv_def pool_start_def Let_def intro: exI [of _ "[]"])
next
  case (step s s')
  then have wi: "wire_inv w s" by simp
  from step.hyps(2) show ?case
  proof cases
    case (spawn c)
    have "pending (code c) = []" by (cases c) auto
    with wi spawn show ?thesis by (simp add: wire_inv_def Let_def)
  next
    case (run t)
    with step_wire [OF reached_inv [OF step.hyps(1) step.prems(1)] wi] show ?thesis by simp
  qed
qed

section \<open>A thread that is not interrupted\<close>

inductive alone :: "'b message_buffer \<Rightarrow> nat \<Rightarrow> ('b, 'z) pool \<Rightarrow> ('b, 'z) pool \<Rightarrow> bool"
  for B :: "'b message_buffer" and t :: nat where
  stop: "alone B t s s"
| more: "step_thread B t s = Ret s1 \<Longrightarrow> alone B t s1 s2 \<Longrightarrow> alone B t s s2"

lemma alone_trans: "alone B t s s1 \<Longrightarrow> alone B t s1 s2 \<Longrightarrow> alone B t s s2"
  by (induction rule: alone.induct) (auto intro: alone.more)

text \<open>The state in which thread \<open>t\<close> has still to execute \<open>p\<close> and both mutexes are free.\<close>

definition at :: "nat \<Rightarrow> instr list \<Rightarrow> 'b manager \<Rightarrow> 'z world_scheme \<Rightarrow> ('b, 'z) pool \<Rightarrow> ('b, 'z) pool" where
  "at t p g w s = s\<lparr>pl_manager := g, pl_world := w, pl_threads := (pl_threads s)[t := p]\<rparr>"

lemma at_simps [simp]:
  "pl_manager (at t p g w s) = g" "pl_world (at t p g w s) = w"
  "pl_freeLocked (at t p g w s) = pl_freeLocked s" "pl_writeLocked (at t p g w s) = pl_writeLocked s"
  "at t p g w (at t q h v s) = at t p g w s"
  "length (pl_threads (at t p g w s)) = length (pl_threads s)"
  by (simp_all add: at_def)

lemma at_same: "pl_threads s ! t = p \<Longrightarrow> at t p (pl_manager s) (pl_world s) s = s"
  unfolding at_def by (cases s) (simp, metis list_update_id)

lemma alone_step:
  assumes "t < length (pl_threads s)" "exec B c (at t (c # p) g w s) = Ret (q, s1)"
    "s1 = (at t (c # p) g w s)\<lparr>pl_manager := g', pl_world := w'\<rparr>" "alone B t (at t (q @ p) g' w' s) s2"
  shows "alone B t (at t (c # p) g w s) s2"
  by (rule alone.more [OF _ assms(4)]) (use assms(1-3) in \<open>simp add: step_thread_def at_def\<close>)

lemma alone_send:
  assumes t: "t < length (pl_threads s)" and free: "\<not> pl_writeLocked s"
    and rest: "alone B t (at t p g (snd (writeMessage f m w)) s) s2"
  shows "alone B t (at t (LockWrite # SendHeader f m # UnlockWrite # p) g w s) s2"
proof -
  let ?s = "s\<lparr>pl_writeLocked := True\<rparr>"
  have unlock: "alone B t (at t (UnlockWrite # p) g (snd (writeMessage f m w)) ?s) s2"
    by (rule alone.more [OF _ rest]) (use t free in \<open>simp add: step_thread_def at_def\<close>)
  have "alone B t (at t (SendHeader f m # UnlockWrite # p) g w ?s) s2"
  proof (cases "f < 0")
    case True
    with unlock t show ?thesis
      by (intro alone_step [where q = "[]"]) (simp_all add: writeMessage_def)
  next
    case False
    let ?m = "sync_length m"
    obtain n w1 where h: "os_send f (encode_header (header ?m)) w = (n, w1)" by fastforce
    obtain n' w2 where b: "os_send f (take (body_len ?m) (data ?m)) w1 = (n', w2)" by fastforce
    show ?thesis
    proof (cases "n < int kMessageHeaderLength")
      case True
      with False h unlock t show ?thesis
        by (intro alone_step [where q = "[]" and w' = w1]) (simp_all add: writeMessage_def Let_def)
    next
      case header_sent: False
      with False h b have "snd (writeMessage f m w) = w2" by (simp add: writeMessage_def Let_def)
      with unlock t b have "alone B t (at t (SendBody f ?m # UnlockWrite # p) g w1 ?s) s2"
        by (intro alone_step [where q = "[]" and w' = w2]) simp_all
      with False header_sent h t show ?thesis
        by (intro alone_step [where q = "[SendBody f ?m]" and w' = w1]) (simp_all add: Let_def)
    qed
  qed
  then show ?thesis
    by (rule alone.more [rotated]) (use t free in \<open>simp add: step_thread_def at_def\<close>)
qed

lemma alone_push:
  assumes t: "t < length (pl_threads s)" and free: "\<not> pl_freeLocked s"
    and rest: "alone B t (at t p (g\<lparr>mg_freeList := i # mg_freeList g, mg_semaphore := mg_semaphore g + 1\<rparr>) w s) s2"
  shows "alone B t (at t (LockFreeList # PushFreeList i # UnlockFreeList # ReleaseSemaphore # p) g w s) s2"
proof -
  let ?s = "s\<lparr>pl_freeLocked := True\<rparr>" and ?g = "g\<lparr>mg_freeList := i # mg_freeList g\<rparr>"
  have "alone B t (at t (ReleaseSemaphore # p) ?g w s) s2"
    by (rule alone.more [OF _ rest]) (use t in \<open>simp add: step_thread_def at_def\<close>)
  then have "alone B t (at t (UnlockFreeList # ReleaseSemaphore # p) ?g w ?s) s2"
    by (rule alone.more [rotated]) (use t free in \<open>simp add: step_thread_def at_def\<close>)
  then have "alone B t (at t (PushFreeList i # UnlockFreeList # ReleaseSemaphore # p) g w ?s) s2"
    by (rule alone.more [rotated]) (use t in \<open>simp add: step_thread_def at_def\<close>)
  then show ?thesis
    by (rule alone.more [rotated]) (use t free in \<open>simp add: step_thread_def at_def\<close>)
qed

text \<open>
  Uninterrupted, the instructions of \<^verbatim>\<open>close\<close> and of the two removals do what the functions of
  the sequential model do.
\<close>

lemma close_alone:
  fixes s :: "('b, 'z) pool"
  assumes t: "t < length (pl_threads s)" "\<not> pl_freeLocked s" "\<not> pl_writeLocked s"
  shows "InternalChannel_close B r g w = Ret (g', w') \<Longrightarrow>
      alone B t (at t (CloseChannel r # p) g w s) (at t p g' w' s)"
    and "removeRequestChannel B i g w = Ret (g', w') \<Longrightarrow>
      alone B t (at t (CheckRequest i # p) g w s) (at t p g' w' s)"
    and "removeResponseChannel B i g w = Ret (g', w') \<Longrightarrow>
      alone B t (at t (CheckResponse i # p) g w s) (at t p g' w' s)"
proof (induction B r g w and B i g w and B i g w arbitrary: p g' w' and p g' w' and p g' w'
    rule: InternalChannel_close_removeRequestChannel_removeResponseChannel.induct)
  case (1 B r g w)
  from "1.prems" obtain c where c: "deref g r = Ret c" by (auto simp: InternalChannel_close.simps [of B r g w] outcome_simps)
  show ?case
  proof (cases "ch_isClosed c")
    case True
    with c "1.prems" have "g' = g" "w' = w" by (simp_all add: InternalChannel_close.simps [of B r g w])
    with True c t show ?thesis
      by (intro alone_step [where q = "[]" and g' = g and w' = w]) (simp_all add: alone.stop)
  next
    case False
    obtain st w1 where wr: "writeMessage (ch_writeFd c) (close_message (ch_WriteEndProtocol c) (ch_id c)) w = (st, w1)"
      by fastforce
    let ?c1 = "c\<lparr>ch_buffer := mb_close B (ch_buffer c)\<rparr>"
    let ?g1 = "put_channel r ?c1 g" and ?g2 = "put_channel r (?c1\<lparr>ch_isClosed := True\<rparr>) g"
    from c have r: "r < length (mg_channels g)" by (simp add: deref_def split: if_splits)
    have twice: "put_channel r (?c1\<lparr>ch_isClosed := True\<rparr>) ?g1 = ?g2" "deref ?g1 r = Ret ?c1"
      using r by (simp_all add: put_channel_def deref_def)
    have g2: "put_channel r (c\<lparr>ch_buffer := mb_close B (ch_buffer c), ch_isClosed := True\<rparr>) g = ?g2" by simp
    have "alone B t (at t (callback_code (ch_closeCallback c) (ch_id c) # p) ?g2 w1 s) (at t p g' w' s)"
    proof (cases "ch_closeCallback c")
      case RemoveRequest
      with False c wr "1.prems" have "removeRequestChannel B (ch_id c) ?g2 w1 = Ret (g', w')"
        by (simp add: InternalChannel_close.simps [of B r g w])
      from "1.IH"(1) [OF c False wr [symmetric] refl RemoveRequest this] RemoveRequest show ?thesis by simp
    next
      case RemoveResponse
      with False c wr "1.prems" have "removeResponseChannel B (ch_id c) ?g2 w1 = Ret (g', w')"
        by (simp add: InternalChannel_close.simps [of B r g w])
      from "1.IH"(2) [OF c False wr [symmetric] refl RemoveResponse this] RemoveResponse show ?thesis by simp
    qed
    then have "alone B t (at t (MarkClosed r # callback_code (ch_closeCallback c) (ch_id c) # p) ?g1 w1 s) (at t p g' w' s)"
      by (intro alone_step [where q = "[]" and g' = ?g2 and w' = w1]) (simp_all add: t twice)
    then have "alone B t (at t (LockWrite # SendHeader (ch_writeFd c) (close_message (ch_WriteEndProtocol c) (ch_id c)) #
        UnlockWrite # MarkClosed r # callback_code (ch_closeCallback c) (ch_id c) # p) ?g1 w s) (at t p g' w' s)"
      by (intro alone_send) (simp_all add: t wr)
    then have "alone B t (at t (CloseBuffer r # LockWrite # SendHeader (ch_writeFd c) (close_message (ch_WriteEndProtocol c) (ch_id c)) #
        UnlockWrite # MarkClosed r # callback_code (ch_closeCallback c) (ch_id c) # p) g w s) (at t p g' w' s)"
      by (intro alone_step [where q = "[]" and g' = ?g1 and w' = w]) (simp_all add: t c)
    then show ?thesis
      by (intro alone_step [where g' = g and w' = w and q = "[CloseBuffer r, LockWrite, SendHeader (ch_writeFd c)
            (close_message (ch_WriteEndProtocol c) (ch_id c)), UnlockWrite, MarkClosed r,
            callback_code (ch_closeCallback c) (ch_id c)]"]) (simp_all add: t c False)
  qed
next
  case (2 B i g w)
  note IH = "2.IH"
  from "2.prems" obtain q where q: "slot (mg_requestChannel g) i = Ret q"
    by (auto simp: removeRequestChannel.simps [of B i g w] outcome_simps)
  show ?case
  proof (cases q)
    case None
    with q "2.prems" have "g' = g" "w' = w" by (simp_all add: removeRequestChannel.simps [of B i g w])
    with None q t show ?thesis
      by (intro alone_step [where q = "[]" and g' = g and w' = w]) (simp_all add: alone.stop)
  next
    case (Some r)
    let ?g1 = "g\<lparr>mg_requestChannel := (mg_requestChannel g)[unat i := None]\<rparr>"
    from Some q "2.prems" obtain g2 where cl: "InternalChannel_close B r ?g1 w = Ret (g2, w')"
      and g': "g' = g2\<lparr>mg_freeList := i # mg_freeList g2, mg_semaphore := mg_semaphore g2 + 1\<rparr>"
      by (auto simp: removeRequestChannel.simps [of B i g w] outcome_simps)
    let ?rest = "[LockFreeList, PushFreeList i, UnlockFreeList, ReleaseSemaphore]"
    have "alone B t (at t (?rest @ p) g2 w' s) (at t p g' w' s)"
      using alone_push [OF t(1,2), of B p g2 i w' "at t p g' w' s"] by (simp add: g' alone.stop)
    from alone_trans [OF IH [OF q Some cl, of "?rest @ p"] this]
    have "alone B t (at t (CloseChannel r # ?rest @ p) ?g1 w s) (at t p g' w' s)" .
    then have "alone B t (at t (MoveRequest i # p) g w s) (at t p g' w' s)"
      by (intro alone_step [where g' = ?g1 and w' = w and q = "CloseChannel r # ?rest"]) (simp_all add: t q Some)
    then show ?thesis
      by (intro alone_step [where g' = g and w' = w and q = "[MoveRequest i]"]) (simp_all add: t q Some)
  qed
next
  case (3 B i g w)
  note IH = "3.IH"
  from "3.prems" obtain q where q: "slot (mg_responseChannel g) i = Ret q"
    by (auto simp: removeResponseChannel.simps [of B i g w] outcome_simps)
  show ?case
  proof (cases q)
    case None
    with q "3.prems" have "g' = g" "w' = w" by (simp_all add: removeResponseChannel.simps [of B i g w])
    with None q t show ?thesis
      by (intro alone_step [where q = "[]" and g' = g and w' = w]) (simp_all add: alone.stop)
  next
    case (Some r)
    let ?g1 = "g\<lparr>mg_responseChannel := (mg_responseChannel g)[unat i := None]\<rparr>"
    from Some q "3.prems" have cl: "InternalChannel_close B r ?g1 w = Ret (g', w')"
      by (simp add: removeResponseChannel.simps [of B i g w])
    have "alone B t (at t (CloseChannel r # p) ?g1 w s) (at t p g' w' s)"
      by (rule IH [OF q Some cl])
    then have "alone B t (at t (MoveResponse i # p) g w s) (at t p g' w' s)"
      by (intro alone_step [where g' = ?g1 and w' = w and q = "[CloseChannel r]"]) (simp_all add: t q Some)
    then show ?thesis
      by (intro alone_step [where g' = g and w' = w and q = "[MoveResponse i]"]) (simp_all add: t q Some)
  qed
qed

section \<open>Properties\<close>

text \<open>The id a thread has in its hands: taken from the list and not stored, or removed and not yet returned.\<close>

definition holds :: "channel_id_t \<Rightarrow> instr list \<Rightarrow> bool" where
  "holds i p \<longleftrightarrow> 0 < net (idW i) p"

lemma count_le_distinct: "(\<And>x. count_list xs x \<le> 1) \<Longrightarrow> distinct xs"
proof (induction xs)
  case (Cons y ys)
  from Cons.prems [of y] have "y \<notin> set ys" by (simp add: count_list_0_iff)
  moreover have "count_list ys x \<le> 1" for x using Cons.prems [of x] by (simp split: if_splits)
  ultimately show ?case using Cons.IH by simp
qed simp

text \<open>The account of one id.\<close>

lemma id_account:
  assumes inv: "pool_inv s" and i: "unat i < max_channels (pl_manager s)"
  defines "free \<equiv> i \<in> set (mg_freeList (pl_manager s))"
    and "stored \<equiv> mg_requestChannel (pl_manager s) ! unat i \<noteq> None"
    and "held \<equiv> (\<lambda>t. t < length (pl_threads s) \<and> holds i (pl_threads s ! t))"
  shows "count_list (mg_freeList (pl_manager s)) i \<le> 1"
    "free \<or> stored \<longleftrightarrow> (\<forall>t. \<not> held t)" "\<not> (free \<and> stored)" "held t \<Longrightarrow> held u \<Longrightarrow> t = u"
proof -
  let ?ps = "pl_threads s" and ?n = "int (count_list (mg_freeList (pl_manager s)) i)"
  have sum: "?n + of_bool stored + balance (idW i) ?ps = 1"
    using inv i unfolding pool_inv_def Let_def stored_def by simp
  have nonneg: "\<forall>p \<in> set ?ps. 0 \<le> net (idW i) p" using pool_inv_nets(2) [OF inv] by blast
  note ge = balance_nonneg [OF nonneg]
  have free: "free \<longleftrightarrow> 0 < ?n" using count_list_0_iff [of "mg_freeList (pl_manager s)" i] by (auto simp: free_def)
  have held: "held t \<Longrightarrow> 1 \<le> balance (idW i) ?ps" for t
    using balance_without [OF _ nonneg, of t] by (auto simp: held_def holds_def)
  have two: "held t \<Longrightarrow> held u \<Longrightarrow> t \<noteq> u \<Longrightarrow> 2 \<le> balance (idW i) ?ps" for t u
    using balance_two [OF _ _ _ nonneg, of t u] by (auto simp: held_def holds_def)
  have some: "0 < balance (idW i) ?ps \<Longrightarrow> \<exists>t. held t"
    using balance_pos [of "idW i" ?ps] by (auto simp: held_def holds_def)
  show "count_list (mg_freeList (pl_manager s)) i \<le> 1"
    using sum ge by (cases stored) auto
  show "free \<or> stored \<longleftrightarrow> (\<forall>t. \<not> held t)"
    using sum ge some held free by (cases stored) force+
  show "\<not> (free \<and> stored)" using sum ge free by auto
  show "held t \<Longrightarrow> held u \<Longrightarrow> t = u"
    using two [of t u] sum by (cases stored) auto
qed

lemma step_undefined:
  assumes inv: "pool_inv s" and un: "step_thread B t s = Undef"
  shows "\<exists>i p. (pl_threads s ! t = MoveRequest i # p \<and> mg_requestChannel (pl_manager s) ! unat i = None) \<or>
    (pl_threads s ! t = MoveResponse i # p \<and> mg_responseChannel (pl_manager s) ! unat i = None)"
proof -
  from un obtain c p where t: "t < length (pl_threads s)" "pl_threads s ! t = c # p" and ex: "exec B c s = Undef"
    by (auto simp: step_thread_def outcome_simps split: if_splits list.splits)
  have "manager_ok (pl_manager s)" using inv by (simp add: pool_inv_def Let_def)
  with exec_undefined [OF ex this about_to(6,3) [OF inv t]] t(2) show ?thesis by auto
qed


text \<open>
  C10. The messages of concurrent writers do not mix: the bytes on the connection are always whole
  messages one after the other, and at most the header of one more, whose writer holds the
  write mutex.
\<close>

theorem writes_are_whole:
  assumes "reached B g w s" "mg_inv g" "0 \<le> mg_writeFd g" "w_script w = []" "w_open w (mg_writeFd g)"
  shows "\<exists>ms rest. (\<forall>m \<in> set ms. wf_message m) \<and>
    w_out (pl_world s) (mg_writeFd g) = w_out w (mg_writeFd g) @ concat (map frame ms) @ rest \<and>
    (rest = [] \<or> pl_writeLocked s \<and> (\<exists>t f m p. pl_threads s ! t = SendBody f m # p \<and>
       rest = encode_header (header m)))"
proof -
  note inv = reached_inv [OF assms(1,2)]
  from reached_wire [OF assms] obtain ms where ms: "\<forall>m \<in> set ms. wf_message m"
    "w_out (pl_world s) (mg_writeFd g) =
      w_out w (mg_writeFd g) @ concat (map frame ms) @ concat (map pending (pl_threads s))"
    using reached_config [OF assms(1,2)] by (auto simp: wire_inv_def Let_def)
  show ?thesis
  proof (cases "\<exists>t < length (pl_threads s). pending (pl_threads s ! t) \<noteq> []")
    case False
    then have "concat (map pending (pl_threads s)) = []" by (auto simp: in_set_conv_nth)
    with ms show ?thesis by auto
  next
    case True
    then obtain t f m p where t: "t < length (pl_threads s)" "pl_threads s ! t = SendBody f m # p"
      using pending_nonempty by blast
    have "pending (pl_threads s ! u) = []" if "u < length (pl_threads s)" "u \<noteq> t" for u
      using exclusive(2) [OF inv t that(1)] that(2) pending_nonempty [of "pl_threads s ! u"] by fastforce
    from concat_map_single(1) [OF t(1), of pending, OF this] t(2)
    have "concat (map pending (pl_threads s)) = encode_header (header m)" by simp
    moreover have "pl_writeLocked s" using about_to(2) [OF inv t] by simp
    ultimately show ?thesis using ms t(2) by blast
  qed
qed


lemma run_schedule_reached: "run_schedule B ts s = Ret s' \<Longrightarrow> reached B g w s \<Longrightarrow> reached B g w s'"
proof (induction ts arbitrary: s)
  case (Cons t ts)
  then obtain s1 where "step_thread B t s = Ret s1" "run_schedule B ts s1 = Ret s'"
    by (auto simp: outcome_simps)
  with Cons show ?case by (blast intro: reached.step interleaved.run)
qed simp

text \<open>The threads of some calls.\<close>

definition threads_of :: "'b manager \<Rightarrow> 'z world_scheme \<Rightarrow> call list \<Rightarrow> ('b, 'z) pool" where
  "threads_of g w cs = (pool_start g w)\<lparr>pl_threads := map code cs\<rparr>"

lemma threads_reached: "\<forall>c \<in> set cs. call_ok g c \<Longrightarrow> reached B g w (threads_of g w cs)"
proof (induction cs rule: rev_induct)
  case Nil
  then show ?case using reached.start [of B g w] by (simp add: threads_of_def pool_start_def)
next
  case (snoc c cs)
  then have "reached B g w (threads_of g w cs)" "call_ok (pl_manager (threads_of g w cs)) c"
    by (simp_all add: threads_of_def pool_start_def)
  from reached.step [OF this(1) interleaved.spawn [OF this(2)]] show ?case
    by (simp add: threads_of_def pool_start_def)
qed

lemma step_head:
  "t < length (pl_threads s) \<Longrightarrow> pl_threads s ! t = c # p \<Longrightarrow>
   step_thread B t s = bind_outcome (exec B c s) (\<lambda>(q, s'). Ret (s'\<lparr>pl_threads := (pl_threads s)[t := q @ p]\<rparr>))"
  by (simp add: step_thread_def)

text \<open>
  C13. The owner of a request lets go of it while the read loop handles the end message of the same
  channel: there is a schedule in which the owner's callback finds the slot full, the read loop
  then empties it, and the owner calls \<^verbatim>\<open>close\<close> through the null pointer it moves out.
\<close>

theorem close_race:
  assumes inv: "mg_inv g" and i: "unat i < max_channels g" and r: "mg_requestChannel g ! unat i = Some r"
    and w: "0 \<le> mg_writeFd g" "w_script w = []" "w_open w (mg_writeFd g)"
  shows "\<exists>ts s. run_schedule B ts (threads_of g w [CallClose r, CallEndOfRequest i]) = Ret s \<and>
    step_thread B 0 s = Undef"
proof -
  note sl = mg_inv_slot [OF inv i, of RemoveRequest r, simplified, OF r]
  have fd: "ch_writeFd (mg_channels g ! r) = mg_writeFd g"
    using mg_inv_channel [OF inv sl(1)] by (simp add: channel_ok_def)
  have len: "unat i < length (mg_requestChannel g)" using inv i by (simp add: mg_inv_def)
  let ?ts = "[0, 0, 0, 0, 0, 0, 0, 0, 1, 1, 1]"
  obtain s where "run_schedule B ?ts (threads_of g w [CallClose r, CallEndOfRequest i]) = Ret s"
    "pl_threads s ! 0 = [MoveRequest i]" "mg_requestChannel (pl_manager s) ! unat i = None"
    "length (mg_requestChannel (pl_manager s)) = length (mg_requestChannel g)" "length (pl_threads s) = 2"
    using sl fd len r w
    by (simp add: threads_of_def pool_start_def step_thread_def deref_def slot_def os_send_no_fault Let_def
        sync_length_wf kMessageHeaderLength_def)
  with len show ?thesis
    by (intro exI [of _ ?ts] exI [of _ s]) (simp add: step_thread_def slot_def)
qed

text \<open>
  A late end message during \<^verbatim>\<open>createRequestChannel\<close>: the new channel is stored, the read loop
  closes it and returns its id, another thread gets the same id, and then the first thread reads
  the slot again to return its pointer: both callers are given the same channel.
\<close>

theorem two_callers_one_channel:
  assumes inv: "mg_inv g" and free: "mg_freeList g = i # is"
    and w: "0 \<le> mg_writeFd g" "w_script w = []" "w_open w (mg_writeFd g)"
  shows "\<exists>ts s r. run_schedule B ts (threads_of g w [CallCreate, CallEndOfRequest i, CallCreate]) = Ret s \<and>
    pl_results s = [Some r, Some r] \<and> pl_threads s = [[], [], []]"
proof -
  have i: "unat i < length (mg_requestChannel g)"
    using mg_inv_free [OF inv, of i] free inv by (simp add: mg_inv_def)
  have sem: "mg_semaphore g = Suc (length is)" using inv free by (simp add: mg_inv_def)
  let ?ts = "replicate 6 0 @ replicate 15 1 @ replicate 7 2 @ [0 :: nat]"
  show ?thesis
    using i sem free w
    by (intro exI [of _ ?ts])
      (simp add: threads_of_def pool_start_def step_thread_def deref_def slot_def os_send_no_fault Let_def
        sync_length_wf kMessageHeaderLength_def InternalChannel_new_def nth_append numeral_eq_Suc)
qed

text \<open>
  C12. Between the steps of other threads there is nothing else: uninterrupted, \<^verbatim>\<open>close\<close> cut into its
  instructions does to the manager and the connection what \<open>InternalChannel_close\<close> does at once,
  whatever the kernel answers, and leaves the locks free.
\<close>

theorem close_refines:
  assumes "InternalChannel_close B r (pl_manager s) (pl_world s) = Ret (g', w')"
    and "t < length (pl_threads s)" "\<not> pl_freeLocked s" "\<not> pl_writeLocked s"
    and "pl_threads s ! t = CloseChannel r # p"
  shows "alone B t s (s\<lparr>pl_manager := g', pl_world := w', pl_threads := (pl_threads s)[t := p]\<rparr>)"
  using close_alone(1) [OF assms(2-4,1), of p] at_same [OF assms(5)] by (simp add: at_def)

lemma alone_schedule: "run_schedule B (replicate n t) s = Ret s' \<Longrightarrow> alone B t s s'"
  by (induction n arbitrary: s) (auto simp: outcome_simps intro: alone.intros)

text \<open>The same for \<^verbatim>\<open>createRequestChannel\<close>, whose pointer is the one it returns.\<close>

theorem create_refines:
  assumes "createRequestChannel B (pl_manager s) = Ret ((st, q), g')"
    and t: "t < length (pl_threads s)" and free: "\<not> pl_freeLocked s"
    and code: "pl_threads s ! t = code CallCreate @ p"
  shows "alone B t s (s\<lparr>pl_manager := g', pl_results := pl_results s @ [q], pl_threads := (pl_threads s)[t := p]\<rparr>)"
proof -
  obtain i "is" where sem: "mg_semaphore (pl_manager s) \<noteq> 0" and list: "mg_freeList (pl_manager s) = i # is"
    and len: "unat i < length (mg_requestChannel (pl_manager s))"
    using assms(1) by (auto simp: createRequestChannel_def Let_def outcome_simps slot_eq_Ret split: if_splits list.splits)
  have "run_schedule B (replicate 7 t) s =
      Ret (s\<lparr>pl_manager := g', pl_results := pl_results s @ [q], pl_threads := (pl_threads s)[t := p]\<rparr>)"
    using assms(1) t free code sem list len
    by (cases s) (auto simp: step_thread_def createRequestChannel_def slot_def Let_def numeral_eq_Suc)
  then show ?thesis by (rule alone_schedule)
qed

section \<open>Witnesses\<close>

text \<open>The owner of an open channel and the read loop, on a connection without faults.\<close>

definition racing :: "(message list option, unit) pool" where
  "racing = threads_of (sample_opened RemoveRequest) sample_world [CallClose 0, CallEndOfRequest 1]"

lemma racing_reached: "reached list_buffer (sample_opened RemoveRequest) sample_world racing"
  unfolding racing_def by (rule threads_reached) simp

lemma racing_simps [simp]:
  "pl_manager racing = sample_opened RemoveRequest" "pl_world racing = sample_world"
  "pl_threads racing = [[CloseChannel 0], [TestRequest 1]]" "\<not> pl_freeLocked racing" "\<not> pl_writeLocked racing"
  by (simp_all add: racing_def threads_of_def pool_start_def)


text \<open>The owner has written the header of its end message and not yet the body.\<close>

theorem writes_are_whole_witness:
  "\<exists>s (m :: message). run_schedule list_buffer [0, 0, 0, 0] racing = Ret s \<and>
     w_out (pl_world s) 4 = encode_header (header m) \<and> pl_writeLocked s"
proof -
  obtain s where run: "run_schedule list_buffer [0, 0, 0, 0] racing = Ret s"
    and out: "length (w_out (pl_world s) 4) = 8"
    by (simp add: step_thread_def deref_def os_send_no_fault InternalChannel_new_def Let_def
        kMessageHeaderLength_def)
  from run_schedule_reached [OF run racing_reached]
  have r: "reached list_buffer (sample_opened RemoveRequest) sample_world s" .
  have "\<exists>ms rest. (\<forall>m \<in> set ms. wf_message m) \<and> w_out (pl_world s) 4 = concat (map frame ms) @ rest \<and>
      (rest = [] \<or> pl_writeLocked s \<and> (\<exists>t f m p. pl_threads s ! t = SendBody f m # p \<and>
       rest = encode_header (header m)))"
    using writes_are_whole [OF r] by simp
  then obtain ms rest where ms: "\<forall>m \<in> set ms. wf_message m" "w_out (pl_world s) 4 = concat (map frame ms) @ rest"
    and rest: "rest = [] \<or> (\<exists>t f m p. pl_threads s ! t = SendBody f m # p \<and>
       rest = encode_header (header m))" by blast
  have "pl_writeLocked s"
    using run by (auto simp: step_thread_def deref_def os_send_no_fault InternalChannel_new_def Let_def
        kMessageHeaderLength_def)
  moreover have "\<exists>m :: message. w_out (pl_world s) 4 = encode_header (header m)"
  proof (cases ms)
    case Nil
    with ms(2) have "w_out (pl_world s) 4 = rest" by simp
    moreover from this out have "rest \<noteq> []" by auto
    ultimately show ?thesis using rest by blast
  next
    case (Cons m ms')
    then have "w_out (pl_world s) 4 = encode_header (header m) @ (data m @ concat (map frame ms') @ rest)"
      using ms(2) by (simp add: frame_def)
    moreover from this out have "length (data m @ concat (map frame ms') @ rest) = 0" by simp
    ultimately show ?thesis by (metis append_Nil2 length_0_conv)
  qed
  ultimately show ?thesis using run by blast
qed


theorem close_race_witness:
  "\<exists>ts s. run_schedule list_buffer ts racing = Ret s \<and> step_thread list_buffer 0 s = Undef"
  unfolding racing_def
  using close_race [of "sample_opened RemoveRequest" 1 0 sample_world list_buffer] by simp

theorem two_callers_one_channel_witness:
  "\<exists>ts s r. run_schedule list_buffer ts
      (threads_of sample_manager sample_world [CallCreate, CallEndOfRequest 1, CallCreate]) = Ret s \<and>
    pl_results s = [Some r, Some r]"
  using two_callers_one_channel [of sample_manager 1 "[0]" sample_world list_buffer] by auto

theorem close_refines_witness:
  "\<exists>g' w'. alone list_buffer 0 racing (racing\<lparr>pl_manager := g', pl_world := w',
       pl_threads := [[], [TestRequest 1]]\<rparr>)"
proof -
  obtain g' w' where "InternalChannel_close list_buffer 0 (sample_opened RemoveRequest) sample_world = Ret (g', w')"
    using close_open [OF sample_opened_inv, of 0 RemoveRequest list_buffer sample_world]
    by (simp add: InternalChannel_new_def)
  with close_refines [of list_buffer 0 racing g' w' 0 "[]"] show ?thesis by auto
qed

theorem create_refines_witness:
  "\<exists>g'. alone list_buffer 0 (threads_of sample_manager sample_world [CallCreate])
     ((threads_of sample_manager sample_world [CallCreate])
        \<lparr>pl_manager := g', pl_results := [Some 0], pl_threads := [[]]\<rparr>)"
proof -
  have "createRequestChannel list_buffer sample_manager =
      Ret ((OkStatus, Some 0), opened list_buffer RemoveRequest 1 sample_manager)"
    by (simp add: createRequestChannel_eq)
  with create_refines [of list_buffer "threads_of sample_manager sample_world [CallCreate]"
      OkStatus "Some 0" "opened list_buffer RemoveRequest 1 sample_manager" 0 "[]"]
  show ?thesis by (auto simp: threads_of_def pool_start_def)
qed

end
