(* ===== verification/ConnectorThreads.thy ===== *)
theory ConnectorThreads
  imports Connector Threads
begin

text \<open>
  Threads on one connector. \<open>Connector\<close> treats each operation as one step; here
  \<^verbatim>\<open>addClient\<close>, \<^verbatim>\<open>sendRequest\<close>, \<^verbatim>\<open>runClient\<close> and the end of a read loop are cut at every lock and
  unlock of \<^verbatim>\<open>clientsMutex\<close> and at every use of the map \<^verbatim>\<open>clients\<close> without it. A critical section
  on the map is one instruction.

  The map is an \<^verbatim>\<open>absl::flat_hash_map\<close>: an iterator is good until its entry is erased or an
  insertion makes the table grow. An iterator is the generation of the table, the address and the
  position of the entry; whether an insertion makes the table grow is a parameter (\<open>grows\<close>). A turn
  of a read loop that is not its last one touches the manager of its client only and is one step.
\<close>

section \<open>Instructions\<close>

datatype cinstr =
    LockClients | UnlockClients
  | EmplaceClient client
  | FindForRun u32 | UseForRun nat u32 nat
  | FindForRequest u32 | UseForRequest nat u32 nat | CreateChannel nat
  | ReadLoop u32 nat | EraseClient u32 nat | DropManager nat

text \<open>
  \<open>cp_destroyed\<close> are the clients whose manager is gone: the map and the read loop own it. The
  answers of \<^verbatim>\<open>sendRequest\<close> and the statuses of \<^verbatim>\<open>addClient\<close> are collected.
\<close>

record ('b, 'h) cpool =
  cp_connector :: "('b, 'h) connector"
  cp_generation :: nat
  cp_locked :: bool
  cp_destroyed :: "nat list"
  cp_answers :: "(status \<times> (nat \<times> internal_request) option) list"
  cp_statuses :: "status list"
  cp_threads :: "cinstr list list"

abbreviation cp_clients :: "('b, 'h) cpool \<Rightarrow> u32 \<Rightarrow> nat option" where
  "cp_clients s \<equiv> cn_clients (cp_connector s)"

definition iterator_valid :: "nat \<Rightarrow> u32 \<Rightarrow> nat \<Rightarrow> ('b, 'h) cpool \<Rightarrow> bool" where
  "iterator_valid n a k s \<longleftrightarrow> n = cp_generation s \<and> cp_clients s a = Some k"

primrec cexec ::
    "'b message_buffer \<Rightarrow> ((u32 \<Rightarrow> nat option) \<Rightarrow> bool) \<Rightarrow> cinstr \<Rightarrow> ('b, 'h) cpool \<Rightarrow>
     (cinstr list \<times> cinstr list list \<times> ('b, 'h) cpool) outcome" where
  "cexec B grows LockClients s = (if cp_locked s then Block else Ret ([], [], s\<lparr>cp_locked := True\<rparr>))"
| "cexec B grows UnlockClients s = Ret ([], [], s\<lparr>cp_locked := False\<rparr>)"
| "cexec B grows (EmplaceClient c) s =
     (let cn = cp_connector s; address = getClientInAddr c in
      if cn_clients cn address \<noteq> None
      then Ret ([UnlockClients], [], s\<lparr>cp_statuses := cp_statuses s @ [AlreadyExistsError ''Client already exists'']\<rparr>)
      else Ret ([UnlockClients, LockClients, FindForRun address], [],
        s\<lparr>cp_connector := cn\<lparr>cn_clients := (cn_clients cn)(address \<mapsto> length (cn_objects cn)),
             cn_objects := cn_objects cn @ [\<lparr>ic_client = c,
               ic_channelManager = InternalChannelManager_new connector_config (cl_clientFd c)\<rparr>]\<rparr>,
          cp_generation := (if grows (cn_clients cn) then cp_generation s + 1 else cp_generation s)\<rparr>))"
| "cexec B grows (FindForRun a) s =
     (case cp_clients s a of
        None \<Rightarrow> Ret ([UnlockClients], [],
          s\<lparr>cp_statuses := cp_statuses s @ [NotFoundError ''Client does not exist'']\<rparr>)
      | Some k \<Rightarrow> Ret ([UnlockClients, UseForRun (cp_generation s) a k], [], s))"
| "cexec B grows (UseForRun n a k) s =
     (if iterator_valid n a k s
      then Ret ([], [[ReadLoop a k]], s\<lparr>cp_statuses := cp_statuses s @ [OkStatus]\<rparr>) else Undef)"
| "cexec B grows (FindForRequest a) s =
     (case cp_clients s a of
        None \<Rightarrow> Ret ([UnlockClients], [],
          s\<lparr>cp_answers := cp_answers s @ [(NotFoundError ''Client does not exist'', None)]\<rparr>)
      | Some k \<Rightarrow> Ret ([UnlockClients, UseForRequest (cp_generation s) a k], [], s))"
| "cexec B grows (UseForRequest n a k) s =
     (if iterator_valid n a k s then Ret ([CreateChannel k], [], s) else Undef)"
| "cexec B grows (CreateChannel k) s =
     (if k \<in> set (cp_destroyed s) then Undef
      else bind_outcome (createRequestChannel B (manager_of k (cp_connector s))) (\<lambda>((st, channel), g).
        let s = s\<lparr>cp_connector := put_manager k g (cp_connector s)\<rparr> in
        if \<not> status_ok st then Ret ([], [], s\<lparr>cp_answers := cp_answers s @ [(st, None)]\<rparr>)
        else case channel of
               None \<Rightarrow> Undef
             | Some r \<Rightarrow> Ret ([], [],
                 s\<lparr>cp_answers := cp_answers s @ [(OkStatus, Some (k, InternalRequest_of_channel r))]\<rparr>)))"
| "cexec B grows (ReadLoop a k) s =
     Ret ([LockClients, EraseClient a k], [], s)"
| "cexec B grows (EraseClient a k) s =
     (let cn = cp_connector s in Ret ([UnlockClients, DropManager k], [],
        s\<lparr>cp_connector := cn\<lparr>cn_clients := (cn_clients cn)(a := None)\<rparr>\<rparr>))"
| "cexec B grows (DropManager k) s = Ret ([], [], s\<lparr>cp_destroyed := k # cp_destroyed s\<rparr>)"

definition cstep ::
    "'b message_buffer \<Rightarrow> ((u32 \<Rightarrow> nat option) \<Rightarrow> bool) \<Rightarrow> nat \<Rightarrow> ('b, 'h) cpool \<Rightarrow> ('b, 'h) cpool outcome" where
  "cstep B grows t s =
     (if t < length (cp_threads s)
      then case cp_threads s ! t of
             [] \<Rightarrow> Block
           | c # p \<Rightarrow> bind_outcome (cexec B grows c s) (\<lambda>(q, new, s').
               Ret (s'\<lparr>cp_threads := (cp_threads s)[t := q @ p] @ new\<rparr>))
      else Block)"

text \<open>
  The calls from outside; the socket of a client to add is open. A read loop receives any message,
  and the kernel may do anything to what forwarding it writes.
\<close>

datatype ccall = CallAddClient client | CallSendRequest u32

primrec ccode :: "ccall \<Rightarrow> cinstr list" where
  "ccode (CallAddClient c) = [LockClients, EmplaceClient c]"
| "ccode (CallSendRequest a) = [LockClients, FindForRequest a]"

inductive cinterleaved ::
    "'b message_buffer \<Rightarrow> ((u32 \<Rightarrow> nat option) \<Rightarrow> bool) \<Rightarrow> ('b, 'h) cpool \<Rightarrow> ('b, 'h) cpool \<Rightarrow> bool"
  for B :: "'b message_buffer" and grows :: "(u32 \<Rightarrow> nat option) \<Rightarrow> bool" where
  call: "cinterleaved B grows s (s\<lparr>cp_threads := cp_threads s @ [ccode c]\<rparr>)"
| message: "t < length (cp_threads s) \<Longrightarrow> cp_threads s ! t = ReadLoop a k # p \<Longrightarrow>
    forwardMessage B m (manager_of k (cp_connector s)) (w :: unit world_scheme) = Ret (res, g, w') \<Longrightarrow>
    cinterleaved B grows s (s\<lparr>cp_connector := put_manager k g (cp_connector s)\<rparr>)"
| run: "cstep B grows t s = Ret s' \<Longrightarrow> cinterleaved B grows s s'"

definition cpool_start :: "'h \<Rightarrow> ('b, 'h) cpool" where
  "cpool_start handler =
     \<lparr>cp_connector = Connector_new handler, cp_generation = 0, cp_locked = False, cp_destroyed = [],
      cp_answers = [], cp_statuses = [], cp_threads = []\<rparr>"

inductive creached :: "'b message_buffer \<Rightarrow> ((u32 \<Rightarrow> nat option) \<Rightarrow> bool) \<Rightarrow> 'h \<Rightarrow> ('b, 'h) cpool \<Rightarrow> bool"
  for B :: "'b message_buffer" and grows :: "(u32 \<Rightarrow> nat option) \<Rightarrow> bool" and handler :: 'h where
  start: "creached B grows handler (cpool_start handler)"
| step: "creached B grows handler s \<Longrightarrow> cinterleaved B grows s s' \<Longrightarrow> creached B grows handler s'"

text \<open>A schedule, for running examples: calls and steps of threads.\<close>

primrec crun ::
    "'b message_buffer \<Rightarrow> ((u32 \<Rightarrow> nat option) \<Rightarrow> bool) \<Rightarrow> (ccall + nat) list \<Rightarrow> ('b, 'h) cpool \<Rightarrow>
     ('b, 'h) cpool outcome" where
  "crun B grows [] s = Ret s"
| "crun B grows (x # xs) s =
     (case x of
        Inl c \<Rightarrow> crun B grows xs (s\<lparr>cp_threads := cp_threads s @ [ccode c]\<rparr>)
      | Inr t \<Rightarrow> bind_outcome (cstep B grows t s) (crun B grows xs))"

section \<open>The mutex of the map\<close>

fun clientsW :: "cinstr \<Rightarrow> int" where
  "clientsW LockClients = - 1"
| "clientsW UnlockClients = 1"
| "clientsW (EmplaceClient c) = 1"
| "clientsW (FindForRun a) = 1"
| "clientsW (FindForRequest a) = 1"
| "clientsW (EraseClient a k) = 1"
| "clientsW _ = 0"

text \<open>The instructions that the holder of \<^verbatim>\<open>clientsMutex\<close> executes.\<close>

fun in_clients :: "cinstr \<Rightarrow> bool" where
  "in_clients UnlockClients = True"
| "in_clients (EmplaceClient c) = True"
| "in_clients (FindForRun a) = True"
| "in_clients (FindForRequest a) = True"
| "in_clients (EraseClient a k) = True"
| "in_clients _ = False"

lemma CreateChannel_Ret:
  assumes "cexec B grows (CreateChannel k) s = Ret (q, new, s')"
  obtains res g answer where "q = []" "new = []" "createRequestChannel B (manager_of k (cp_connector s)) = Ret (res, g)"
    "s' = s\<lparr>cp_connector := put_manager k g (cp_connector s), cp_answers := cp_answers s @ [answer]\<rparr>"
  using assms by (fastforce simp: Let_def outcome_simps split: if_splits option.splits)

interpretation clients_mutex: mutex "\<lambda>c s q new s'. cexec B grows c s = Ret (q, new, s')"
  clientsW in_clients cp_locked
proof (unfold_locales, goal_cases account well_formed started)
  case (account c s q new s')
  then show ?case
    by (induct c; force simp: Let_def outcome_simps split: option.splits prod.splits if_splits)
next
  case (well_formed c s q new s' p)
  then show ?case
    by (induct c; force simp: Let_def outcome_simps split: option.splits prod.splits if_splits)
next
  case (started c s q new s' p)
  then show ?case
    by (induct c; force simp: Let_def outcome_simps split: option.splits prod.splits if_splits)
qed

section \<open>The entries of the map\<close>

text \<open>
  The code that will end in the erasure of an entry owns the entry: the caller of \<^verbatim>\<open>addClient\<close> until
  it has started the read loop, and then the read loop.
\<close>

fun entryW :: "u32 \<Rightarrow> cinstr \<Rightarrow> int" where
  "entryW a (FindForRun b) = of_bool (a = b)"
| "entryW a (UseForRun n b k) = of_bool (a = b)"
| "entryW a (ReadLoop b k) = of_bool (a = b)"
| "entryW a (EraseClient b k) = of_bool (a = b)"
| "entryW a _ = 0"

lemma entryW_nonneg [simp]: "0 \<le> entryW a c"
  by (cases c) simp_all

lemma entryW_net_nonneg [simp]: "0 \<le> net (entryW a) p"
  by (induction p) simp_all

lemma entryW_in_net: "c \<in> set p \<Longrightarrow> entryW a c \<le> net (entryW a) p"
  using entryW_net_nonneg [of a] by (induction p) (auto simp: add_increasing2 intro: order_trans)

fun cinstr_ok :: "('b, 'h) cpool \<Rightarrow> cinstr \<Rightarrow> bool" where
  "cinstr_ok s (UseForRun n a k) \<longleftrightarrow> cp_clients s a = Some k \<and> n \<le> cp_generation s"
| "cinstr_ok s (ReadLoop a k) \<longleftrightarrow> cp_clients s a = Some k"
| "cinstr_ok s (EraseClient a k) \<longleftrightarrow> cp_clients s a = Some k"
| "cinstr_ok s (UseForRequest n a k) \<longleftrightarrow> k < length (cn_objects (cp_connector s)) \<and> n \<le> cp_generation s"
| "cinstr_ok s (CreateChannel k) \<longleftrightarrow> k < length (cn_objects (cp_connector s))"
| "cinstr_ok s (DropManager k) \<longleftrightarrow> k < length (cn_objects (cp_connector s)) \<and> (\<forall>a. cp_clients s a \<noteq> Some k)"
| "cinstr_ok s _ \<longleftrightarrow> True"

text \<open>An entry leads to a client of its own, whose manager is in good order and not destroyed.\<close>

definition entries_ok :: "('b, 'h) connector \<Rightarrow> nat list \<Rightarrow> bool" where
  "entries_ok cn ds \<longleftrightarrow>
     (\<forall>a k. cn_clients cn a = Some k \<longrightarrow> k < length (cn_objects cn) \<and> k \<notin> set ds) \<and>
     (\<forall>a b k. cn_clients cn a = Some k \<longrightarrow> cn_clients cn b = Some k \<longrightarrow> a = b) \<and>
     (\<forall>k \<in> set ds. k < length (cn_objects cn)) \<and>
     (\<forall>x \<in> set (cn_objects cn). mg_inv (ic_channelManager x))"

lemma entries_put:
  assumes "entries_ok cn ds" "mg_inv g"
  shows "entries_ok (put_manager k g cn) ds"
proof -
  have "mg_inv (ic_channelManager x)" if "x \<in> set (cn_objects (put_manager k g cn))" for x
    using assms that set_update_subset_insert [of "cn_objects cn" k "(cn_objects cn ! k)\<lparr>ic_channelManager := g\<rparr>"]
    by (auto simp: entries_ok_def put_manager_def)
  with assms(1) show ?thesis by (simp add: entries_ok_def)
qed

lemma entries_add:
  "entries_ok cn ds \<Longrightarrow> mg_inv (ic_channelManager x) \<Longrightarrow>
   entries_ok (cn\<lparr>cn_clients := (cn_clients cn)(a \<mapsto> length (cn_objects cn)), cn_objects := cn_objects cn @ [x]\<rparr>) ds"
  by (auto simp: entries_ok_def less_Suc_eq)

lemma entries_erase: "entries_ok cn ds \<Longrightarrow> entries_ok (cn\<lparr>cn_clients := (cn_clients cn)(a := None)\<rparr>) ds"
  by (auto simp: entries_ok_def)

lemma entries_drop:
  "entries_ok cn ds \<Longrightarrow> k < length (cn_objects cn) \<Longrightarrow> \<forall>a. cn_clients cn a \<noteq> Some k \<Longrightarrow> entries_ok cn (k # ds)"
  by (auto simp: entries_ok_def)

lemma entries_manager: "entries_ok cn ds \<Longrightarrow> k < length (cn_objects cn) \<Longrightarrow> mg_inv (manager_of k cn)"
  by (simp add: entries_ok_def)

lemma entries_found:
  assumes "entries_ok cn ds" "cn_clients cn a = Some k"
  shows "k < length (cn_objects cn)" "k \<notin> set ds" "\<forall>b. (if b = a then None else cn_clients cn b) \<noteq> Some k"
  using assms unfolding entries_ok_def by (blast, blast, auto)

definition cpool_inv :: "('b, 'h) cpool \<Rightarrow> bool" where
  "cpool_inv s \<longleftrightarrow>
     accounted clientsW in_clients (cp_locked s) (cp_threads s) \<and> entries_ok (cp_connector s) (cp_destroyed s) \<and>
     (\<forall>a. balance (entryW a) (cp_threads s) = of_bool (cp_clients s a \<noteq> None)) \<and>
     (\<forall>p \<in> set (cp_threads s). \<forall>c \<in> set p. cinstr_ok s c)"

lemma cexec_entries:
  assumes "cexec B grows c s = Ret (q, new, s')" "cinstr_ok s c" "\<And>b. c = FindForRun b \<Longrightarrow> cp_clients s b \<noteq> None"
  shows "(of_bool (cp_clients s' a \<noteq> None) :: int) =
    of_bool (cp_clients s a \<noteq> None) - entryW a c + net (entryW a) q + balance (entryW a) new"
  using assms
  by (induct c; force simp: Let_def outcome_simps put_manager_def split: option.splits prod.splits if_splits)

lemma cexec_keeps_entries:
  assumes "cexec B grows c s = Ret (q, new, s')" "cinstr_ok s c" "entries_ok (cp_connector s) (cp_destroyed s)"
  shows "entries_ok (cp_connector s') (cp_destroyed s')"
proof (cases c)
  case (CreateChannel k)
  from assms(1) obtain res g answer where create: "createRequestChannel B (manager_of k (cp_connector s)) = Ret (res, g)"
    and s': "s' = s\<lparr>cp_connector := put_manager k g (cp_connector s), cp_answers := cp_answers s @ [answer]\<rparr>"
    unfolding CreateChannel by (rule CreateChannel_Ret)
  have "mg_inv (manager_of k (cp_connector s))" using entries_manager [OF assms(3)] assms(2) CreateChannel by simp
  from create_inv [OF this create] entries_put [OF assms(3)] show ?thesis by (simp add: s')
next
  case (EmplaceClient d)
  with assms show ?thesis by (auto simp: Let_def new_inv intro!: entries_add split: if_splits)
next
  case (DropManager k)
  with assms show ?thesis by (auto intro: entries_drop)
qed (use assms in \<open>auto simp: Let_def intro: entries_erase split: option.splits if_splits\<close>)

lemma cexec_keeps:
  assumes "cexec B grows c s = Ret (q, new, s')" "cinstr_ok s c" "entries_ok (cp_connector s) (cp_destroyed s)"
  shows "(\<forall>d \<in> set q. cinstr_ok s' d) \<and> (\<forall>p \<in> set new. \<forall>d \<in> set p. cinstr_ok s' d)"
proof (cases c)
  case (CreateChannel k)
  with assms(1) show ?thesis by (auto elim: CreateChannel_Ret simp del: cexec.simps)
next
  case (FindForRequest a)
  with assms(1) entries_found(1) [OF assms(3), of a] show ?thesis by (auto split: option.splits)
next
  case (EraseClient a k)
  with assms(1,2) entries_found(1,3) [OF assms(3), of a k] show ?thesis by (auto simp: Let_def)
next
  case (EmplaceClient d)
  with assms(1) show ?thesis by (auto simp: Let_def split: if_splits)
qed (use assms in \<open>auto simp: iterator_valid_def split: option.splits if_splits\<close>)

lemma cexec_map:
  assumes "cexec B grows c s = Ret (q, new, s')"
  shows "cp_generation s \<le> cp_generation s'" "length (cn_objects (cp_connector s)) \<le> length (cn_objects (cp_connector s'))"
    and "cp_clients s' = cp_clients s \<or> (\<exists>a k. c = EraseClient a k \<and> cp_clients s' = (cp_clients s)(a := None)) \<or>
      (\<exists>a. cp_clients s a = None \<and> cp_clients s' = (cp_clients s)(a \<mapsto> length (cn_objects (cp_connector s))))"
  using assms by (cases c; auto simp: Let_def simp del: cexec.simps(8) elim!: CreateChannel_Ret split: option.splits if_splits)+

lemma cexec_others:
  assumes run: "cexec B grows c s = Ret (q, new, s')" and d: "cinstr_ok s d"
    and erase: "\<And>a k. c = EraseClient a k \<Longrightarrow> entryW a d = 0"
  shows "cinstr_ok s' d"
  using cexec_map(3) [OF run]
proof (elim disjE exE conjE)
  assume "cp_clients s' = cp_clients s"
  with cexec_map(1,2) [OF run] d show ?thesis by (cases d) auto
next
  fix a k assume "c = EraseClient a k" "cp_clients s' = (cp_clients s)(a := None)"
  with cexec_map(1,2) [OF run] d erase [of a k] show ?thesis by (cases d) auto
next
  fix a assume "cp_clients s a = None" "cp_clients s' = (cp_clients s)(a \<mapsto> length (cn_objects (cp_connector s)))"
  with cexec_map(1,2) [OF run] d show ?thesis by (cases d) auto
qed

lemma cpool_invD:
  assumes "cpool_inv s"
  shows "accounted clientsW in_clients (cp_locked s) (cp_threads s)"
    and "entries_ok (cp_connector s) (cp_destroyed s)"
    and "balance (entryW a) (cp_threads s) = of_bool (cp_clients s a \<noteq> None)"
    and "t < length (cp_threads s) \<Longrightarrow> c \<in> set (cp_threads s ! t) \<Longrightarrow> cinstr_ok s c"
  using assms nth_mem by (auto simp: cpool_inv_def)

lemma owns_entry:
  assumes inv: "cpool_inv s" and c: "t < length (cp_threads s)" "c \<in> set (cp_threads s ! t)" "0 < entryW a c"
  shows "cp_clients s a \<noteq> None"
proof -
  have "0 < balance (entryW a) (cp_threads s)"
    using balance_without [OF c(1), of "entryW a"] entryW_in_net [OF c(2), of a] c(3) by simp
  then show ?thesis by (simp add: cpool_invD(3) [OF inv] split: if_splits)
qed

lemma owns_alone:
  assumes inv: "cpool_inv s" and c: "t < length (cp_threads s)" "c \<in> set (cp_threads s ! t)" "0 < entryW a c"
    and d: "u < length (cp_threads s)" "d \<in> set (cp_threads s ! u)" "0 < entryW a d"
  shows "u = t"
proof (rule ccontr)
  assume "u \<noteq> t"
  then have "1 < balance (entryW a) (cp_threads s)"
    using balance_two [OF c(1) d(1), of "entryW a"] entryW_in_net [OF c(2), of a] entryW_in_net [OF d(2), of a]
      c(3) d(3) by simp
  then show False by (cases "cp_clients s a") (simp_all add: cpool_invD(3) [OF inv])
qed

lemma owns_once:
  assumes inv: "cpool_inv s" and t: "t < length (cp_threads s)" "cp_threads s ! t = c # p" "0 < entryW a c"
    and d: "d \<in> set p"
  shows "entryW a d = 0"
proof -
  have "net (entryW a) (c # p) \<le> 1"
    using balance_without [OF t(1), of "entryW a"] cpool_invD(3) [OF inv, of a] t(2)
    by (cases "cp_clients s a") simp_all
  then show ?thesis
    using t(3) entryW_in_net [OF d, of a] entryW_nonneg [of a d] unfolding net_simps by linarith
qed

lemma cstep_inv:
  assumes inv: "cpool_inv s" and step: "cstep B grows t s = Ret s'"
  shows "cpool_inv s'"
proof -
  from step obtain c p q new s1 where t: "t < length (cp_threads s)" "cp_threads s ! t = c # p"
    and run: "cexec B grows c s = Ret (q, new, s1)"
    and s': "s' = s1\<lparr>cp_threads := (cp_threads s)[t := q @ p] @ new\<rparr>"
    by (auto simp: cstep_def outcome_simps split: if_splits list.splits)
  note ok = cpool_invD(4) [OF inv t(1)]
  have c: "c \<in> set (cp_threads s ! t)" "cinstr_ok s c" using ok t(2) by auto
  have find: "cp_clients s b \<noteq> None" if "c = FindForRun b" for b
    using owns_entry [OF inv t(1) c(1)] that by simp
  note keep = cexec_keeps_entries [OF run c(2) cpool_invD(2) [OF inv]] cexec_keeps [OF run c(2) cpool_invD(2) [OF inv]]
  have same: "cinstr_ok s' d = cinstr_ok s1 d" "cp_connector s' = cp_connector s1" "cp_destroyed s' = cp_destroyed s1" for d
    by (cases d; simp add: s')+
  have erase: "entryW a d = 0"
    if "c = EraseClient a k" "u < length (cp_threads s)" "d \<in> set (if u = t then p else cp_threads s ! u)" for a k u d
  proof (cases "u = t")
    case True
    with owns_once [OF inv t] that show ?thesis by simp
  next
    case False
    with owns_alone [OF inv t(1) c(1) _ that(2), of a d] that entryW_nonneg [of a d] show ?thesis
      by (cases "entryW a d = 0") auto
  qed
  have others: "cinstr_ok s1 d" if "u < length (cp_threads s)" "d \<in> set (if u = t then p else cp_threads s ! u)" for u d
    by (rule cexec_others [OF run]) (use that erase cpool_invD(4) [OF inv that(1)] t(2) in \<open>auto split: if_splits\<close>)
  have "cinstr_ok s' d" if d: "x \<in> set (cp_threads s')" "d \<in> set x" for x d
  proof -
    from d(1) consider "x \<in> set new" | u where "u < length (cp_threads s)" "x = (if u = t then q @ p else cp_threads s ! u)"
      using t(1) by (auto simp: s' in_set_conv_nth nth_list_update)
    then show ?thesis
    proof cases
      case 1
      with keep(2) d(2) show ?thesis by (simp add: same)
    next
      case 2
      with keep(2) d(2) others [OF 2(1), of d] show ?thesis by (auto simp: same split: if_splits)
    qed
  qed
  moreover have "balance (entryW a) (cp_threads s') = of_bool (cp_clients s' a \<noteq> None)" for a
    using cexec_entries [OF run c(2) find, of a] cpool_invD(3) [OF inv, of a] t
    by (simp add: s' balance_update)
  moreover have "accounted clientsW in_clients (cp_locked s') (cp_threads s')"
    using clients_mutex.step_accounted [OF cpool_invD(1) [OF inv] t run] by (simp add: s')
  ultimately show ?thesis using keep(1) same(2,3) by (simp add: cpool_inv_def)
qed

lemma ccode_ok:
  "lock_ok clientsW in_clients (ccode c)" "net clientsW (ccode c) = 0" "net (entryW a) (ccode c) = 0"
  "d \<in> set (ccode c) \<Longrightarrow> cinstr_ok s d"
  by (cases c; auto)+

lemma creached_inv: "creached B grows handler s \<Longrightarrow> cpool_inv s"
proof (induction rule: creached.induct)
  case start
  show ?case
    by (simp add: cpool_inv_def cpool_start_def accounted_def entries_ok_def Connector_new_def)
next
  case (step s s')
  from step.hyps(2) show ?case
  proof cases
    case (call c)
    have "cinstr_ok s' d = cinstr_ok s d" for d by (cases d) (simp_all add: call)
    with step.IH ccode_ok show ?thesis by (auto simp: call cpool_inv_def accounted_def)
  next
    case (message t a k p m w res g w')
    have "ReadLoop a k \<in> set (cp_threads s ! t)" using message by simp
    from cpool_invD(4) [OF step.IH message(2) this] have "cp_clients s a = Some k" by simp
    note k = entries_found(1) [OF cpool_invD(2) [OF step.IH] this]
    have "mg_inv g"
      using forward_inv [OF entries_manager [OF cpool_invD(2) [OF step.IH] k] message(4)] by simp
    moreover have "cinstr_ok s' d = cinstr_ok s d" for d by (cases d) (simp_all add: message)
    ultimately show ?thesis
      using step.IH entries_put [OF cpool_invD(2) [OF step.IH], of g k] by (auto simp: message cpool_inv_def)
  next
    case run
    then show ?thesis by (rule cstep_inv [OF step.IH])
  qed
qed

section \<open>One read loop for each client\<close>

definition owns :: "u32 \<Rightarrow> cinstr list \<Rightarrow> bool" where
  "owns a p \<longleftrightarrow> (\<exists>c \<in> set p. 0 < entryW a c)"

lemma owns_net: "0 < net (entryW a) p \<Longrightarrow> owns a p"
proof (induction p)
  case (Cons c p)
  then show ?case by (cases "0 < entryW a c") (auto simp: owns_def)
qed simp

text \<open>
  C14. In every state the threads can reach, each entry of the map has exactly one thread that will
  erase it, a thread that erases an entry erases its own, and only one thread at a time is in a
  critical section of \<^verbatim>\<open>clientsMutex\<close>.
\<close>

theorem one_read_loop:
  assumes "creached B grows handler s"
  shows "(\<forall>a. cp_clients s a \<noteq> None \<longrightarrow> (\<exists>!t. t < length (cp_threads s) \<and> owns a (cp_threads s ! t))) \<and>
    (\<forall>t < length (cp_threads s). \<forall>a k. EraseClient a k \<in> set (cp_threads s ! t) \<longrightarrow> cp_clients s a = Some k) \<and>
    (\<forall>t < length (cp_threads s). \<forall>u < length (cp_threads s). \<forall>c p d q.
       cp_threads s ! t = c # p \<longrightarrow> cp_threads s ! u = d # q \<longrightarrow> in_clients c \<longrightarrow> in_clients d \<longrightarrow> t = u \<and> cp_locked s)"
proof (intro conjI allI impI)
  note inv = creached_inv [OF assms]
  fix a assume "cp_clients s a \<noteq> None"
  then have "0 < balance (entryW a) (cp_threads s)" by (simp add: cpool_invD(3) [OF inv])
  from balance_pos [OF this] owns_net
  have ex: "\<exists>t < length (cp_threads s). owns a (cp_threads s ! t)" by blast
  then show "\<exists>!t. t < length (cp_threads s) \<and> owns a (cp_threads s ! t)"
    using owns_alone [OF inv] unfolding owns_def by blast
next
  note inv = creached_inv [OF assms]
  fix t a k assume "t < length (cp_threads s)" "EraseClient a k \<in> set (cp_threads s ! t)"
  from cpool_invD(4) [OF inv this] show "cp_clients s a = Some k" by simp
next
  note acc = cpool_invD(1) [OF creached_inv [OF assms]]
  fix t u c p d q
  assume "t < length (cp_threads s)" "u < length (cp_threads s)" "cp_threads s ! t = c # p"
    "cp_threads s ! u = d # q" "in_clients c" "in_clients d"
  with accounted_exclusive [OF acc] accounted_inside [OF acc] show "t = u" "cp_locked s" by blast+
qed

section \<open>What can go wrong\<close>

definition clients_stale :: "cinstr \<Rightarrow> ('b, 'h) cpool \<Rightarrow> bool" where
  "clients_stale c s \<longleftrightarrow>
     (case c of
        UseForRun n a k \<Rightarrow> n \<noteq> cp_generation s
      | UseForRequest n a k \<Rightarrow> n \<noteq> cp_generation s \<or> cp_clients s a \<noteq> Some k
      | CreateChannel k \<Rightarrow> k \<in> set (cp_destroyed s)
      | _ \<Rightarrow> False)"

definition clients_waits :: "cinstr \<Rightarrow> ('b, 'h) cpool \<Rightarrow> bool" where
  "clients_waits c s \<longleftrightarrow>
     (case c of
        LockClients \<Rightarrow> cp_locked s
      | CreateChannel k \<Rightarrow> mg_freeList (manager_of k (cp_connector s)) = []
      | _ \<Rightarrow> False)"


section \<open>A call that is not interrupted\<close>

definition uninterrupted :: "nat \<Rightarrow> nat \<Rightarrow> (ccall + nat) list" where
  "uninterrupted n t = replicate n (Inr t)"

lemma uninterrupted_simps [simp]:
  "uninterrupted 0 t = []" "uninterrupted (Suc n) t = Inr t # uninterrupted n t"
  by (simp_all add: uninterrupted_def)

lemma create_found:
  assumes "cp_clients s a = Some k" "k \<notin> set (cp_destroyed s)"
  shows "cexec B grows (CreateChannel k) s = bind_outcome (Connector_sendRequest B a (cp_connector s))
    (\<lambda>(answer, cn). Ret ([], [], s\<lparr>cp_connector := cn, cp_answers := cp_answers s @ [answer]\<rparr>))"
  using assms
  by (cases "createRequestChannel B (manager_of k (cp_connector s))")
    (auto simp: Connector_sendRequest_def Let_def split: option.split)

text \<open>Run alone, \<^verbatim>\<open>sendRequest\<close> cut into its instructions does what the sequential model does at once.\<close>

theorem sendRequest_refines:
  assumes reached: "creached B grows handler s" and free: "\<not> cp_locked s"
    and t: "t < length (cp_threads s)" "cp_threads s ! t = ccode (CallSendRequest a) @ p"
    and send: "Connector_sendRequest B a (cp_connector s) = Ret (answer, cn)"
  shows "crun B grows (uninterrupted (if cp_clients s a = None then 3 else 5) t) s =
    Ret (s\<lparr>cp_connector := cn, cp_answers := cp_answers s @ [answer], cp_threads := (cp_threads s)[t := p]\<rparr>)"
proof (cases "cp_clients s a")
  case None
  with send free t show ?thesis
    by (cases s) (auto simp: Connector_sendRequest_def cstep_def numeral_eq_Suc)
next
  case (Some k)
  have "k \<notin> set (cp_destroyed s)"
    using entries_found(2) [OF cpool_invD(2) [OF creached_inv [OF reached]] Some] .
  with create_found [of "s\<lparr>cp_locked := False, cp_threads := (cp_threads s)[t := CreateChannel k # p]\<rparr>" a k B grows]
    Some send free t show ?thesis
    by (cases s) (simp add: cstep_def iterator_valid_def numeral_eq_Suc del: cexec.simps(8))
qed

text \<open>
  Run alone, \<^verbatim>\<open>addClient\<close> after the opening of the socket does what the sequential model does, and
  starts the read loop of the client it added.
\<close>

theorem addClient_refines:
  assumes free: "\<not> cp_locked s"
    and t: "t < length (cp_threads s)" "cp_threads s ! t = ccode (CallAddClient c) @ p"
    and opened: "TcpClient_openSocket client w = Ret (OkStatus, c, w')"
    and add: "Connector_addClient client (cp_connector s) w = Ret (st, cn, w'')"
  shows "\<exists>n generation. crun B grows (uninterrupted n t) s =
    Ret (s\<lparr>cp_connector := cn, cp_generation := generation, cp_statuses := cp_statuses s @ [st],
        cp_threads := (cp_threads s)[t := p] @
          (if status_ok st then [[ReadLoop (getClientInAddr c) (length (cn_objects (cp_connector s)))]] else [])\<rparr>)"
proof (cases "cp_clients s (getClientInAddr c)")
  case None
  with add opened free t show ?thesis
    by (intro exI [of _ 7] exI [of _ "if grows (cp_clients s) then cp_generation s + 1 else cp_generation s"], cases s)
      (auto simp: Connector_addClient_def cstep_def iterator_valid_def Let_def numeral_eq_Suc)
next
  case (Some k)
  with add opened free t show ?thesis
    by (intro exI [of _ 3] exI [of _ "cp_generation s"], cases s)
      (auto simp: Connector_addClient_def cstep_def Let_def numeral_eq_Suc)
qed

section \<open>Races on the map\<close>

text \<open>Thread 0 adds a client, thread 1 is its read loop, thread 2 has looked it up for a request.\<close>

definition race_start :: "client \<Rightarrow> (ccall + nat) list" where
  "race_start c = Inl (CallAddClient c) # uninterrupted 7 0 @ Inl (CallSendRequest (getClientInAddr c)) # uninterrupted 3 2"

text \<open>
  C16. Schedules from a new connector that end in undefined behaviour: the read loop erases the entry
  before \<^verbatim>\<open>sendRequest\<close> uses its iterator, or destroys the manager after that; and, when the
  second insertion makes the table grow, another \<^verbatim>\<open>addClient\<close> between the look-up and the use in
  \<^verbatim>\<open>sendRequest\<close> or in \<^verbatim>\<open>runClient\<close>.
\<close>

theorem iterator_races:
  fixes handler :: 'h and B :: "'b message_buffer"
  assumes "getClientInAddr d \<noteq> getClientInAddr c"
  shows "crun B grows (race_start c @ uninterrupted 4 1 @ [Inr 2]) (cpool_start handler) = Undef \<and>
    crun B grows (race_start c @ Inr 2 # uninterrupted 5 1 @ [Inr 2]) (cpool_start handler) = Undef \<and>
    (grows [getClientInAddr c \<mapsto> 0] \<longrightarrow>
      crun B grows (race_start c @ Inl (CallAddClient d) # uninterrupted 2 3 @ [Inr 2]) (cpool_start handler) = Undef \<and>
      crun B grows (Inl (CallAddClient c) # uninterrupted 6 0 @ Inl (CallAddClient d) # uninterrupted 2 1 @ [Inr 0])
        (cpool_start handler) = Undef)"
  using assms
  by (simp add: race_start_def cpool_start_def Connector_new_def cstep_def iterator_valid_def Let_def numeral_eq_Suc)

section \<open>Witnesses\<close>

lemma crun_creached: "crun B grows xs s = Ret s' \<Longrightarrow> creached B grows handler s \<Longrightarrow> creached B grows handler s'"
proof (induction xs arbitrary: s)
  case (Cons x xs)
  show ?case
  proof (cases x)
    case (Inl c)
    with Cons.prems(1) show ?thesis by (auto intro: Cons.IH creached.step [OF Cons.prems(2)] cinterleaved.call)
  next
    case (Inr t)
    with Cons.prems(1) show ?thesis
      by (auto simp: outcome_simps intro: Cons.IH creached.step [OF Cons.prems(2)] cinterleaved.run)
  qed
qed simp

text \<open>A client with a read loop, and a call of \<^verbatim>\<open>sendRequest\<close> that has the iterator.\<close>

definition sample_pool :: "(message list option, string) cpool" where
  "sample_pool =
     \<lparr>cp_connector = \<lparr>cn_handlers = Map.empty, cn_defaultHandler = ''default'', cn_clients = [0 \<mapsto> 0],
        cn_objects = [\<lparr>ic_client = sample_client, ic_channelManager = InternalChannelManager_new connector_config 4\<rparr>]\<rparr>,
      cp_generation = 0, cp_locked = False, cp_destroyed = [], cp_answers = [], cp_statuses = [OkStatus],
      cp_threads = [[], [ReadLoop 0 0], [UseForRequest 0 0 0]]\<rparr>"

lemma sample_pool_reached: "creached list_buffer (\<lambda>_. False) ''default'' sample_pool"
proof -
  have "crun list_buffer (\<lambda>_. False) (race_start sample_client) (cpool_start ''default'') = Ret sample_pool"
    by (simp add: race_start_def cpool_start_def Connector_new_def cstep_def iterator_valid_def Let_def
        numeral_eq_Suc sample_pool_def)
  from crun_creached [OF this creached.start] show ?thesis .
qed

theorem one_read_loop_witness:
  "\<exists>!t. t < length (cp_threads sample_pool) \<and> owns 0 (cp_threads sample_pool ! t)"
  using one_read_loop [OF sample_pool_reached] by (simp add: sample_pool_def)


text \<open>The end of the read loop before the iterator is used.\<close>

theorem iterator_races_witness:
  "crun list_buffer (\<lambda>_. True) (race_start sample_client @ uninterrupted 4 1 @ [Inr 2]) (cpool_start ''default'') = Undef"
proof -
  have other: "getClientInAddr (sample_client\<lparr>cl_clientAddr := null_sockaddr\<lparr>sin_addr := 1\<rparr>\<rparr>) \<noteq> getClientInAddr sample_client"
    by (simp add: getClientInAddr_def sample_client_def TcpClient_of_socket_def Client_new_addr_def null_sockaddr_def)
  show ?thesis by (rule conjunct1 [OF iterator_races [OF other]])
qed

text \<open>The call is made when the client has its read loop.\<close>

definition quiet_pool :: "ccall \<Rightarrow> (message list option, string) cpool" where
  "quiet_pool c = sample_pool\<lparr>cp_threads := [[], [ReadLoop 0 0], ccode c]\<rparr>"

lemma quiet_pool_reached: "creached list_buffer (\<lambda>_. False) ''default'' (quiet_pool c)"
proof -
  have "crun list_buffer (\<lambda>_. False) (Inl (CallAddClient sample_client) # uninterrupted 7 0 @ [Inl c])
      (cpool_start ''default'') = Ret (quiet_pool c)"
    by (simp add: cpool_start_def Connector_new_def cstep_def iterator_valid_def Let_def
        numeral_eq_Suc sample_pool_def quiet_pool_def)
  from crun_creached [OF this creached.start] show ?thesis .
qed

theorem sendRequest_refines_witness:
  "\<exists>r s. crun list_buffer (\<lambda>_. False) (uninterrupted 5 2) (quiet_pool (CallSendRequest 0)) = Ret s \<and>
     cp_answers s = [(OkStatus, Some (0, r))] \<and> cp_threads s = [[], [ReadLoop 0 0], []]"
proof -
  let ?s = "quiet_pool (CallSendRequest 0)"
  let ?g = "InternalChannelManager_new connector_config 4 :: message list option manager"
  have "mg_freeList ?g \<noteq> []" by (simp add: InternalChannelManager_new_def)
  then obtain g r where "createRequestChannel list_buffer ?g = Ret ((OkStatus, Some r), g)"
    by (cases "mg_freeList ?g") (auto simp: createRequestChannel_eq [OF new_inv])
  then have "Connector_sendRequest list_buffer 0 (cp_connector ?s) =
      Ret ((OkStatus, Some (0, InternalRequest_of_channel r)), put_manager 0 g (cp_connector ?s))"
    by (simp add: Connector_sendRequest_def quiet_pool_def sample_pool_def Let_def)
  from sendRequest_refines [OF quiet_pool_reached _ _ _ this, of 2 "[]"] show ?thesis
    by (simp add: quiet_pool_def sample_pool_def)
qed

theorem addClient_refines_witness:
  "\<exists>n generation. crun list_buffer (\<lambda>_. False) (uninterrupted n 2) (quiet_pool (CallAddClient sample_client)) =
    Ret ((quiet_pool (CallAddClient sample_client))\<lparr>cp_generation := generation,
        cp_statuses := [OkStatus, AlreadyExistsError ''Client already exists''],
        cp_threads := [[], [ReadLoop 0 0], []]\<rparr>)"
proof -
  let ?s = "quiet_pool (CallAddClient sample_client)"
  have "cl_isSocketOpen sample_client" by (simp add: sample_client_def TcpClient_of_socket_def)
  then have opened: "TcpClient_openSocket sample_client sample_world = Ret (OkStatus, sample_client, sample_world)"
    by (simp add: TcpClient_openSocket_def)
  then have "Connector_addClient sample_client (cp_connector ?s) sample_world =
      Ret (AlreadyExistsError ''Client already exists'', cp_connector ?s, TcpClient_destroy sample_client sample_world)"
    by (simp add: Connector_addClient_def quiet_pool_def sample_pool_def Let_def)
  from addClient_refines [OF _ _ _ opened this, of 2 "[]" list_buffer "\<lambda>_. False"] show ?thesis
    by (simp add: quiet_pool_def sample_pool_def)
qed

end
