(* ===== verification/HandlerSteps.thy ===== *)
theory HandlerSteps
  imports Distributed
begin

text \<open>
  The server threads of a distributed server, cut into steps. \<open>Distributed\<close> treats a turn of a server, and
  the handler in it, as one step; here a turn ends at the call of the handler, and \<^verbatim>\<open>handleConnect\<close>
  and \<^verbatim>\<open>handleConnectAck\<close> are cut where they call the network or the connector. Run one after the other, the
  steps are the handler (\<open>handler_steps_refine\<close>); \<open>DistributedThreads\<close> lets other threads in between.
\<close>

section \<open>What a server thread does before it calls a handler\<close>

text \<open>
  A turn of a server up to the call of the handler: the handler and the request, if there is one,
  and the table after the look-up.
\<close>

definition TcpServer_receive ::
    "'h server \<Rightarrow> 'z world_scheme \<Rightarrow> (('h \<times> tcp_request) option \<times> 'h server \<times> 'z world_scheme) outcome" where
  "TcpServer_receive s w =
     bind_outcome (os_accept (srv_serverSocketFd s) w) (\<lambda>(clientSocketFd, peer, w).
       if clientSocketFd < 0 then Ret (None, s, w)
       else let clientAddr = (case peer of None \<Rightarrow> w_stack w | Some a \<Rightarrow> a) in
         case readMessage clientSocketFd w of ((st, message), w) \<Rightarrow>
           if \<not> status_ok st then Ret (None, s, os_close clientSocketFd w)
           else case message of
                  None \<Rightarrow> Undef
                | Some m \<Rightarrow>
                    let request = TcpRequest_new clientSocketFd clientAddr m; p = tr_protocol request
                    in Ret (Some (Server_target p s, request), snd (Server_lookup p s), w))"

definition UdpServer_receive ::
    "'h server \<Rightarrow> 'z world_scheme \<Rightarrow> (('h \<times> udp_request) option \<times> 'h server \<times> 'z world_scheme) outcome" where
  "UdpServer_receive s w =
     (let addr = w_stack w in
      bind_outcome (os_recvfrom (srv_serverSocketFd s) kMessageHeaderLength w)
       (\<lambda>(bytes_read, hb, src, w).
        let addr = (case src of None \<Rightarrow> addr | Some a \<Rightarrow> a) in
        if int_less_u32 bytes_read (of_nat kMessageHeaderLength) then Ret (None, s, w)
        else let h = (if bytes_read < 0 then header empty_message else decode_header hb) in
        bind_outcome (os_recvfrom (srv_serverSocketFd s) (unat (len h)) w)
         (\<lambda>(bytes_read, bs, src, w).
          let addr = (case src of None \<Rightarrow> addr | Some a \<Rightarrow> a) in
          if int_less_u32 bytes_read (len h) then Ret (None, s, w)
          else let m = \<lparr>header = h, data = resize (unat (len h)) bs\<rparr>;
                   request = UdpRequest_new addr m; p = ur_protocol request
               in Ret (Some (Server_target p s, request), snd (Server_lookup p s), w))))"

text \<open>The turns of \<open>Servers\<close> are these, followed by the handler.\<close>

lemma TcpServer_turn_cut:
  "TcpServer_run_turn run s w = bind_outcome (TcpServer_receive s w) (\<lambda>(q, s, w).
     case q of
       None \<Rightarrow> Ret (s, w)
     | Some (h, r) \<Rightarrow> bind_outcome (run h r w) (\<lambda>(st, w). Ret (s, w)))"
proof (cases "os_accept (srv_serverSocketFd s) w")
  case (Ret x)
  obtain f peer v where x: "x = (f, peer, v)" by (cases x)
  obtain st m v' where r: "readMessage f v = ((st, m), v')" by (metis prod.exhaust)
  show ?thesis
    using Ret x r by (cases m) (auto simp: TcpServer_run_turn_def TcpServer_receive_def
        Server_handleRequest_target bind_outcome_assoc Let_def case_prod_beta')
qed (simp_all add: TcpServer_run_turn_def TcpServer_receive_def)

lemma UdpServer_turn_cut:
  "UdpServer_run_turn run s w = bind_outcome (UdpServer_receive s w) (\<lambda>(q, s, w).
     case q of
       None \<Rightarrow> Ret (s, w)
     | Some (h, r) \<Rightarrow> bind_outcome (run h r w) (\<lambda>(st, w). Ret (s, w)))"
proof (cases "os_recvfrom (srv_serverSocketFd s) kMessageHeaderLength w")
  case Ret: (Ret x)
  obtain n hb src v where x: "x = (n, hb, src, v)" by (cases x)
  let ?h = "if n < 0 then header empty_message else decode_header hb"
  show ?thesis
  proof (cases "os_recvfrom (srv_serverSocketFd s) (unat (len ?h)) v")
    case (Ret y)
    obtain n' bs src' v' where "y = (n', bs, src', v')" by (cases y)
    with \<open>os_recvfrom _ kMessageHeaderLength w = _\<close> x Ret show ?thesis
      by (auto simp: UdpServer_run_turn_def UdpServer_receive_def
        Server_handleRequest_target bind_outcome_assoc Let_def case_prod_beta')
  qed (use Ret x in \<open>simp_all add: UdpServer_run_turn_def UdpServer_receive_def Let_def\<close>)
qed (simp_all add: UdpServer_run_turn_def UdpServer_receive_def Let_def)

section \<open>The handlers, cut into steps\<close>

text \<open>
  What a server thread has still to do. A step of \<^verbatim>\<open>handleConnect\<close>: the checks, the connection, the
  acknowledgement, the wait for the answer, \<^verbatim>\<open>addClient\<close>, the callback; of \<^verbatim>\<open>handleConnectAck\<close>: the
  answer, \<^verbatim>\<open>addClient\<close>, the callback. \<open>CallUser\<close> is the call of a handler of the user.
\<close>

datatype ds_task =
    ConnectCheck request
  | ConnectOpen request u32 u16
  | ConnectSend request client u32
  | ConnectReceive request client u32
  | ConnectAdd request client u32
  | ConnectCallback request u32
  | AckAnswer request
  | AckAdd tcp_request
  | AckCallback tcp_request
  | CallUser request

primrec handler_task :: "ds_handler \<Rightarrow> request \<Rightarrow> ds_task" where
  "handler_task ForwardRequestToHandler req = CallUser req"
| "handler_task HandleConnect req = ConnectCheck req"
| "handler_task HandleConnectAck req = AckAnswer req"

text \<open>The return of a handler.\<close>

definition leave ::
    "'b message_buffer \<Rightarrow> request \<Rightarrow> status \<Rightarrow> ds_event list \<Rightarrow> ('b, 'h) distributed_server \<Rightarrow>
     'z world_scheme \<Rightarrow>
     ((status + ds_task) \<times> ds_event list \<times> ('b, 'h) distributed_server \<times> 'z world_scheme) outcome" where
  "leave B req st es d w =
     bind_outcome (finish B req st es d w) (\<lambda>(st, es, d, w). Ret (Inl st, es, d, w))"

primrec ds_exec ::
    "('b, 'h, 'z world_scheme) user_handlers \<Rightarrow> 'b message_buffer \<Rightarrow> ds_task \<Rightarrow>
     ('b, 'h) distributed_server \<Rightarrow> 'z world_scheme \<Rightarrow>
     ((status + ds_task) \<times> ds_event list \<times> ('b, 'h) distributed_server \<times> 'z world_scheme) outcome" where
  "ds_exec user B (ConnectCheck req) d w =
     bind_outcome (Request_receiveMessage B req (ds_connector d) w) (\<lambda>(p, req, cn, w).
       let d = d\<lparr>ds_connector := cn\<rparr> in
       ASSERT_OK_AND_ASSIGN p ''Failed to receive connect request'' (\<lambda>st. leave B req st [] d w)
        (\<lambda>message. case message of None \<Rightarrow> Undef | Some m \<Rightarrow>
          if body_len m \<noteq> 2 then leave B req (InternalError ''Invalid connect request length'') [] d w
          else bind_outcome (mem_read (data m) 0 2) (\<lambda>bs.
            let peerPort = un16 bs;
                peerIp = sin_addr (Request_getAddr req)
            in case ds_interfaces d of
              [] \<Rightarrow> Undef
            | interface # _ \<Rightarrow>
                if interface = inet_ntop peerIp \<or> peerIp \<in> ds_peers d then leave B req OkStatus [] d w
                else Ret (Inr (ConnectOpen req peerIp peerPort), [], d, w))))"
| "ds_exec user B (ConnectOpen req peerIp peerPort) d w =
     bind_outcome (TcpClient_openSocket (TcpClient_new (inet_ntop peerIp) peerPort) w)
       (\<lambda>(openStatus, peerServer, w).
       if \<not> status_ok openStatus then
         leave B req (InternalError (''Failed to open socket to peer server '' @
             quoted (inet_ntop peerIp) @ '': '' @ status_message openStatus)) [] d
           (TcpClient_destroy peerServer (os_close (cl_clientFd peerServer) w))
       else Ret (Inr (ConnectSend req peerServer peerIp), [], d, w))"
| "ds_exec user B (ConnectSend req peerServer peerIp) d w =
     bind_outcome (TcpClient_sendMessage peerServer (connectAck_message kConnectAckRequestProtocol) w)
       (\<lambda>(sendStatus, w).
       if \<not> status_ok sendStatus then
         leave B req (InternalError (''Failed to send connectAck to peer server '' @
             quoted (inet_ntop peerIp) @ '': '' @ status_message sendStatus)) [] d
           (TcpClient_destroy peerServer (os_close (cl_clientFd peerServer) w))
       else Ret (Inr (ConnectReceive req peerServer peerIp), [], d, w))"
| "ds_exec user B (ConnectReceive req peerServer peerIp) d w =
     (case TcpClient_receiveMessage peerServer w of ((receiveStatus, ackResponse), w) \<Rightarrow>
       if \<not> status_ok receiveStatus \<or> protocol (header (the ackResponse)) \<noteq> kConnectAckResponseProtocol
       then leave B req (InternalError (''Failed to receive connect end from peer server '' @
              quoted (inet_ntop peerIp) @ '': '' @ status_message receiveStatus)) [] d
              (TcpClient_destroy peerServer (os_close (cl_clientFd peerServer) w))
       else Ret (Inr (ConnectAdd req peerServer peerIp), [], d, w))"
| "ds_exec user B (ConnectAdd req peerServer peerIp) d w =
     bind_outcome (Connector_addClient peerServer (ds_connector d) w) (\<lambda>(connectorStatus, cn, w).
       if \<not> status_ok connectorStatus then Undef
       else Ret (Inr (ConnectCallback req peerIp), [], d\<lparr>ds_connector := cn\<rparr>, w))"
| "ds_exec user B (ConnectCallback req peerIp) d w =
     leave B req OkStatus (if ds_has_connect_callback d then [PeerConnect peerIp] else []) d w"
| "ds_exec user B (AckAnswer req) d w =
     bind_outcome (Request_receiveMessage B req (ds_connector d) w) (\<lambda>(p, req, cn, w).
       let d = d\<lparr>ds_connector := cn\<rparr> in
       ASSERT_OK_AND_ASSIGN p ''Failed to receive connectAck request'' (\<lambda>st. leave B req st [] d w)
        (\<lambda>message.
         bind_outcome (Request_sendMessage req (connectAck_message kConnectAckResponseProtocol)
             (ds_connector d) w) (\<lambda>(sendStatus, w).
         ASSERT_OK sendStatus ''Failed to send connectAck to peer server'' (\<lambda>st. leave B req st [] d w)
          (case req of
             TcpReq tcpRequest \<Rightarrow> Ret (Inr (AckAdd tcpRequest), [], d, w)
           | _ \<Rightarrow> Ret (Inl (InternalError ''Failed to cast request to TcpRequest''), [], d, w)))))"
| "ds_exec user B (AckAdd tcpRequest) d w =
     (let addr = tr_clientAddr tcpRequest in
      case TcpRequest_setKeepAlive tcpRequest of (f, tcpRequest) \<Rightarrow>
        bind_outcome (Connector_addClient
            (TcpClient_of_socket f (inet_ntop (sin_addr addr)) (swap16 (sin_port addr)) addr)
            (ds_connector d) w) (\<lambda>(connectorStatus, cn, w).
          let d = d\<lparr>ds_connector := cn\<rparr> in
          if \<not> status_ok connectorStatus then
            (case TcpRequest_setKeepAlive tcpRequest of (f, tcpRequest) \<Rightarrow>
               leave B (TcpReq tcpRequest) connectorStatus [] d (os_close f w))
          else Ret (Inr (AckCallback tcpRequest), [], d, w)))"
| "ds_exec user B (AckCallback tcpRequest) d w =
     leave B (TcpReq tcpRequest) OkStatus
       (if ds_has_connect_callback d then [PeerConnect (sin_addr (tr_clientAddr tcpRequest))] else []) d w"
| "ds_exec user B (CallUser req) d w =
     bind_outcome (forwardRequestToHandler user req d w) (\<lambda>(st, es, d, w). Ret (Inl st, es, d, w))"

text \<open>The steps of a handler one after the other, with nothing in between.\<close>

fun task_rank :: "ds_task \<Rightarrow> nat" where
  "task_rank (ConnectCheck req) = 5"
| "task_rank (ConnectOpen req ip port) = 4"
| "task_rank (ConnectSend req c ip) = 3"
| "task_rank (ConnectReceive req c ip) = 2"
| "task_rank (ConnectAdd req c ip) = 1"
| "task_rank (AckAnswer req) = 2"
| "task_rank (AckAdd r) = 1"
| "task_rank _ = 0"

primrec calls_user :: "ds_task \<Rightarrow> bool" where
  "calls_user (ConnectCheck req) = False"
| "calls_user (ConnectOpen req ip port) = False"
| "calls_user (ConnectSend req c ip) = False"
| "calls_user (ConnectReceive req c ip) = False"
| "calls_user (ConnectAdd req c ip) = False"
| "calls_user (ConnectCallback req ip) = False"
| "calls_user (AckAnswer req) = False"
| "calls_user (AckAdd r) = False"
| "calls_user (AckCallback r) = False"
| "calls_user (CallUser req) = True"

lemma leave_not_on [simp]: "leave B req st es d w \<noteq> Ret (Inr c, x)"
  by (auto simp: leave_def outcome_simps)

lemma ds_exec_next: "ds_exec user B c d w = Ret (Inr c', x) \<Longrightarrow> task_rank c' < task_rank c \<and> \<not> calls_user c'"
proof (cases c)
  case (ConnectCheck req)
  assume "ds_exec user B c d w = Ret (Inr c', x)"
  with ConnectCheck show ?thesis
    by (cases "ds_interfaces d")
      (auto simp: ASSERT_OK_AND_ASSIGN_def Let_def outcome_simps split: if_split_asm option.split_asm)
next
  case (AckAnswer req)
  assume "ds_exec user B c d w = Ret (Inr c', x)"
  with AckAnswer show ?thesis
    by (auto simp: ASSERT_OK_AND_ASSIGN_def ASSERT_OK_def Let_def outcome_simps split: if_split_asm request.split_asm)
qed (auto simp: Let_def outcome_simps TcpRequest_setKeepAlive_def split: if_splits prod.splits)

function ds_run ::
    "('b, 'h, 'z world_scheme) user_handlers \<Rightarrow> 'b message_buffer \<Rightarrow> ds_task \<Rightarrow>
     ('b, 'h) distributed_server \<Rightarrow> 'z world_scheme \<Rightarrow>
     (status \<times> ds_event list \<times> ('b, 'h) distributed_server \<times> 'z world_scheme) outcome" where
  "ds_run user B c d w =
     bind_outcome (ds_exec user B c d w) (\<lambda>(next, es, d, w).
       case next of
         Inl st \<Rightarrow> Ret (st, es, d, w)
       | Inr c \<Rightarrow> bind_outcome (ds_run user B c d w) (\<lambda>(st, fs, d, w). Ret (st, es @ fs, d, w)))"
  by pat_completeness auto
termination
  by (relation "measure (\<lambda>(user, B, c, d, w). task_rank c)") (auto dest: ds_exec_next)

declare ds_run.simps [simp del]

text \<open>
  The cut is right: the steps of a handler, one after the other, do what the handler of
  \<open>Distributed\<close> does at once, on every path.
\<close>

lemma ds_run_leave [simp]:
  "bind_outcome (leave B req st es d w) (\<lambda>(next, es, d, w).
     case next of
       Inl st \<Rightarrow> Ret (st, es, d, w)
     | Inr c \<Rightarrow> bind_outcome (ds_run user B c d w) (\<lambda>(st, fs, d, w). Ret (st, es @ fs, d, w))) =
   finish B req st es d w"
  by (cases "finish B req st es d w") (auto simp: leave_def)

lemma bind_return [simp]:
  "bind_outcome m Ret = m" "bind_outcome m (\<lambda>(st, es, d, w). Ret (st, es, d, w)) = m"
  by (cases m; auto)+

lemma run_ConnectCallback [simp]:
  "ds_run user B (ConnectCallback req ip) d w =
     finish B req OkStatus (if ds_has_connect_callback d then [PeerConnect ip] else []) d w"
  by (simp add: ds_run.simps [of user B "ConnectCallback req ip"])

lemma run_ConnectAdd:
  "ds_run user B (ConnectAdd req c ip) d w =
     bind_outcome (Connector_addClient c (ds_connector d) w) (\<lambda>(connectorStatus, cn, w).
       if \<not> status_ok connectorStatus then Undef
       else finish B req OkStatus (if ds_has_connect_callback d then [PeerConnect ip] else [])
              (d\<lparr>ds_connector := cn\<rparr>) w)"
  by (subst ds_run.simps, rule sym, cases "Connector_addClient c (ds_connector d) w") auto

lemma run_ConnectReceive:
  "ds_run user B (ConnectReceive req c ip) d w =
     (case TcpClient_receiveMessage c w of ((receiveStatus, ackResponse), w) \<Rightarrow>
       if \<not> status_ok receiveStatus \<or> protocol (header (the ackResponse)) \<noteq> kConnectAckResponseProtocol
       then finish B req (InternalError (''Failed to receive connect end from peer server '' @
              quoted (inet_ntop ip) @ '': '' @ status_message receiveStatus)) [] d
              (TcpClient_destroy c (os_close (cl_clientFd c) w))
       else ds_run user B (ConnectAdd req c ip) d w)"
  by (subst ds_run.simps) (auto split: prod.split)

lemma run_ConnectSend:
  "ds_run user B (ConnectSend req c ip) d w =
     bind_outcome (TcpClient_sendMessage c (connectAck_message kConnectAckRequestProtocol) w)
       (\<lambda>(sendStatus, w).
       if \<not> status_ok sendStatus then
         finish B req (InternalError (''Failed to send connectAck to peer server '' @
             quoted (inet_ntop ip) @ '': '' @ status_message sendStatus)) [] d
           (TcpClient_destroy c (os_close (cl_clientFd c) w))
       else ds_run user B (ConnectReceive req c ip) d w)"
  by (subst ds_run.simps,
      cases "TcpClient_sendMessage c (connectAck_message kConnectAckRequestProtocol) w") auto

lemma run_ConnectOpen:
  "ds_run user B (ConnectOpen req ip port) d w =
     bind_outcome (TcpClient_openSocket (TcpClient_new (inet_ntop ip) port) w) (\<lambda>(openStatus, c, w).
       if \<not> status_ok openStatus then
         finish B req (InternalError (''Failed to open socket to peer server '' @
             quoted (inet_ntop ip) @ '': '' @ status_message openStatus)) [] d
           (TcpClient_destroy c (os_close (cl_clientFd c) w))
       else ds_run user B (ConnectSend req c ip) d w)"
  by (subst ds_run.simps, cases "TcpClient_openSocket (TcpClient_new (inet_ntop ip) port) w") auto

lemmas run_connecting = run_ConnectOpen [unfolded run_ConnectSend run_ConnectReceive run_ConnectAdd]

lemma run_ConnectCheck: "ds_run user B (ConnectCheck req) d w = handleConnect B req d w"
proof (cases "Request_receiveMessage B req (ds_connector d) w")
  case (Ret x)
  obtain st mo r cn v where x: "x = ((st, mo), r, cn, v)" by (metis prod.exhaust)
  show ?thesis
  proof (cases "status_ok st")
    case ok: True
    show ?thesis
    proof (cases mo)
      case None
      with Ret x ok show ?thesis
        by (subst ds_run.simps) (simp add: handleConnect_def ASSERT_OK_AND_ASSIGN_def)
    next
      case (Some m)
      show ?thesis
      proof (cases "mem_read (data m) 0 2")
        case (Ret bs)
        with \<open>Request_receiveMessage B req _ w = _\<close> x ok Some show ?thesis
          by (subst ds_run.simps) (cases "ds_interfaces d", simp_all add: handleConnect_def
            ASSERT_OK_AND_ASSIGN_def Let_def run_connecting)
      qed (use Ret x ok Some in \<open>subst ds_run.simps, auto simp: handleConnect_def ASSERT_OK_AND_ASSIGN_def Let_def\<close>)+
    qed
  qed (use Ret x in \<open>subst ds_run.simps, simp add: handleConnect_def ASSERT_OK_AND_ASSIGN_def Let_def\<close>)
qed (subst ds_run.simps, simp add: handleConnect_def)+

lemma run_AckCallback [simp]:
  "ds_run user B (AckCallback r) d w = finish B (TcpReq r) OkStatus
     (if ds_has_connect_callback d then [PeerConnect (sin_addr (tr_clientAddr r))] else []) d w"
  by (simp add: ds_run.simps [of user B "AckCallback r"])

lemma run_AckAdd:
  "ds_run user B (AckAdd r) d w =
     (let addr = tr_clientAddr r in
      case TcpRequest_setKeepAlive r of (f, r) \<Rightarrow>
        bind_outcome (Connector_addClient
            (TcpClient_of_socket f (inet_ntop (sin_addr addr)) (swap16 (sin_port addr)) addr)
            (ds_connector d) w) (\<lambda>(connectorStatus, cn, w).
          let d = d\<lparr>ds_connector := cn\<rparr> in
          if \<not> status_ok connectorStatus then
            (case TcpRequest_setKeepAlive r of (f, r) \<Rightarrow>
               finish B (TcpReq r) connectorStatus [] d (os_close f w))
          else finish B (TcpReq r) OkStatus
                 (if ds_has_connect_callback d then [PeerConnect (sin_addr addr)] else []) d w))"
  by (subst ds_run.simps, cases "Connector_addClient
        (TcpClient_of_socket (tr_clientSocketFd r) (inet_ntop (sin_addr (tr_clientAddr r)))
          (swap16 (sin_port (tr_clientAddr r))) (tr_clientAddr r)) (ds_connector d) w")
    (auto simp: TcpRequest_setKeepAlive_def Let_def)

lemma receive_keeps_address:
  "Request_receiveMessage B req cn w = Ret (p, r, cn', w') \<Longrightarrow> Request_getAddr r = Request_getAddr req"
  by (cases req) (auto simp: outcome_simps TcpRequest_receiveMessage_def UdpRequest_receiveMessage_def
      InternalRequest_receiveMessage_def Let_def split: prod.splits option.splits)

lemma run_AckAnswer: "ds_run user B (AckAnswer req) d w = handleConnectAck B req d w"
proof (cases "Request_receiveMessage B req (ds_connector d) w")
  case rcv: (Ret x)
  obtain st mo r cn v where x: "x = ((st, mo), r, cn, v)" by (metis prod.exhaust)
  have addr: "Request_getAddr req = Request_getAddr r" using rcv x by (simp add: receive_keeps_address)
  show ?thesis
  proof (cases "status_ok st")
    case ok: True
    show ?thesis
    proof (cases "Request_sendMessage r (connectAck_message kConnectAckResponseProtocol) cn v")
      case sent: (Ret y)
      obtain st' v' where y: "y = (st', v')" by (cases y)
      show ?thesis
      proof (cases r)
        case (TcpReq t)
        then show ?thesis
          using rcv x ok sent y
          by (subst ds_run.simps, cases "Connector_addClient (TcpClient_of_socket (tr_clientSocketFd t)
                (inet_ntop (sin_addr (tr_clientAddr t))) (swap16 (sin_port (tr_clientAddr t))) (tr_clientAddr t)) cn v'")
            (auto simp: handleConnectAck_def addr run_AckAdd TcpRequest_setKeepAlive_def
              ASSERT_OK_AND_ASSIGN_def ASSERT_OK_def Let_def)
      qed (use rcv x ok sent y in \<open>subst ds_run.simps, auto simp: handleConnectAck_def
          ASSERT_OK_AND_ASSIGN_def ASSERT_OK_def Let_def\<close>)+
    qed (use rcv x ok in \<open>subst ds_run.simps, simp add: handleConnectAck_def ASSERT_OK_AND_ASSIGN_def Let_def\<close>)+
  qed (use rcv x in \<open>subst ds_run.simps, simp add: handleConnectAck_def ASSERT_OK_AND_ASSIGN_def Let_def\<close>)
qed (subst ds_run.simps, simp add: handleConnectAck_def Let_def)+

lemma run_CallUser: "ds_run user B (CallUser req) d w = forwardRequestToHandler user req d w"
  by (subst ds_run.simps, cases "forwardRequestToHandler user req d w") auto


section \<open>What a step of a handler does\<close>

text \<open>
  What the tasks of a thread look like: the UDP server handles requests with their message in
  them, a client that waits to be added is open, and a TCP request has a descriptor.
\<close>

definition udp_request_ok :: "request \<Rightarrow> bool" where
  "udp_request_ok req \<longleftrightarrow> (case req of UdpReq r \<Rightarrow> True | _ \<Rightarrow> False)"

definition tcp_request_ok :: "request \<Rightarrow> bool" where
  "tcp_request_ok req \<longleftrightarrow> (case req of TcpReq r \<Rightarrow> 0 \<le> tr_clientSocketFd r | _ \<Rightarrow> False)"

definition announcement_ok :: "request \<Rightarrow> bool" where
  "announcement_ok req \<longleftrightarrow>
     (case req of UdpReq r \<Rightarrow> (case ur_message r of None \<Rightarrow> False | Some m \<Rightarrow> wf_message m) | _ \<Rightarrow> False)"

definition open_client :: "client \<Rightarrow> bool" where
  "open_client c \<longleftrightarrow> cl_isSocketOpen c \<and> cl_clientFd c \<noteq> - 1"

primrec task_ok :: "ds_thread \<Rightarrow> ds_task \<Rightarrow> bool" where
  "task_ok t (ConnectCheck req) \<longleftrightarrow> t = UdpServerThread \<and> announcement_ok req"
| "task_ok t (ConnectOpen req ip port) \<longleftrightarrow> t = UdpServerThread \<and> udp_request_ok req"
| "task_ok t (ConnectSend req c ip) \<longleftrightarrow> t = UdpServerThread \<and> udp_request_ok req \<and> open_client c"
| "task_ok t (ConnectReceive req c ip) \<longleftrightarrow> t = UdpServerThread \<and> udp_request_ok req \<and> open_client c"
| "task_ok t (ConnectAdd req c ip) \<longleftrightarrow> t = UdpServerThread \<and> udp_request_ok req \<and> open_client c"
| "task_ok t (ConnectCallback req ip) \<longleftrightarrow> t = UdpServerThread \<and> udp_request_ok req"
| "task_ok t (AckAnswer req) \<longleftrightarrow> t = TcpServerThread \<and> tcp_request_ok req"
| "task_ok t (AckAdd r) \<longleftrightarrow> t = TcpServerThread \<and> 0 \<le> tr_clientSocketFd r"
| "task_ok t (AckCallback r) \<longleftrightarrow> t = TcpServerThread"
| "task_ok t (CallUser req) \<longleftrightarrow> True"

text \<open>The connect callbacks a task has still to make.\<close>

fun callback_due :: "ds_task \<Rightarrow> nat" where
  "callback_due (ConnectCallback req ip) = 1"
| "callback_due (AckCallback r) = 1"
| "callback_due _ = 0"

definition next_due :: "status + ds_task \<Rightarrow> nat" where
  "next_due x = (case x of Inl st \<Rightarrow> 0 | Inr c \<Rightarrow> callback_due c)"

lemma next_due_simps [simp]: "next_due (Inl st) = 0" "next_due (Inr c) = callback_due c"
  by (simp_all add: next_due_def)

lemma leave_tcp [simp]:
  "leave B (TcpReq r) st es d w = Ret (Inl st, es, d, TcpRequest_destroy r w)"
  by (simp add: leave_def finish_def)

lemma leave_udp: "udp_request_ok req \<Longrightarrow> leave B req st es d w = Ret (Inl st, es, d, w)"
  by (cases req) (simp_all add: leave_def finish_def udp_request_ok_def UdpRequest_terminate_def)

text \<open>The four steps that call the connector or the user, by what they need.\<close>

lemma exec_ConnectCheck:
  assumes "announcement_ok req" "ds_interfaces d = interface # is"
  obtains (ignored) st where "ds_exec user B (ConnectCheck req) d w = Ret (Inl st, [], d, w)"
  | (goes_on) req' port where "udp_request_ok req'" "Request_getAddr req' = Request_getAddr req"
      "interface \<noteq> inet_ntop (sin_addr (Request_getAddr req))" "sin_addr (Request_getAddr req) \<notin> ds_peers d"
      "ds_exec user B (ConnectCheck req) d w =
         Ret (Inr (ConnectOpen req' (sin_addr (Request_getAddr req)) port), [], d, w)"
proof -
  from assms(1) obtain r m where r: "req = UdpReq r" "ur_message r = Some m" "wf_message m"
    by (auto simp: announcement_ok_def split: request.splits option.splits)
  let ?r = "UdpReq (r\<lparr>ur_message := None\<rparr>)"
  have ok: "udp_request_ok ?r" by (simp add: udp_request_ok_def)
  note rcv = r(1) UdpRequest_receiveMessage_def [of r] r(2)
  show ?thesis
  proof (cases "body_len m = 2 \<and> interface \<noteq> inet_ntop (sin_addr (Request_getAddr req)) \<and>
      sin_addr (Request_getAddr req) \<notin> ds_peers d")
    case True
    with r(3) have "mem_read (data m) 0 2 = Ret (data m)" by (simp add: mem_read_def wf_message_def)
    with True show ?thesis
      by (intro goes_on [of ?r "un16 (data m)"])
        (simp_all add: ok rcv assms(2) ASSERT_OK_AND_ASSIGN_def Let_def)
  next
    case False
    with r(3) ignored show ?thesis
      by (cases "body_len m = 2")
        (auto simp: rcv assms(2) ASSERT_OK_AND_ASSIGN_def Let_def mem_read_def wf_message_def leave_udp [OF ok])
  qed
qed

lemma exec_ConnectAdd:
  assumes "open_client c"
  shows "ds_exec user B (ConnectAdd req c ip) d w =
    (case cn_clients (ds_connector d) (getClientInAddr c) of
       Some k \<Rightarrow> Undef
     | None \<Rightarrow> Ret (Inr (ConnectCallback req ip), [],
         d\<lparr>ds_connector := with_peer (getClientInAddr c) c (ds_connector d)\<rparr>, w))"
  using assms by (simp add: open_client_def addClient_open with_peer_def split: option.split)

abbreviation accepted_client :: "tcp_request \<Rightarrow> client" where
  "accepted_client r \<equiv> TcpClient_of_socket (tr_clientSocketFd r) (inet_ntop (sin_addr (tr_clientAddr r)))
     (swap16 (sin_port (tr_clientAddr r))) (tr_clientAddr r)"

lemma TcpClient_of_socket_simps [simp]:
  "getClientInAddr (TcpClient_of_socket f host port src) = sin_addr src"
  "cl_clientFd (TcpClient_of_socket f host port src) = f"
  "open_client (TcpClient_of_socket f host port src) \<longleftrightarrow> f \<noteq> - 1"
  "cl_isSocketOpen (TcpClient_of_socket f host port src)"
  by (simp_all add: TcpClient_of_socket_def Client_new_addr_def getClientInAddr_def open_client_def)

lemma exec_AckAdd:
  assumes "0 \<le> tr_clientSocketFd r"
  shows "ds_exec user B (AckAdd r) d w =
    (case cn_clients (ds_connector d) (sin_addr (tr_clientAddr r)) of
       Some k \<Rightarrow> Ret (Inl (AlreadyExistsError ''Client already exists''), [], d,
         os_close (tr_clientSocketFd r) (os_close (tr_clientSocketFd r) w))
     | None \<Rightarrow> Ret (Inr (AckCallback (r\<lparr>tr_keepAlive := True\<rparr>)), [],
         d\<lparr>ds_connector := with_peer (sin_addr (tr_clientAddr r)) (accepted_client r) (ds_connector d)\<rparr>, w))"
proof -
  have c: "cl_isSocketOpen (accepted_client r)" "cl_clientFd (accepted_client r) \<noteq> - 1"
    using assms by simp_all
  show ?thesis
    by (simp add: addClient_open [OF c] TcpRequest_setKeepAlive_def TcpRequest_destroy_def
        TcpRequest_terminate_def with_peer_def Let_def split: option.split)
qed

text \<open>A step of a handler of the library, by what it does to the server.\<close>

lemma ConnectSend_outcome: "open_client c \<Longrightarrow>
  \<exists>st w'. TcpClient_sendMessage c (connectAck_message p) w = Ret (st, w')"
  by (auto simp: open_client_def TcpClient_sendMessage_def mem_read_def split: prod.split)

lemma AckAnswer_outcome:
  assumes "tcp_request_ok req"
  obtains (refused) st w' where "ds_exec user B (AckAnswer req) d w = Ret (Inl st, [], d, w')"
  | (answered) r w' where "0 \<le> tr_clientSocketFd r" "Request_getAddr req = tr_clientAddr r"
      "ds_exec user B (AckAnswer req) d w = Ret (Inr (AckAdd r), [], d, w')"
proof -
  from assms obtain r where r: "req = TcpReq r" "0 \<le> tr_clientSocketFd r"
    by (auto simp: tcp_request_ok_def split: request.splits)
  obtain st mo q w1 where rcv: "TcpRequest_receiveMessage r w = ((st, mo), q, w1)" by (metis prod.exhaust)
  then have q: "tr_clientSocketFd q = tr_clientSocketFd r" "tr_clientAddr q = tr_clientAddr r"
    by (auto simp: TcpRequest_receiveMessage_def split: option.splits prod.splits)
  obtain st2 w2 where snd: "TcpRequest_sendMessage q (connectAck_message kConnectAckResponseProtocol) w1 = (st2, w2)"
    by fastforce
  show ?thesis
  proof (cases "status_ok st \<and> status_ok st2")
    case True
    with r q rcv snd show ?thesis
      by (intro answered [of q w2]) (simp_all add: ASSERT_OK_AND_ASSIGN_def ASSERT_OK_def)
  next
    case False
    with r rcv snd show ?thesis
      by (cases "status_ok st") (auto simp: ASSERT_OK_AND_ASSIGN_def ASSERT_OK_def intro: refused)
  qed
qed

lemma exec_cases:
  assumes c: "task_ok t c" "\<not> calls_user c" and d: "ds_interfaces d \<noteq> []"
    and exec: "ds_exec user B c d w = Ret (next, es, d', w')"
  obtains (quiet) "d' = d" "es = []" "callback_due c = 0" "next_due next = 0"
      "\<And>c'. next = Inr c' \<Longrightarrow> task_ok t c'"
  | (added) cl c' where "d' = d\<lparr>ds_connector := with_peer (getClientInAddr cl) cl (ds_connector d)\<rparr>"
      "open_client cl" "cn_clients (ds_connector d) (getClientInAddr cl) = None" "es = []"
      "callback_due c = 0" "next = Inr c'" "callback_due c' = 1" "task_ok t c'"
  | (called) ip st where "d' = d" "es = (if ds_has_connect_callback d then [PeerConnect ip] else [])"
      "callback_due c = 1" "next = Inl st"
proof (cases c)
  case (ConnectCheck req)
  obtain i "is" where ifs: "ds_interfaces d = i # is" using d by (cases "ds_interfaces d") auto
  from c ConnectCheck have req: "announcement_ok req" "t = UdpServerThread" by simp_all
  show ?thesis
    by (rule exec_ConnectCheck [OF req(1) ifs, of user B w])
      (use exec ConnectCheck req(2) in \<open>auto intro: quiet\<close>)
next
  case (ConnectOpen req ip port)
  with c have req: "udp_request_ok req" "t = UdpServerThread" by simp_all
  from exec ConnectOpen obtain st cl v where
    o: "TcpClient_openSocket (TcpClient_new (inet_ntop ip) port) w = Ret (st, cl, v)" by (auto simp: outcome_simps)
  have "client_ok (TcpClient_new (inet_ntop ip) port)" by (simp add: TcpClient_new_def Client_new_def client_ok_def)
  with o have "st = OkStatus \<Longrightarrow> open_client cl" using openSocket_ok [of _ w cl v] by (simp add: open_client_def)
  with exec ConnectOpen o req show ?thesis
    by (auto simp: leave_udp split: if_splits intro: quiet)
next
  case (ConnectSend req cl ip)
  with c obtain st v where "TcpClient_sendMessage cl (connectAck_message kConnectAckRequestProtocol) w = Ret (st, v)"
    using ConnectSend_outcome by fastforce
  with exec ConnectSend c show ?thesis by (auto simp: leave_udp split: if_splits intro: quiet)
next
  case (ConnectReceive req cl ip)
  with exec c show ?thesis by (auto simp: leave_udp split: if_splits prod.splits intro: quiet)
next
  case (ConnectAdd req cl ip)
  with c have cl: "open_client cl" by simp
  show ?thesis
  proof (cases "cn_clients (ds_connector d) (getClientInAddr cl)")
    case None
    with exec ConnectAdd c exec_ConnectAdd [OF cl, of user B req ip d w] show ?thesis
      by (intro added [of cl "ConnectCallback req ip"]) simp_all
  qed (use exec ConnectAdd exec_ConnectAdd [OF cl, of user B req ip d w] in simp)
next
  case (ConnectCallback req ip)
  with exec c show ?thesis by (auto simp: leave_udp intro: called)
next
  case (AckAnswer req)
  with c have req: "tcp_request_ok req" "t = TcpServerThread" by simp_all
  show ?thesis
    by (rule AckAnswer_outcome [OF req(1), of user B d w])
      (use exec AckAnswer req(2) in \<open>auto intro: quiet\<close>)
next
  case (AckAdd r)
  with c have r: "0 \<le> tr_clientSocketFd r" "t = TcpServerThread" by simp_all
  note run = exec_AckAdd [OF r(1), of user B d w]
  show ?thesis
  proof (cases "cn_clients (ds_connector d) (sin_addr (tr_clientAddr r))")
    case None
    with exec AckAdd r run show ?thesis
      by (intro added [of "accepted_client r" "AckCallback (r\<lparr>tr_keepAlive := True\<rparr>)"]) auto
  next
    case (Some k)
    with exec AckAdd run show ?thesis by (intro quiet) auto
  qed
next
  case (AckCallback r)
  with exec show ?thesis by (auto intro: called)
qed (use c(2) in simp)

text \<open>When a step of a handler goes wrong.\<close>

lemma handler_undefined:
  assumes c: "task_ok t c" and d: "ds_interfaces d \<noteq> []"
  shows "ds_exec user B c d w = Undef \<longleftrightarrow>
    (case c of
       ConnectOpen req ip port \<Rightarrow> TcpClient_openSocket (TcpClient_new (inet_ntop ip) port) w = Undef
     | ConnectAdd req cl ip \<Rightarrow> cn_clients (ds_connector d) (getClientInAddr cl) \<noteq> None
     | CallUser req \<Rightarrow> forwardRequestToHandler user req d w = Undef
     | _ \<Rightarrow> False)"
proof (cases c)
  case (ConnectCheck req)
  obtain i "is" where ifs: "ds_interfaces d = i # is" using d by (cases "ds_interfaces d") auto
  from c ConnectCheck have "announcement_ok req" by simp
  then show ?thesis by (rule exec_ConnectCheck [OF _ ifs, of req user B w]) (simp_all add: ConnectCheck)
next
  case (ConnectOpen req ip port)
  with c show ?thesis by (auto simp: outcome_simps leave_udp split: if_splits)
next
  case (ConnectSend req cl ip)
  with c obtain st v where "TcpClient_sendMessage cl (connectAck_message kConnectAckRequestProtocol) w = Ret (st, v)"
    using ConnectSend_outcome by fastforce
  with ConnectSend c show ?thesis by (simp add: leave_udp)
next
  case (ConnectReceive req cl ip)
  with c show ?thesis by (simp add: leave_udp split: prod.split)
next
  case (ConnectAdd req cl ip)
  with c show ?thesis by (simp add: exec_ConnectAdd del: ds_exec.simps split: option.split)
next
  case (ConnectCallback req ip)
  with c show ?thesis by (simp add: leave_udp)
next
  case (AckAnswer req)
  with c have "tcp_request_ok req" by simp
  then show ?thesis by (rule AckAnswer_outcome [of req user B d w]) (simp_all add: AckAnswer)
next
  case (AckAdd r)
  with c show ?thesis by (simp add: exec_AckAdd del: ds_exec.simps split: option.split)
qed (auto simp: outcome_simps)

text \<open>A step of a handler of the library never waits for ever.\<close>

lemma exec_not_Block:
  assumes c: "task_ok t c" "\<not> calls_user c" and d: "ds_interfaces d \<noteq> []"
  shows "ds_exec user B c d w \<noteq> Block"
proof (cases c)
  case (ConnectCheck req)
  obtain i "is" where ifs: "ds_interfaces d = i # is" using d by (cases "ds_interfaces d") auto
  from c ConnectCheck have "announcement_ok req" by simp
  then show ?thesis by (rule exec_ConnectCheck [OF _ ifs, of req user B w]) (simp_all add: ConnectCheck)
next
  case (ConnectOpen req ip port)
  with c show ?thesis
    by (auto simp: outcome_simps leave_udp TcpClient_openSocket_def Let_def split: if_splits option.splits prod.splits)
next
  case (ConnectSend req cl ip)
  with c obtain st v where "TcpClient_sendMessage cl (connectAck_message kConnectAckRequestProtocol) w = Ret (st, v)"
    using ConnectSend_outcome by fastforce
  with ConnectSend c show ?thesis by (simp add: leave_udp)
next
  case (ConnectReceive req cl ip)
  with c show ?thesis by (simp add: leave_udp split: prod.split)
next
  case (ConnectAdd req cl ip)
  with c show ?thesis by (simp add: exec_ConnectAdd del: ds_exec.simps split: option.split)
next
  case (ConnectCallback req ip)
  with c show ?thesis by (simp add: leave_udp)
next
  case (AckAnswer req)
  with c have "tcp_request_ok req" by simp
  then show ?thesis by (rule AckAnswer_outcome [of req user B d w]) (simp_all add: AckAnswer)
next
  case (AckAdd r)
  with c show ?thesis by (simp add: exec_AckAdd del: ds_exec.simps split: option.split)
qed (use c in simp_all)

end
