(* ===== verification/DistributedThreads.thy ===== *)
theory DistributedThreads
  imports HandlerSteps
begin

text \<open>
  Threads inside one distributed server: the TCP server and the UDP server run in threads of their own,
  every peer has a read loop, and the user calls the server from any thread. While a handler waits
  for its peer, everything else goes on. The steps of the handlers are those of \<open>HandlerSteps\<close>; a turn of a
  read loop and a call of the connector are steps, which \<open>ConnectorThreads\<close> cuts further.
\<close>

section \<open>The threads of one server\<close>

text \<open>
  The state: the server, the events so far, the process, what the two server threads have still to
  do in a handler (\<open>None\<close> when they wait for input), and the clients whose read loop has ended. Every
  client the connector was given has a read loop, from \<^verbatim>\<open>addClient\<close> on, and its position in
  \<open>cn_objects\<close> names it.
\<close>

record ('b, 'h) ds_pool =
  dp_server :: "('b, 'h) distributed_server"
  dp_events :: "ds_event list"
  dp_world :: world
  dp_task :: "ds_thread \<Rightarrow> ds_task option"
  dp_ended :: "nat list"

abbreviation dp_connector :: "('b, 'h) ds_pool \<Rightarrow> ('b, ds_handler) connector" where
  "dp_connector s \<equiv> ds_connector (dp_server s)"

definition running :: "nat \<Rightarrow> ('b, 'h) ds_pool \<Rightarrow> bool" where
  "running k s \<longleftrightarrow> k < length (cn_objects (dp_connector s)) \<and> k \<notin> set (dp_ended s)"

abbreviation address_of :: "nat \<Rightarrow> ('b, 'h) connector \<Rightarrow> u32" where
  "address_of k cn \<equiv> getClientInAddr (client_of k cn)"

text \<open>What a thread of the user may do with a channel it holds.\<close>

primrec user_op :: "manager_op \<Rightarrow> bool" where
  "user_op CreateRequest = False"
| "user_op (Forward m) = False"
| "user_op (Write r m) = True"
| "user_op (Read r) = True"
| "user_op (ReadTimeout t r) = True"
| "user_op (Close r) = True"
| "user_op Destroy = False"

text \<open>
  The steps: a server thread gets its next input or makes a step of its handler; a read loop makes
  a turn; a thread of the user calls the server or uses a channel of a peer whose read loop runs; the
  network and the kernel change what the process will be given next.
\<close>

inductive ds_step ::
    "('b, 'h, world) user_handlers \<Rightarrow> 'b message_buffer \<Rightarrow> ('b, 'h) ds_pool \<Rightarrow> ('b, 'h) ds_pool \<Rightarrow> bool"
  for user :: "('b, 'h, world) user_handlers" and B :: "'b message_buffer" where
  accept:
    "dp_task s TcpServerThread = None \<Longrightarrow>
     TcpServer_receive (ds_tcpServer (dp_server s)) (dp_world s) = Ret (q, srv, w) \<Longrightarrow>
     ds_step user B s (s\<lparr>dp_server := (dp_server s)\<lparr>ds_tcpServer := srv\<rparr>, dp_world := w,
       dp_task := (dp_task s)(TcpServerThread := map_option (\<lambda>(h, r). handler_task h (TcpReq r)) q)\<rparr>)"
| datagrams:
    "dp_task s UdpServerThread = None \<Longrightarrow>
     UdpServer_receive (ds_udpServer (dp_server s)) (dp_world s) = Ret (q, srv, w) \<Longrightarrow>
     ds_step user B s (s\<lparr>dp_server := (dp_server s)\<lparr>ds_udpServer := srv\<rparr>, dp_world := w,
       dp_task := (dp_task s)(UdpServerThread := map_option (\<lambda>(h, r). handler_task h (UdpReq r)) q)\<rparr>)"
| handler:
    "dp_task s t = Some c \<Longrightarrow>
     ds_exec user B c (dp_server s) (dp_world s) = Ret (next, es, d, w) \<Longrightarrow>
     ds_step user B s (s\<lparr>dp_server := d, dp_events := dp_events s @ es, dp_world := w,
       dp_task := (dp_task s)(t := (case next of Inl st \<Rightarrow> None | Inr c \<Rightarrow> Some c))\<rparr>)"
| read_loop:
    "running k s \<Longrightarrow>
     DistributedServer_peer_turn B (address_of k (dp_connector s)) k (dp_server s) (dp_world s) =
       Ret (continue, es, d, w) \<Longrightarrow>
     ds_step user B s (s\<lparr>dp_server := d, dp_events := dp_events s @ es, dp_world := w,
       dp_ended := if continue then dp_ended s else k # dp_ended s\<rparr>)"
| register:
    "ds_step user B s (s\<lparr>dp_server := snd (DistributedServer_addHandler p h (dp_server s))\<rparr>)"
| request:
    "DistributedServer_sendInternalRequest B a (dp_server s) = Ret (res, d) \<Longrightarrow>
     ds_step user B s (s\<lparr>dp_server := d\<rparr>)"
| multicast:
    "DistributedServer_multicastMessage m (dp_server s) (dp_world s) = Ret (st, d, w) \<Longrightarrow>
     ds_step user B s (s\<lparr>dp_server := d, dp_world := w\<rparr>)"
| channel:
    "running k s \<Longrightarrow> user_op x \<Longrightarrow>
     manager_step B x (manager_of k (dp_connector s)) (dp_world s) = Ret (g, w) \<Longrightarrow>
     ds_step user B s (s\<lparr>dp_server := (dp_server s)\<lparr>ds_connector := put_manager k g (dp_connector s)\<rparr>,
       dp_world := w\<rparr>)"
| network:
    "ds_step user B s (s\<lparr>dp_world := (dp_world s)\<lparr>w_in := ins, w_dgrams := dgrams, w_conns := conns,
       w_resolve := names, w_freed := freed, w_stack := stack, w_script := script\<rparr>\<rparr>)"

inductive ds_reached ::
    "('b, 'h, world) user_handlers \<Rightarrow> 'b message_buffer \<Rightarrow> ('b, 'h) ds_pool \<Rightarrow> ('b, 'h) ds_pool \<Rightarrow> bool"
  for user :: "('b, 'h, world) user_handlers" and B :: "'b message_buffer" and s0 :: "('b, 'h) ds_pool" where
  start: "ds_reached user B s0 s0"
| step: "ds_reached user B s0 s \<Longrightarrow> ds_step user B s s' \<Longrightarrow> ds_reached user B s0 s'"

text \<open>A server that was just made.\<close>

definition ds_start :: "('b, 'h) distributed_server \<Rightarrow> world \<Rightarrow> ('b, 'h) ds_pool" where
  "ds_start d w = \<lparr>dp_server = d, dp_events = [], dp_world = w, dp_task = (\<lambda>t. None), dp_ended = []\<rparr>"

section \<open>What every reached state keeps\<close>

fun is_connect :: "ds_event \<Rightarrow> bool" where
  "is_connect (PeerConnect ip) = True"
| "is_connect _ = False"

fun is_disconnect :: "ds_event \<Rightarrow> bool" where
  "is_disconnect (PeerDisconnect ip) = True"
| "is_disconnect _ = False"

definition connects :: "ds_event list \<Rightarrow> nat" where
  "connects es = length (filter is_connect es)"

definition disconnects :: "ds_event list \<Rightarrow> nat" where
  "disconnects es = length (filter is_disconnect es)"

lemma counts_simps [simp]:
  "connects [] = 0" "disconnects [] = 0"
  "connects (e # es) = of_bool (is_connect e) + connects es"
  "disconnects (e # es) = of_bool (is_disconnect e) + disconnects es"
  "connects (es @ fs) = connects es + connects fs" "disconnects (es @ fs) = disconnects es + disconnects fs"
  by (simp_all add: connects_def disconnects_def)

primrec task_due :: "ds_task option \<Rightarrow> nat" where
  "task_due None = 0"
| "task_due (Some c) = callback_due c"

abbreviation due :: "ds_thread \<Rightarrow> ('b, 'h) ds_pool \<Rightarrow> nat" where
  "due t s \<equiv> task_due (dp_task s t)"

lemma task_due_next [simp]: "task_due (case x of Inl st \<Rightarrow> None | Inr c \<Rightarrow> Some c) = next_due x"
  by (cases x) simp_all

text \<open>The handlers the two servers were given.\<close>

definition tables_ok :: "('b, 'h) distributed_server \<Rightarrow> bool" where
  "tables_ok d \<longleftrightarrow>
     (\<forall>p. Server_target p (ds_tcpServer d) \<in> {ForwardRequestToHandler, HandleConnectAck}) \<and>
     (\<forall>p. Server_target p (ds_udpServer d) \<in> {ForwardRequestToHandler, HandleConnect})"

text \<open>The map of the connector lists exactly the clients whose read loop runs, each under its address.\<close>

definition map_is_running :: "('b, 'h) ds_pool \<Rightarrow> bool" where
  "map_is_running s \<longleftrightarrow> (\<forall>a k. cn_clients (dp_connector s) a = Some k \<longleftrightarrow>
     running k s \<and> address_of k (dp_connector s) = a)"

definition callbacks_made :: "bool \<Rightarrow> bool \<Rightarrow> ('b, 'h) ds_pool \<Rightarrow> bool" where
  "callbacks_made cc dc s \<longleftrightarrow>
     ds_has_connect_callback (dp_server s) = cc \<and> ds_has_disconnect_callback (dp_server s) = dc \<and>
     (cc \<longrightarrow>
        connects (dp_events s) + due TcpServerThread s + due UdpServerThread s =
          length (cn_objects (dp_connector s))) \<and>
     (dc \<longrightarrow> disconnects (dp_events s) = length (dp_ended s))"

definition ds_pool_inv :: "bool \<Rightarrow> bool \<Rightarrow> ('b, 'h) ds_pool \<Rightarrow> bool" where
  "ds_pool_inv cc dc s \<longleftrightarrow>
     ds_interfaces (dp_server s) \<noteq> [] \<and> ds_peers (dp_server s) = {} \<and> tables_ok (dp_server s) \<and>
     (\<forall>t c. dp_task s t = Some c \<longrightarrow> task_ok t c) \<and>
     connector_inv (dp_connector s) \<and> map_is_running s \<and>
     distinct (dp_ended s) \<and> (\<forall>k \<in> set (dp_ended s). k < length (cn_objects (dp_connector s))) \<and>
     callbacks_made cc dc s"

lemma ds_pool_invI:
  assumes "ds_pool_inv cc dc s" "ds_interfaces (dp_server s') = ds_interfaces (dp_server s)"
    "ds_peers (dp_server s') \<subseteq> ds_peers (dp_server s)" "tables_ok (dp_server s')"
    "\<And>t c. dp_task s' t = Some c \<Longrightarrow> task_ok t c" "connector_inv (dp_connector s')"
    "map_is_running s'" "distinct (dp_ended s')"
    "\<And>k. k \<in> set (dp_ended s') \<Longrightarrow> k < length (cn_objects (dp_connector s'))" "callbacks_made cc dc s'"
  shows "ds_pool_inv cc dc s'"
  using assms by (simp add: ds_pool_inv_def)

lemma ds_pool_invD:
  "ds_pool_inv cc dc s \<Longrightarrow> ds_interfaces (dp_server s) \<noteq> []" "ds_pool_inv cc dc s \<Longrightarrow> ds_peers (dp_server s) = {}"
  "ds_pool_inv cc dc s \<Longrightarrow> tables_ok (dp_server s)"
  "ds_pool_inv cc dc s \<Longrightarrow> dp_task s t = Some c \<Longrightarrow> task_ok t c"
  "ds_pool_inv cc dc s \<Longrightarrow> connector_inv (dp_connector s)" "ds_pool_inv cc dc s \<Longrightarrow> map_is_running s"
  "ds_pool_inv cc dc s \<Longrightarrow> distinct (dp_ended s)"
  "ds_pool_inv cc dc s \<Longrightarrow> k \<in> set (dp_ended s) \<Longrightarrow> k < length (cn_objects (dp_connector s))"
  "ds_pool_inv cc dc s \<Longrightarrow> callbacks_made cc dc s"
  by (simp_all add: ds_pool_inv_def)

lemma running_entry:
  "ds_pool_inv cc dc s \<Longrightarrow> running k s \<Longrightarrow>
   cn_clients (dp_connector s) (address_of k (dp_connector s)) = Some k"
  using ds_pool_invD(6) [of cc dc s] by (simp add: map_is_running_def)

text \<open>A new table entry for a protocol without a handler is empty, so no request goes elsewhere.\<close>

lemma lookup_keeps_target [simp]: "Server_target q (snd (Server_lookup p s)) = Server_target q s"
  by (auto simp: Server_target_def Server_lookup_def split: option.split)

lemma TcpServer_receive_cases:
  assumes "TcpServer_receive s w = Ret (q, s', w')"
  shows "Server_target p s' = Server_target p s \<and>
    (\<forall>h r. q = Some (h, r) \<longrightarrow> 0 \<le> tr_clientSocketFd r \<and> (\<exists>p. h = Server_target p s))"
  using assms by (auto simp: TcpServer_receive_def outcome_simps Let_def TcpRequest_new_def
      split: if_splits prod.splits option.splits)

lemma UdpServer_receive_cases:
  assumes "UdpServer_receive s w = Ret (q, s', w')"
  shows "Server_target p s' = Server_target p s \<and>
    (\<forall>h r. q = Some (h, r) \<longrightarrow> announcement_ok (UdpReq r) \<and> (\<exists>p. h = Server_target p s))"
  using assms by (auto simp: UdpServer_receive_def outcome_simps Let_def UdpRequest_new_def
      announcement_ok_def wf_message_def split: if_splits)

lemma connector_inv_with_peer:
  assumes inv: "connector_inv cn" and c: "open_client c" and fresh: "cn_clients cn (getClientInAddr c) = None"
  shows "connector_inv (with_peer (getClientInAddr c) c cn)"
proof -
  have "entry_ok (with_peer (getClientInAddr c) c cn) a k" if "entry_ok cn a k" for a k
    using that by (auto simp: with_peer_def entry_ok_def nth_append)
  moreover have "entry_ok (with_peer (getClientInAddr c) c cn) (getClientInAddr c) (length (cn_objects cn))"
    using c by (simp add: with_peer_def entry_ok_def open_client_def new_inv)
  ultimately show ?thesis using inv by (auto simp: connector_inv_def with_peer_def)
qed

lemma peer_turn_cases:
  assumes "DistributedServer_peer_turn B a k d w = Ret (continue, es, d', w')"
  obtains (ended) c g where "\<not> continue" "es = (if ds_has_disconnect_callback d then [PeerDisconnect a] else [])"
      "d' = d\<lparr>ds_connector := (ds_connector d)\<lparr>cn_clients := (cn_clients (ds_connector d))(a := None),
         cn_objects := (cn_objects (ds_connector d))[k := \<lparr>ic_client = c, ic_channelManager = g\<rparr>]\<rparr>,
         ds_peers := ds_peers d - {a}\<rparr>"
      "\<exists>es. Connector_runClient_turn B a k (ds_connector d) w = Ret (False, es, ds_connector d', w')"
  | (forwarded) g where "continue" "connects es = 0" "disconnects es = 0"
      "d' = d\<lparr>ds_connector := put_manager k g (ds_connector d)\<rparr>"
      "\<exists>es. Connector_runClient_turn B a k (ds_connector d) w = Ret (True, es, ds_connector d', w')"
proof -
  from assms obtain es0 cn where t: "Connector_runClient_turn B a k (ds_connector d) w = Ret (continue, es0, cn, w')"
    "connector_events es0 (d\<lparr>ds_connector := cn\<rparr>) = (es, d')"
    by (auto simp: DistributedServer_peer_turn_def outcome_simps case_prod_beta' prod_eq_iff)
  show ?thesis
  proof (rule runClient_turn_cases [OF t(1)], goal_cases ended forwarded)
    case (ended st mo w1 c g w2)
    with t show ?case
      by (intro that(1) [of c g]) (auto simp: DistributedServer_onConnectorDisconnect_def)
  next
    case (forwarded m w1 res g)
    obtain st p ch where res: "res = (st, p, ch)" by (cases res)
    from t(1) turn_forwards [OF forwarded(1) forwarded(2) [unfolded res], of a]
    have es0: "es0 = (case ch of None \<Rightarrow> [] | Some r \<Rightarrow> [StartHandler (Connector_target p (ds_connector d)) k
       (InternalRequest_new p (cl_clientAddr (client_of k (ds_connector d))) r)])" by simp
    with t(2) forwarded(4) have "d' = d\<lparr>ds_connector := cn\<rparr>" "connects es = 0" "disconnects es = 0"
      by (auto split: option.splits)
    with t forwarded show ?case by (intro that(2) [of g]) auto
  qed
qed

text \<open>
  The handlers of the user leave the server to its own functions: what they do with it are the calls
  that are steps of their own.
\<close>

definition leaves_server :: "('b, 'h, 'w) user_handlers \<Rightarrow> bool" where
  "leaves_server user \<longleftrightarrow>
     (\<forall>h req d w st es d' w'. user h req d w = Ret (st, es, d', w') \<longrightarrow> d' = d \<and> es = [])"

text \<open>The parts of the invariant under the changes the steps make.\<close>

lemma callbacks_madeI:
  assumes "callbacks_made cc dc s"
    and "ds_has_connect_callback (dp_server s') = ds_has_connect_callback (dp_server s)"
    and "ds_has_disconnect_callback (dp_server s') = ds_has_disconnect_callback (dp_server s)"
    and "ds_has_connect_callback (dp_server s) \<Longrightarrow>
      connects (dp_events s') + due TcpServerThread s' + due UdpServerThread s' + length (cn_objects (dp_connector s)) =
      connects (dp_events s) + due TcpServerThread s + due UdpServerThread s + length (cn_objects (dp_connector s'))"
    and "ds_has_disconnect_callback (dp_server s) \<Longrightarrow>
      disconnects (dp_events s') + length (dp_ended s) = disconnects (dp_events s) + length (dp_ended s')"
  shows "callbacks_made cc dc s'"
  using assms unfolding callbacks_made_def by linarith

lemma map_is_running_objects:
  assumes "map_is_running s" "dp_ended s' = dp_ended s"
    "cn_clients (dp_connector s') = cn_clients (dp_connector s)"
    "length (cn_objects (dp_connector s')) = length (cn_objects (dp_connector s))"
    "\<And>k. client_of k (dp_connector s') = client_of k (dp_connector s)"
  shows "map_is_running s'"
  using assms by (simp add: map_is_running_def running_def)

lemma map_is_running_ended:
  assumes m: "map_is_running s" and k: "running k s" and s': "dp_ended s' = k # dp_ended s"
    "cn_clients (dp_connector s') = (cn_clients (dp_connector s))(address_of k (dp_connector s) := None)"
    "length (cn_objects (dp_connector s')) = length (cn_objects (dp_connector s))"
    "\<And>l. l \<noteq> k \<Longrightarrow> client_of l (dp_connector s') = client_of l (dp_connector s)"
  shows "map_is_running s'"
  unfolding map_is_running_def
proof (intro allI)
  fix a l
  have entry: "cn_clients (dp_connector s) b = Some j \<longleftrightarrow> running j s \<and> address_of j (dp_connector s) = b" for b j
    using m by (simp add: map_is_running_def)
  have "running l s' \<longleftrightarrow> running l s \<and> l \<noteq> k" using s'(1,3) by (auto simp: running_def)
  moreover have "running l s \<Longrightarrow> l \<noteq> k \<Longrightarrow> address_of l (dp_connector s) \<noteq> address_of k (dp_connector s)"
    using entry [of "address_of k (dp_connector s)" l] entry [of "address_of k (dp_connector s)" k] k by auto
  ultimately show "cn_clients (dp_connector s') a = Some l \<longleftrightarrow>
      running l s' \<and> address_of l (dp_connector s') = a"
    using s'(2,4) entry [of a l] by (cases "l = k") auto
qed

lemma client_of_put_manager [simp]: "client_of l (put_manager k g cn) = client_of l cn"
  by (cases "l = k") simp_all

text \<open>Steps that change at most a manager and what the process will be given next.\<close>

lemma quiet_step:
  assumes inv: "ds_pool_inv cc dc s" and "dp_ended s' = dp_ended s" "connects (dp_events s') = connects (dp_events s)"
    "disconnects (dp_events s') = disconnects (dp_events s)" "tables_ok (dp_server s')"
    and tasks: "\<And>t c. dp_task s' t = Some c \<Longrightarrow> task_ok t c" "\<And>t. due t s' = due t s"
    and server: "ds_interfaces (dp_server s') = ds_interfaces (dp_server s)"
      "ds_peers (dp_server s') = ds_peers (dp_server s)"
      "ds_has_connect_callback (dp_server s') = ds_has_connect_callback (dp_server s)"
      "ds_has_disconnect_callback (dp_server s') = ds_has_disconnect_callback (dp_server s)"
    and cn: "connector_inv (dp_connector s')" "cn_clients (dp_connector s') = cn_clients (dp_connector s)"
      "length (cn_objects (dp_connector s')) = length (cn_objects (dp_connector s))"
      "\<And>k. client_of k (dp_connector s') = client_of k (dp_connector s)"
  shows "ds_pool_inv cc dc s'"
  using assms ds_pool_invD(7,8) [OF inv]
  by (intro ds_pool_invI [OF inv] callbacks_madeI [OF ds_pool_invD(9) [OF inv]]
      map_is_running_objects [OF ds_pool_invD(6) [OF inv]]) auto

lemma receive_step:
  assumes inv: "ds_pool_inv cc dc s" and tb: "tables_ok d"
    and d: "d = (dp_server s)\<lparr>ds_tcpServer := x\<rparr> \<or> d = (dp_server s)\<lparr>ds_udpServer := x\<rparr>"
    and idle: "dp_task s t = None" and c: "\<And>c. q = Some c \<Longrightarrow> task_ok t c \<and> callback_due c = 0"
  shows "ds_pool_inv cc dc (s\<lparr>dp_server := d, dp_world := w, dp_task := (dp_task s)(t := q)\<rparr>)"
proof (rule quiet_step [OF inv])
  show "due u (s\<lparr>dp_server := d, dp_world := w, dp_task := (dp_task s)(t := q)\<rparr>) = due u s" for u
    using idle c by (cases q) auto
qed (use tb d c ds_pool_invD(4,5) [OF inv] in \<open>auto split: if_splits\<close>)

lemma handler_task_ok:
  "h \<in> {ForwardRequestToHandler, HandleConnectAck} \<Longrightarrow> 0 \<le> tr_clientSocketFd r \<Longrightarrow>
     task_ok TcpServerThread (handler_task h (TcpReq r)) \<and> callback_due (handler_task h (TcpReq r)) = 0"
  "h \<in> {ForwardRequestToHandler, HandleConnect} \<Longrightarrow> announcement_ok (UdpReq q) \<Longrightarrow>
     task_ok UdpServerThread (handler_task h (UdpReq q)) \<and> callback_due (handler_task h (UdpReq q)) = 0"
  by (auto simp: tcp_request_ok_def)

lemma accept_ok:
  assumes tb: "tables_ok d" and rc: "TcpServer_receive (ds_tcpServer d) w = Ret (q, srv, w')"
  shows "tables_ok (d\<lparr>ds_tcpServer := srv\<rparr>)"
    and "map_option (\<lambda>(h, r). handler_task h (TcpReq r)) q = Some c \<Longrightarrow>
      task_ok TcpServerThread c \<and> callback_due c = 0"
proof -
  note rc = TcpServer_receive_cases [OF rc]
  show "tables_ok (d\<lparr>ds_tcpServer := srv\<rparr>)" using rc tb by (simp add: tables_ok_def)
  assume "map_option (\<lambda>(h, r). handler_task h (TcpReq r)) q = Some c"
  then obtain h r where q: "q = Some (h, r)" "c = handler_task h (TcpReq r)" by auto
  with rc obtain p where "h = Server_target p (ds_tcpServer d)" "0 \<le> tr_clientSocketFd r" by blast
  with tb show "task_ok TcpServerThread c \<and> callback_due c = 0"
    unfolding q(2) by (intro handler_task_ok(1)) (simp_all only: tables_ok_def)
qed

lemma datagrams_ok:
  assumes tb: "tables_ok d" and rc: "UdpServer_receive (ds_udpServer d) w = Ret (q, srv, w')"
  shows "tables_ok (d\<lparr>ds_udpServer := srv\<rparr>)"
    and "map_option (\<lambda>(h, r). handler_task h (UdpReq r)) q = Some c \<Longrightarrow>
      task_ok UdpServerThread c \<and> callback_due c = 0"
proof -
  note rc = UdpServer_receive_cases [OF rc]
  show "tables_ok (d\<lparr>ds_udpServer := srv\<rparr>)" using rc tb by (simp add: tables_ok_def)
  assume "map_option (\<lambda>(h, r). handler_task h (UdpReq r)) q = Some c"
  then obtain h r where q: "q = Some (h, r)" "c = handler_task h (UdpReq r)" by auto
  with rc obtain p where "h = Server_target p (ds_udpServer d)" "announcement_ok (UdpReq r)" by blast
  with tb show "task_ok UdpServerThread c \<and> callback_due c = 0"
    unfolding q(2) by (intro handler_task_ok(2)) (simp_all only: tables_ok_def)
qed

lemma forward_keeps_server:
  assumes "leaves_server user" "forwardRequestToHandler user req d w = Ret (st, es, d', w')"
  shows "d' = d \<and> es = []"
  using assms unfolding forwardRequestToHandler_def leaves_server_def
  by (cases "DistributedServer_target (Request_getProtocol req) d") (simp_all, blast)

lemma handler_step:
  assumes inv: "ds_pool_inv cc dc s" and user: "leaves_server user" and t: "dp_task s t = Some c"
    and exec: "ds_exec user B c (dp_server s) (dp_world s) = Ret (next, es, d, w)"
  shows "ds_pool_inv cc dc (s\<lparr>dp_server := d, dp_events := dp_events s @ es, dp_world := w,
    dp_task := (dp_task s)(t := (case next of Inl st \<Rightarrow> None | Inr c \<Rightarrow> Some c))\<rparr>)" (is "ds_pool_inv cc dc ?s")
proof -
  note c = ds_pool_invD(4) [OF inv t]
  have others: "dp_task ?s u = Some c' \<Longrightarrow> u \<noteq> t \<Longrightarrow> task_ok u c'" for u c'
    using ds_pool_invD(4) [OF inv] by simp
  have unchanged: "ds_pool_inv cc dc ?s" if "d = dp_server s" "es = []" "callback_due c = 0" "next_due next = 0"
      "\<And>c'. next = Inr c' \<Longrightarrow> task_ok t c'"
  proof (rule quiet_step [OF inv])
    show "task_ok u c'" if "dp_task ?s u = Some c'" for u c'
      using that others \<open>\<And>c'. next = Inr c' \<Longrightarrow> task_ok t c'\<close> by (cases "u = t") (auto split: sum.splits)
  qed (use that t ds_pool_invD(3,5) [OF inv] in simp_all)
  show ?thesis
  proof (cases "calls_user c")
    case True
    then obtain req where "c = CallUser req" by (cases c) simp_all
    with exec forward_keeps_server [OF user] show ?thesis
      by (intro unchanged) (auto simp: outcome_simps)
  next
    case False
    from c False ds_pool_invD(1) [OF inv] exec show ?thesis
    proof (rule exec_cases, goal_cases quiet added called)
      case quiet
      then show ?case by (rule unchanged)
    next
      case (added cl c')
      have tb: "tables_ok d" using ds_pool_invD(3) [OF inv] added(1) by (simp add: tables_ok_def)
      have cn: "connector_inv (dp_connector ?s)"
        using connector_inv_with_peer [OF ds_pool_invD(5) [OF inv] added(2,3)] added(1) by simp
      note m = ds_pool_invD(6,8) [OF inv]
      have ends: "k \<in> set (dp_ended ?s) \<Longrightarrow> k < length (cn_objects (dp_connector ?s))" for k
        using m(2) [of k] by (auto simp: added(1) with_peer_def)
      have "\<forall>k. running k s \<longrightarrow> address_of k (dp_connector s) \<noteq> getClientInAddr cl"
        using running_entry [OF inv] added(3) by fastforce
      with m have map: "map_is_running ?s"
        by (auto simp: map_is_running_def running_def added(1) with_peer_def nth_append less_Suc_eq)
      have cb: "callbacks_made cc dc ?s"
        using added t by (cases t) (auto simp: with_peer_def intro!: callbacks_madeI [OF ds_pool_invD(9) [OF inv]])
      show ?case
        by (rule ds_pool_invI [OF inv _ _ _ _ cn map _ ends cb])
          (use added others tb ds_pool_invD(7) [OF inv] in \<open>auto split: if_splits\<close>)
    next
      case (called ip st)
      have cb: "callbacks_made cc dc ?s"
        using called t by (cases t) (auto intro!: callbacks_madeI [OF ds_pool_invD(9) [OF inv]])
      show ?case
        by (rule ds_pool_invI [OF inv _ _ _ _ _ _ _ _ cb])
          (use called others ds_pool_invD(3,5,7,8) [OF inv] in
            \<open>auto intro!: map_is_running_objects [OF ds_pool_invD(6) [OF inv]] split: if_splits\<close>)
    qed
  qed
qed

lemma read_loop_step:
  assumes inv: "ds_pool_inv cc dc s" and k: "running k s"
    and turn: "DistributedServer_peer_turn B (address_of k (dp_connector s)) k (dp_server s) (dp_world s) =
      Ret (continue, es, d, w)"
  shows "ds_pool_inv cc dc (s\<lparr>dp_server := d, dp_events := dp_events s @ es, dp_world := w,
    dp_ended := if continue then dp_ended s else k # dp_ended s\<rparr>)" (is "ds_pool_inv cc dc ?s")
proof -
  let ?a = "address_of k (dp_connector s)"
  note entry = running_entry [OF inv k] and cinv = ds_pool_invD(5) [OF inv]
  show ?thesis
  proof (rule peer_turn_cases [OF turn], goal_cases ended forwarded)
    case (ended c g)
    from ended(4) runClient_turn_inv [OF cinv entry] have cn: "connector_inv (dp_connector ?s)" by auto
    have "map_is_running ?s"
      by (rule map_is_running_ended [OF ds_pool_invD(6) [OF inv] k]) (simp_all add: ended(1,3))
    with ended cn k ds_pool_invD(2,3,4,7,8) [OF inv] show ?case
      by (intro ds_pool_invI [OF inv])
        (auto simp: running_def tables_ok_def intro!: callbacks_madeI [OF ds_pool_invD(9) [OF inv]])
  next
    case (forwarded g)
    from forwarded(5) runClient_turn_inv [OF cinv entry] have cn: "connector_inv (dp_connector ?s)" by auto
    show ?case
      by (rule quiet_step [OF inv])
        (use forwarded cn ds_pool_invD(3,4) [OF inv] in \<open>auto simp: tables_ok_def\<close>)
  qed
qed

lemma multicast_keeps:
  assumes "DistributedServer_multicastMessage m d w = Ret (st, d', w')"
  shows "\<exists>c. d' = d\<lparr>ds_multicastClient := c\<rparr>"
  using assms by (auto intro: exI [of _ "ds_multicastClient d"] simp: DistributedServer_multicastMessage_def Let_def outcome_simps
      split: prod.splits if_splits)

lemma request_keeps:
  assumes "DistributedServer_sendInternalRequest B a d = Ret (res, d')"
  obtains x cn where "Connector_sendRequest B a (ds_connector d) = Ret (x, cn)" "d' = d\<lparr>ds_connector := cn\<rparr>"
    "cn_clients cn = cn_clients (ds_connector d)" "length (cn_objects cn) = length (cn_objects (ds_connector d))"
    "\<And>k. client_of k cn = client_of k (ds_connector d)"
proof -
  from assms obtain x cn where s: "Connector_sendRequest B a (ds_connector d) = Ret (x, cn)"
    "d' = d\<lparr>ds_connector := cn\<rparr>"
    by (auto simp: DistributedServer_sendInternalRequest_def outcome_simps)
  have "cn = ds_connector d \<or> (\<exists>k g. cn = put_manager k g (ds_connector d))"
    using s(1) by (auto simp: Connector_sendRequest_def outcome_simps Let_def split: option.splits if_splits)
  then show ?thesis by (intro that [OF s]) auto
qed

lemma ds_step_inv:
  assumes "ds_step user B s s'" "leaves_server user" "ds_pool_inv cc dc s"
  shows "ds_pool_inv cc dc s'"
  using assms
proof cases
  case (accept q srv w)
  note ok = accept_ok [OF ds_pool_invD(3) [OF assms(3)] accept(3)]
  show ?thesis unfolding accept(1) by (rule receive_step [OF assms(3) ok(1) _ accept(2) ok(2), where x = srv]) simp
next
  case (datagrams q srv w)
  note ok = datagrams_ok [OF ds_pool_invD(3) [OF assms(3)] datagrams(3)]
  show ?thesis unfolding datagrams(1) by (rule receive_step [OF assms(3) ok(1) _ datagrams(2) ok(2), where x = srv]) simp
next
  case (handler t c "next" es d w)
  show ?thesis unfolding handler(1) by (rule handler_step [OF assms(3,2) handler(2,3)])
next
  case (read_loop k continue es d w)
  show ?thesis unfolding read_loop(1) by (rule read_loop_step [OF assms(3) read_loop(2,3)])
next
  case (register p h)
  show ?thesis
    by (rule quiet_step [OF assms(3)])
      (use ds_pool_invD(3,4,5) [OF assms(3)] in
        \<open>auto simp: register DistributedServer_addHandler_def tables_ok_def\<close>)
next
  case (request a res d)
  from request(2) show ?thesis
  proof (rule request_keeps, goal_cases)
    case (1 x cn)
    then have "connector_inv cn" using sendRequest_inv [OF ds_pool_invD(5) [OF assms(3)]] by blast
    with 1 show ?case
      by (intro quiet_step [OF assms(3)])
        (use ds_pool_invD(3,4) [OF assms(3)] in \<open>auto simp: request(1) tables_ok_def\<close>)
  qed
next
  case (multicast m st d w)
  from multicast_keeps [OF multicast(2)] obtain c where "d = (dp_server s)\<lparr>ds_multicastClient := c\<rparr>" ..
  then show ?thesis
    by (intro quiet_step [OF assms(3)])
      (use ds_pool_invD(3,4,5) [OF assms(3)] in \<open>auto simp: multicast(1) tables_ok_def\<close>)
next
  case (channel k x g w)
  note entry = running_entry [OF assms(3) channel(2)]
  have "mg_inv (manager_of k (dp_connector s))"
    using ds_pool_invD(5) [OF assms(3)] entry by (simp add: connector_inv_def entry_ok_def)
  from manager_step_inv [OF this channel(4)]
  have "connector_inv (put_manager k g (dp_connector s))"
    by (rule put_manager_inv [OF ds_pool_invD(5) [OF assms(3)] entry])
  then show ?thesis
    by (intro quiet_step [OF assms(3)])
      (use ds_pool_invD(3,4) [OF assms(3)] in \<open>auto simp: channel(1) tables_ok_def\<close>)
next
  case (network ins dgrams conns names freed stack script)
  show ?thesis
    by (rule quiet_step [OF assms(3)]) (use ds_pool_invD(3,4,5) [OF assms(3)] in \<open>auto simp: network\<close>)
qed

lemma ds_start_inv:
  assumes new: "DistributedServer_new name grp is port dh cc dc x v = Ret (Inr d, w)" and ifs: "is \<noteq> []"
  shows "ds_pool_inv cc dc (ds_start d w)"
proof (rule DistributedServer_new_cases [OF new], goal_cases failed made)
  case (made tcp udp w1 w2)
  then have "srv_defaultHandler tcp = ForwardRequestToHandler" "srv_defaultHandler udp = ForwardRequestToHandler"
    using TcpServer_new_handlers UdpServer_new_handlers by metis+
  then have "tables_ok d" using made(3) by (simp add: tables_ok_def Server_target_def Server_lookup_def)
  then show ?case
    using made(3) ifs
    by (simp add: ds_pool_inv_def ds_start_def callbacks_made_def map_is_running_def running_def
        Connector_new_def connector_inv_def)
qed simp

lemma ds_reached_inv:
  "ds_reached user B s0 s \<Longrightarrow> leaves_server user \<Longrightarrow> ds_pool_inv cc dc s0 \<Longrightarrow> ds_pool_inv cc dc s"
  by (induction rule: ds_reached.induct) (simp_all add: ds_step_inv)

section \<open>The end of a server\<close>

text \<open>
  The class has no destructor of its own; its members are destroyed in the reverse order of their
  declarations. The destruction of a \<^verbatim>\<open>std::thread\<close> that was neither joined nor detached ends the process, and
  nothing joins or detaches the two server threads. A server that was never run has no peers.
\<close>

definition DistributedServer_destroy ::
    "ds_thread list \<Rightarrow> ('b, 'h) distributed_server \<Rightarrow> 'z world_scheme \<Rightarrow> 'z world_scheme outcome" where
  "DistributedServer_destroy threads d w =
     (if threads \<noteq> [] then Undef
      else Ret (Server_destroy (ds_tcpServer d) (Server_destroy (ds_udpServer d)
             (MulticastClient_destroy (ds_multicastClient d) w))))"

lemma os_listen_fds_ok: "os_listen f w = (a, w') \<Longrightarrow> fds_ok w \<Longrightarrow> fds_ok w'"
  by (auto simp: os_listen_def os_control_def os_answer_def fds_ok_def split: if_splits list.splits)

section \<open>Schedules\<close>

text \<open>A state in which a thread has come to a task, on a server and in a process.\<close>

definition at_task :: "ds_thread \<Rightarrow> ds_task option \<Rightarrow> ('b, 'h) distributed_server \<Rightarrow> world \<Rightarrow>
    ('b, 'h) ds_pool \<Rightarrow> ('b, 'h) ds_pool" where
  "at_task t q d w s = s\<lparr>dp_server := d, dp_world := w, dp_task := (dp_task s)(t := q)\<rparr>"

lemma at_task_simps [simp]:
  "dp_server (at_task t q d w s) = d" "dp_world (at_task t q d w s) = w"
  "dp_events (at_task t q d w s) = dp_events s" "dp_ended (at_task t q d w s) = dp_ended s"
  "dp_task (at_task t q d w s) u = (if u = t then q else dp_task s u)"
  by (simp_all add: at_task_def)

lemma at_start:
  assumes "ds_reached user B s0 s" "dp_task s t = Some c"
  shows "ds_reached user B s0 (at_task t (Some c) (dp_server s) (dp_world s) s)"
proof -
  have "(dp_task s)(t \<mapsto> c) = dp_task s" using assms(2) by auto
  with assms(1) show ?thesis by (simp add: at_task_def)
qed

lemma at_goes_on:
  assumes "ds_reached user B s0 (at_task t (Some c) d w s)" "ds_exec user B c d w = Ret (Inr c', [], d', w')"
  shows "ds_reached user B s0 (at_task t (Some c') d' w' s)"
  using ds_reached.step [OF assms(1) ds_step.handler [of _ t c]] assms(2)
  by (simp add: at_task_def)

lemma at_returns:
  assumes "ds_reached user B s0 (at_task t (Some c) d w s)" "ds_exec user B c d w = Ret (Inl st, es, d', w')"
  shows "ds_reached user B s0 (at_task t None d' w' (s\<lparr>dp_events := dp_events s @ es\<rparr>))"
  using ds_reached.step [OF assms(1) ds_step.handler [of _ t c]] assms(2)
  by (cases s) (simp add: at_task_def)

text \<open>The announcement of another server arrives, and the UDP thread goes as far as it gets alone.\<close>

definition awaiting_answer :: "addrinfo \<Rightarrow> fd \<Rightarrow> (sockaddr \<times> byte list) list \<Rightarrow>
    'z world_scheme \<Rightarrow> 'z world_scheme" where
  "awaiting_answer p u ds w =
     (connected_to p w)
       \<lparr>w_dgrams := (w_dgrams w)(u := ds),
        w_out := (w_out w)(w_next w := w_out w (w_next w) @ frame (connectAck_message kConnectAckRequestProtocol))\<rparr>"

lemma UdpServer_receive_pair:
  assumes "w_script w = []" "w_open w (srv_serverSocketFd s)" "wf_message m"
    and "w_dgrams w (srv_serverSocketFd s) = (a, encode_header (header m)) # (a, data m) # ds"
  shows "UdpServer_receive s w = Ret (Some (Server_target (protocol (header m)) s, UdpRequest_new a m),
    snd (Server_lookup (protocol (header m)) s), w\<lparr>w_dgrams := (w_dgrams w)(srv_serverSocketFd s := ds)\<rparr>)"
proof -
  let ?f = "srv_serverSocketFd s"
  let ?w1 = "w\<lparr>w_dgrams := (w_dgrams w)(?f := (a, data m) # ds)\<rparr>"
  have m: "resize (body_len m) (data m) = data m" and len: "length (data m) = body_len m"
    using assms(3) by (simp_all add: wf_message_def resize_def)
  have "os_recvfrom ?f 8 w = Ret (8, encode_header (header m), Some a, ?w1)"
    using assms by (simp add: os_recvfrom_no_fault)
  moreover have "os_recvfrom ?f (body_len m) ?w1 =
      Ret (int (body_len m), data m, Some a, w\<lparr>w_dgrams := (w_dgrams w)(?f := ds)\<rparr>)"
    using os_recvfrom_no_fault [of ?w1 ?f a "data m" ds "body_len m"] assms len by simp
  ultimately show ?thesis
    using m len
    by (simp add: UdpServer_receive_def int_less_u32_def kMessageHeaderLength_def UdpRequest_new_def Let_def)
qed

lemma udp_thread_waits:
  assumes s: "ds_reached user B s0 s" "dp_task s UdpServerThread = None" "dp_server s = d" "dp_world s = w"
    and d: "ds_interfaces d = i # is" "i \<noteq> inet_ntop (sin_addr src)" "sin_addr src \<notin> ds_peers d"
    and udp: "srv_handlers (ds_udpServer d) kConnectRequestProtocol = Some (Some HandleConnect)"
      "w_open w (srv_serverSocketFd (ds_udpServer d))"
      "w_dgrams w (srv_serverSocketFd (ds_udpServer d)) =
         (src, encode_header \<lparr>len = 2, protocol = kConnectRequestProtocol\<rparr>) # (src, le16 port) # ds"
    and net: "reachable (inet_ntop (sin_addr src)) port p w"
  obtains req where "udp_request_ok req" "ds_reached user B s0 (at_task UdpServerThread
    (Some (ConnectReceive req (peer_client (inet_ntop (sin_addr src)) port w) (sin_addr src))) d
    (awaiting_answer p (srv_serverSocketFd (ds_udpServer d)) ds w) s)"
proof -
  let ?u = "ds_udpServer d" and ?m = "connect_message port" and ?ip = "sin_addr src" and ?t = UdpServerThread
  let ?w1 = "w\<lparr>w_dgrams := (w_dgrams w)(srv_serverSocketFd ?u := ds)\<rparr>"
  let ?c = "peer_client (inet_ntop ?ip) port w"
  let ?q = "UdpReq (UdpRequest_new src ?m)" and ?r = "UdpReq ((UdpRequest_new src ?m)\<lparr>ur_message := None\<rparr>)"
  have tb: "Server_target 0 ?u = HandleConnect" "snd (Server_lookup 0 ?u) = ?u"
    using udp(1) by (simp_all add: Server_target_def Server_lookup_def kConnectRequestProtocol_def)
  have sc: "w_script w = []" using net by (simp add: reachable_def)
  have "UdpServer_receive ?u w = Ret (Some (HandleConnect, UdpRequest_new src ?m), ?u, ?w1)"
    using UdpServer_receive_pair [OF sc udp(2), of ?m src ds] udp(3) tb by (simp add: kConnectRequestProtocol_def)
  then have "ds_reached user B s0 (at_task ?t (Some (ConnectCheck ?q)) d ?w1 s)"
    using ds_reached.step [OF s(1) ds_step.datagrams [OF s(2)]] s(3,4) by (simp add: at_task_def)
  moreover have "ds_exec user B (ConnectCheck ?q) d ?w1 = Ret (Inr (ConnectOpen ?r ?ip port), [], d, ?w1)"
    using d by (simp add: UdpRequest_receiveMessage_def UdpRequest_new_def ASSERT_OK_AND_ASSIGN_def mem_read_def Let_def)
  ultimately have r2: "ds_reached user B s0 (at_task ?t (Some (ConnectOpen ?r ?ip port)) d ?w1 s)"
    by (rule at_goes_on)
  have net1: "reachable (inet_ntop ?ip) port p ?w1" using net by (simp add: reachable_def)
  have "peer_client h q ?w1 = peer_client h q w" for h q by (simp add: peer_client_def)
  then have "ds_exec user B (ConnectOpen ?r ?ip port) d ?w1 = Ret (Inr (ConnectSend ?r ?c ?ip), [], d, connected_to p ?w1)"
    using openSocket_reachable [OF net1] by simp
  with r2 have r3: "ds_reached user B s0 (at_task ?t (Some (ConnectSend ?r ?c ?ip)) d (connected_to p ?w1) s)"
    by (rule at_goes_on)
  have "ds_exec user B (ConnectSend ?r ?c ?ip) d (connected_to p ?w1) = Ret (Inr (ConnectReceive ?r ?c ?ip), [], d,
      awaiting_answer p (srv_serverSocketFd ?u) ds w)"
    using sendMessage_ack [of "connected_to p ?w1" ?c kConnectAckRequestProtocol] net
    by (simp add: peer_client_def reachable_def awaiting_answer_def connected_to_def)
  with r3 have "ds_reached user B s0 (at_task ?t (Some (ConnectReceive ?r ?c ?ip)) d
      (awaiting_answer p (srv_serverSocketFd ?u) ds w) s)"
    by (rule at_goes_on)
  then show ?thesis by (intro that [of ?r]) (simp_all add: udp_request_ok_def)
qed

text \<open>A connection arrives with the acknowledgement of another server, and the TCP thread answers it.\<close>

definition answered :: "fd \<Rightarrow> sockaddr list \<Rightarrow> byte list \<Rightarrow> 'z world_scheme \<Rightarrow> 'z world_scheme" where
  "answered t cs rest w =
     w\<lparr>w_conns := (w_conns w)(t := cs), w_open := (w_open w)(w_next w := True), w_next := w_next w + 1,
       w_in := (w_in w)(w_next w := rest),
       w_out := (w_out w)(w_next w := w_out w (w_next w) @ frame (connectAck_message kConnectAckResponseProtocol))\<rparr>"

lemma tcp_thread_answers:
  assumes s: "ds_reached user B s0 s" "dp_task s TcpServerThread = None" "dp_server s = d" "dp_world s = w"
    and tcp: "srv_handlers (ds_tcpServer d) kConnectAckRequestProtocol = Some (Some HandleConnectAck)"
    and kernel: "w_script w = []" "0 \<le> w_next w" "w_conns w (srv_serverSocketFd (ds_tcpServer d)) = src # cs"
      "w_in w (w_next w) = frame (connectAck_message kConnectAckRequestProtocol) @ rest"
  obtains r where "tr_clientSocketFd r = w_next w" "tr_clientAddr r = src" "\<not> tr_keepAlive r"
    "ds_reached user B s0 (at_task TcpServerThread (Some (AckAdd r)) d
       (answered (srv_serverSocketFd (ds_tcpServer d)) cs rest w) s)"
proof -
  let ?f = "w_next w" and ?m = "connectAck_message kConnectAckRequestProtocol" and ?u = "ds_tcpServer d"
    and ?t = TcpServerThread
  let ?w1 = "w\<lparr>w_conns := (w_conns w)(srv_serverSocketFd ?u := cs), w_open := (w_open w)(?f := True), w_next := ?f + 1\<rparr>"
  let ?w2 = "?w1\<lparr>w_in := (w_in w)(?f := rest)\<rparr>"
  let ?q = "TcpRequest_new ?f src ?m" and ?r = "(TcpRequest_new ?f src ?m)\<lparr>tr_message := None\<rparr>"
  have acc: "os_accept (srv_serverSocketFd ?u) w = Ret (?f, Some src, ?w1)"
    using kernel by (simp add: os_accept_def os_new_fd_def)
  have rd: "readMessage ?f ?w1 = ((OkStatus, Some ?m), ?w2)"
    using readMessage_complete [of ?w1 ?f ?m rest] kernel by simp
  have tb: "Server_target kConnectAckRequestProtocol ?u = HandleConnectAck"
    "snd (Server_lookup kConnectAckRequestProtocol ?u) = ?u"
    using tcp by (simp_all add: Server_target_def Server_lookup_def)
  have "TcpServer_receive ?u w = Ret (Some (HandleConnectAck, ?q), ?u, ?w2)"
    using acc rd tb kernel(2) by (simp add: TcpServer_receive_def TcpRequest_new_def Let_def)
  then have "ds_reached user B s0 (at_task ?t (Some (AckAnswer (TcpReq ?q))) d ?w2 s)"
    using ds_reached.step [OF s(1) ds_step.accept [OF s(2)]] s(3,4) by (simp add: at_task_def)
  moreover have "ds_exec user B (AckAnswer (TcpReq ?q)) d ?w2 = Ret (Inr (AckAdd ?r), [], d,
      answered (srv_serverSocketFd ?u) cs rest w)"
    using writeMessage_no_fault [of ?w2 ?f "connectAck_message kConnectAckResponseProtocol"] kernel
    by (simp add: TcpRequest_receiveMessage_def TcpRequest_new_def TcpRequest_sendMessage_def
        ASSERT_OK_AND_ASSIGN_def ASSERT_OK_def answered_def sync_length_wf)
  ultimately have "ds_reached user B s0 (at_task ?t (Some (AckAdd ?r)) d
      (answered (srv_serverSocketFd ?u) cs rest w) s)"
    by (rule at_goes_on)
  then show ?thesis by (intro that [of ?r]) (simp_all add: TcpRequest_new_def)
qed

text \<open>A connection fails, and its read loop ends.\<close>

lemma read_loop_ends:
  assumes inv: "ds_pool_inv cc dc s" and s: "ds_reached user B s0 s"
    and k: "running k s" "address_of k (dp_connector s) = a"
    and fail: "TcpClient_receiveMessage (client_of k (dp_connector s)) (dp_world s) = ((st, mo), w)" "st \<noteq> OkStatus"
  obtains s' where "ds_reached user B s0 s'" "dp_task s' = dp_task s"
    "dp_events s' = dp_events s @ (if dc then [PeerDisconnect a] else [])"
    "cn_clients (dp_connector s') a = None" "ds_has_connect_callback (dp_server s') = cc"
proof -
  have e: "connector_inv (dp_connector s)" "cn_clients (dp_connector s) a = Some k"
    using ds_pool_invD(5) [OF inv] running_entry [OF inv k(1)] k(2) by simp_all
  have flags: "ds_has_connect_callback (dp_server s) = cc" "ds_has_disconnect_callback (dp_server s) = dc"
    using ds_pool_invD(9) [OF inv] by (simp_all add: callbacks_made_def)
  obtain c g where "Connector_runClient_turn B a k (dp_connector s) (dp_world s) = Ret (False, [DisconnectCallback a],
      (dp_connector s)\<lparr>cn_clients := (cn_clients (dp_connector s))(a := None),
         cn_objects := (cn_objects (dp_connector s))[k := \<lparr>ic_client = c, ic_channelManager = g\<rparr>]\<rparr>,
      os_close (cl_clientFd (client_of k (dp_connector s))) w)"
    by (rule failed_turn [OF e fail])
  then obtain d w' where "DistributedServer_peer_turn B (address_of k (dp_connector s)) k (dp_server s) (dp_world s) =
      Ret (False, if dc then [PeerDisconnect a] else [], d, w')"
      "cn_clients (ds_connector d) a = None" "ds_has_connect_callback d = cc"
    using flags k(2) by (simp add: DistributedServer_peer_turn_def DistributedServer_onConnectorDisconnect_def)
  with ds_reached.step [OF s ds_step.read_loop [OF k(1)]] that show thesis by fastforce
qed

lemma ds_reached_trans: "ds_reached user B s1 s2 \<Longrightarrow> ds_reached user B s0 s1 \<Longrightarrow> ds_reached user B s0 s2"
  by (induction rule: ds_reached.induct) (auto intro: ds_reached.step)

lemma gets_through:
  assumes "ds_pool_inv cc dc s" "leaves_server user" "dp_task s t = Some c" "\<not> calls_user c"
  shows "\<exists>s'. ds_reached user B s s' \<and> (\<forall>u. u \<noteq> t \<longrightarrow> dp_task s' u = dp_task s u) \<and>
    (case dp_task s' t of
       None \<Rightarrow> True
     | Some c' \<Rightarrow> ds_exec user B c' (dp_server s') (dp_world s') = Undef)"
  using assms
proof (induction "task_rank c" arbitrary: c s rule: less_induct)
  case less
  note inv = less.prems(1) and t = less.prems(3)
  note ok = ds_pool_invD(4) [OF inv t] ds_pool_invD(1) [OF inv]
  show ?case
  proof (cases "ds_exec user B c (dp_server s) (dp_world s)")
    case (Ret x)
    obtain "next" es d w where x: "x = (next, es, d, w)" by (cases x)
    let ?s = "s\<lparr>dp_server := d, dp_events := dp_events s @ es, dp_world := w,
      dp_task := (dp_task s)(t := (case next of Inl st \<Rightarrow> None | Inr c \<Rightarrow> Some c))\<rparr>"
    have go: "ds_reached user B s ?s"
      using ds_reached.step [OF ds_reached.start ds_step.handler [OF t]] Ret x by simp
    show ?thesis
    proof (cases "next")
      case (Inl st)
      with go show ?thesis by (intro exI [of _ ?s]) simp
    next
      case (Inr c')
      have "task_rank c' < task_rank c" "\<not> calls_user c'"
        using ds_exec_next [of user B c] Ret x Inr by blast+
      moreover have "ds_pool_inv cc dc ?s" by (rule ds_reached_inv [OF go less.prems(2) inv])
      ultimately obtain s' where "ds_reached user B ?s s'" "\<forall>u. u \<noteq> t \<longrightarrow> dp_task s' u = dp_task ?s u"
        "case dp_task s' t of None \<Rightarrow> True
         | Some c' \<Rightarrow> ds_exec user B c' (dp_server s') (dp_world s') = Undef"
        using less.hyps [of c' ?s] less.prems(2) Inr by auto
      with go show ?thesis by (intro exI [of _ s']) (auto intro: ds_reached_trans)
    qed
  next
    case Undef
    with t show ?thesis by (intro exI [of _ s]) (simp add: ds_reached.start)
  next
    case Block
    with exec_not_Block [OF ok(1) less.prems(4) ok(2)] show ?thesis by blast
  qed
qed

section \<open>Properties\<close>

text \<open>
  C17. However the threads of a server interleave, with whatever the network and the kernel do: the map
  of the connector lists exactly the clients whose read loop runs, each under its address and in
  good order; every client was or will be announced to the user by one call of the connect callback,
  every read loop that ended by one call of the disconnect callback. The set of peers, which
  \<^verbatim>\<open>handleConnect\<close> consults, is always empty.
\<close>

theorem server_threads_inv:
  assumes "DistributedServer_new name grp is port dh cc dc x v = Ret (Inr d, w)" "is \<noteq> []"
    and "leaves_server user" "ds_reached user B (ds_start d w) s"
  shows "(\<forall>a k. cn_clients (dp_connector s) a = Some k \<longleftrightarrow>
      running k s \<and> address_of k (dp_connector s) = a) \<and>
    connector_inv (dp_connector s) \<and> distinct (dp_ended s) \<and> ds_peers (dp_server s) = {} \<and>
    (cc \<longrightarrow> connects (dp_events s) + due TcpServerThread s + due UdpServerThread s =
       length (cn_objects (dp_connector s))) \<and>
    (dc \<longrightarrow> disconnects (dp_events s) = length (dp_ended s))"
proof -
  note inv = ds_reached_inv [OF assms(4,3) ds_start_inv [OF assms(1,2)]]
  show ?thesis
    using ds_pool_invD(2,5,6,7,9) [OF inv] by (simp add: map_is_running_def callbacks_made_def)
qed


text \<open>Both threads at \<^verbatim>\<open>addClient\<close> with one address.\<close>

lemma race_for_address:
  assumes t: "dp_task s UdpServerThread = Some (ConnectAdd req c ip)" "dp_task s TcpServerThread = Some (AckAdd r)"
    and ok: "udp_request_ok req" "open_client c" "0 \<le> tr_clientSocketFd r" "\<not> tr_keepAlive r"
    and a: "getClientInAddr c = a" "sin_addr (tr_clientAddr r) = a" "cn_clients (dp_connector s) a = None"
  shows "\<exists>s'. ds_reached user B s s' \<and> dp_task s' TcpServerThread = None \<and>
      dp_task s' UdpServerThread = Some (ConnectAdd req c ip) \<and>
      ds_exec user B (ConnectAdd req c ip) (dp_server s') (dp_world s') = Undef"
    and "\<exists>s'. ds_reached user B s s' \<and> dp_task s' TcpServerThread = None \<and> dp_task s' UdpServerThread = None \<and>
      w_closes (dp_world s') = tr_clientSocketFd r # tr_clientSocketFd r # w_closes (dp_world s)"
proof -
  let ?T = TcpServerThread and ?U = UdpServerThread and ?d = "dp_server s" and ?w = "dp_world s"
  let ?r = "r\<lparr>tr_keepAlive := True\<rparr>"
  let ?d1 = "?d\<lparr>ds_connector := with_peer a (accepted_client r) (dp_connector s)\<rparr>"
  have "ds_exec user B (AckAdd r) ?d ?w = Ret (Inr (AckCallback ?r), [], ?d1, ?w)"
    using exec_AckAdd [OF ok(3), of user B ?d ?w] a by simp
  moreover have "ds_exec user B (AckCallback ?r) ?d1 ?w =
      Ret (Inl OkStatus, if ds_has_connect_callback ?d then [PeerConnect a] else [], ?d1, ?w)"
    using a(2) by (simp add: TcpRequest_destroy_def TcpRequest_terminate_def)
  ultimately have "ds_reached user B s (at_task ?T None ?d1 ?w (s\<lparr>dp_events := dp_events s @
      (if ds_has_connect_callback ?d then [PeerConnect a] else [])\<rparr>))"
    by (rule at_returns [OF at_goes_on [OF at_start [OF ds_reached.start t(2)]]])
  moreover have "ds_exec user B (ConnectAdd req c ip) ?d1 ?w = Undef"
    using exec_ConnectAdd [OF ok(2), of user B req ip ?d1 ?w] a by (simp add: with_peer_def)
  ultimately show "\<exists>s'. ds_reached user B s s' \<and> dp_task s' ?T = None \<and>
      dp_task s' ?U = Some (ConnectAdd req c ip) \<and>
      ds_exec user B (ConnectAdd req c ip) (dp_server s') (dp_world s') = Undef"
    using t(1) by (intro exI conjI) (assumption, simp_all del: ds_exec.simps)
next
  let ?T = TcpServerThread and ?U = UdpServerThread and ?d = "dp_server s" and ?w = "dp_world s"
  let ?d1 = "?d\<lparr>ds_connector := with_peer a c (dp_connector s)\<rparr>" and ?f = "tr_clientSocketFd r"
  have "ds_exec user B (ConnectAdd req c ip) ?d ?w = Ret (Inr (ConnectCallback req ip), [], ?d1, ?w)"
    using exec_ConnectAdd [OF ok(2), of user B req ip ?d ?w] a by simp
  moreover have "ds_exec user B (ConnectCallback req ip) ?d1 ?w =
      Ret (Inl OkStatus, if ds_has_connect_callback ?d then [PeerConnect ip] else [], ?d1, ?w)"
    by (simp add: leave_udp [OF ok(1)])
  ultimately obtain s1 where s1: "ds_reached user B s s1" "dp_task s1 ?U = None" "dp_task s1 ?T = Some (AckAdd r)"
      "dp_server s1 = ?d1" "dp_world s1 = ?w"
    using at_returns [OF at_goes_on [OF at_start [OF ds_reached.start t(1)]]] t(2) by fastforce
  have "ds_exec user B (AckAdd r) ?d1 ?w = Ret (Inl (AlreadyExistsError ''Client already exists''), [], ?d1,
      os_close ?f (os_close ?f ?w))"
    using exec_AckAdd [OF ok(3), of user B ?d1 ?w] a by (simp add: with_peer_def)
  from at_returns [OF at_start [OF s1(1,3)], unfolded s1(4,5), OF this] s1(2)
  show "\<exists>s'. ds_reached user B s s' \<and> dp_task s' ?T = None \<and> dp_task s' ?U = None \<and>
      w_closes (dp_world s') = ?f # ?f # w_closes ?w"
    by (intro exI conjI) (assumption, simp_all add: os_close_def)
qed

text \<open>
  C36. The life of a server. When it was made and is destroyed without having been run, the process has the
  descriptors it had before. When it was run, however that went, its destruction ends the process.
\<close>

theorem server_lifetime:
  assumes new: "DistributedServer_new name grp is port dh cc dc x w = Ret (Inr d, w1)" and fds: "fds_ok w"
  shows "(\<exists>w2. DistributedServer_destroy [] d w1 = Ret w2 \<and> w_open w2 = w_open w) \<and>
    (DistributedServer_run d v = Some (threads, Ret (st, d', v')) \<longrightarrow>
     DistributedServer_destroy threads d' v' = Undef)"
proof (rule DistributedServer_new_cases [OF new], goal_cases failed made)
  case (made tcp udp w2 w3)
  let ?t = "srv_serverSocketFd tcp" and ?u = "srv_serverSocketFd udp"
  have t: "\<not> w_open w ?t" "w_open w2 = (w_open w)(?t := True)" "fds_ok w2"
    using made(1) fds by (auto simp: TcpServer_new_def os_listen_frame os_listen_fds_ok
        split: option.splits prod.splits if_splits dest!: tcp_setup.bind_loop_fds)
  then have "\<not> w_open w2 ?u" "w_open w3 = (w_open w2)(?u := True)"
    using made(2) by (auto simp: UdpServer_new_def split: option.splits prod.splits if_splits
        dest!: udp_setup.bind_loop_fds)
  with t have "(w_open w3)(?u := False, ?t := False) = w_open w" by (intro ext) auto
  then have "\<exists>w4. DistributedServer_destroy [] d w1 = Ret w4 \<and> w_open w4 = w_open w"
    using made(3) by (simp add: DistributedServer_destroy_def Server_destroy_def MulticastClient_destroy_def
        MulticastClient_closeSocket_def MulticastClient_new_def Client_new_def client.defs multicast_client.defs)
  moreover have "DistributedServer_run d v = Some (threads, Ret (st, d', v')) \<Longrightarrow>
      DistributedServer_destroy threads d' v' = Undef"
    by (auto simp: DistributedServer_run_def DistributedServer_destroy_def split: option.splits)
  ultimately show ?case by blast
qed simp


text \<open>
  C19. Two servers that announce themselves at about the same time. While the UDP thread of this server
  waits for the answer of the other one, the other one's connection arrives at the TCP thread, so
  both threads come to \<^verbatim>\<open>addClient\<close> with the same address. If the TCP thread is first, the UDP
  thread uses the client pointer it has moved away; if the UDP thread is first, the TCP thread
  closes its descriptor twice.
\<close>

theorem crossing_announcements:
  assumes idle: "dp_task s UdpServerThread = None" "dp_task s TcpServerThread = None"
    and s: "dp_server s = d" "dp_world s = w"
    and d: "ds_interfaces d = i # is" "i \<noteq> inet_ntop (sin_addr src)" "sin_addr src \<notin> ds_peers d"
    and udp: "srv_handlers (ds_udpServer d) kConnectRequestProtocol = Some (Some HandleConnect)"
      "w_open w (srv_serverSocketFd (ds_udpServer d))"
      "w_dgrams w (srv_serverSocketFd (ds_udpServer d)) =
         (src, encode_header \<lparr>len = 2, protocol = kConnectRequestProtocol\<rparr>) # (src, le16 port) # ds"
    and tcp: "srv_handlers (ds_tcpServer d) kConnectAckRequestProtocol = Some (Some HandleConnectAck)"
      "w_conns w (srv_serverSocketFd (ds_tcpServer d)) = other # cs"
    and net: "reachable (inet_ntop (sin_addr src)) port p w"
    and answers: "w_in w (w_next w) = frame (connectAck_message kConnectAckResponseProtocol) @ rest"
      "w_in w (w_next w + 1) = frame (connectAck_message kConnectAckRequestProtocol) @ rest'"
    and same: "sin_addr other = sin_addr (ai_addr (w_freed w))"
    and fresh: "cn_clients (ds_connector d) (sin_addr other) = None"
  shows "\<exists>s1 c r. ds_reached user B s s1 \<and>
    dp_task s1 UdpServerThread = Some c \<and> dp_task s1 TcpServerThread = Some (AckAdd r) \<and>
    (\<exists>s2. ds_reached user B s1 s2 \<and> dp_task s2 TcpServerThread = None \<and> dp_task s2 UdpServerThread = Some c \<and>
       ds_exec user B c (dp_server s2) (dp_world s2) = Undef) \<and>
    (\<exists>s3. ds_reached user B s1 s3 \<and> dp_task s3 TcpServerThread = None \<and> dp_task s3 UdpServerThread = None \<and>
       w_closes (dp_world s3) = (w_next w + 1) # (w_next w + 1) # w_closes w)"
proof -
  let ?U = UdpServerThread and ?T = TcpServerThread and ?ip = "sin_addr src"
  let ?c = "peer_client (inet_ntop ?ip) port w"
  let ?w1 = "awaiting_answer p (srv_serverSocketFd (ds_udpServer d)) ds w"
  let ?w2 = "answered (srv_serverSocketFd (ds_tcpServer d)) cs rest' ?w1"
  obtain req where req: "udp_request_ok req"
    and r1: "ds_reached user B s (at_task ?U (Some (ConnectReceive req ?c ?ip)) d ?w1 s)"
    by (rule udp_thread_waits [OF ds_reached.start idle(1) s d udp net, of user B])
  let ?s1 = "at_task ?U (Some (ConnectReceive req ?c ?ip)) d ?w1 s"
  have k1: "w_script ?w1 = []" "w_next ?w1 = w_next w + 1" "0 \<le> w_next w" "0 \<le> w_next ?w1"
    "w_conns ?w1 (srv_serverSocketFd (ds_tcpServer d)) = other # cs"
    "w_in ?w1 (w_next ?w1) = frame (connectAck_message kConnectAckRequestProtocol) @ rest'"
    using net tcp(2) answers(2) by (simp_all add: awaiting_answer_def connected_to_def reachable_def)
  have s1: "dp_task ?s1 ?T = None" "dp_server ?s1 = d" "dp_world ?s1 = ?w1" using idle(2) by simp_all
  obtain r where r: "tr_clientSocketFd r = w_next w + 1" "tr_clientAddr r = other" "\<not> tr_keepAlive r"
    and r2: "ds_reached user B s (at_task ?T (Some (AckAdd r)) d ?w2 ?s1)"
    by (rule tcp_thread_answers [OF r1 s1 tcp(1) k1(1,4,5,6), unfolded k1(2)])
  let ?s2 = "at_task ?T (Some (AckAdd r)) d ?w2 ?s1" and ?add = "ConnectAdd req ?c ?ip"
  let ?s3 = "at_task ?U (Some ?add) d (?w2\<lparr>w_in := (w_in ?w2)(w_next w := rest)\<rparr>) ?s2"
  have c: "open_client ?c" "getClientInAddr ?c = sin_addr other" "cl_clientFd ?c = w_next w"
    using k1(3) same by (simp_all add: peer_client_def open_client_def getClientInAddr_def)
  have "TcpClient_receiveMessage ?c ?w2 = ((OkStatus, Some (connectAck_message kConnectAckResponseProtocol)),
      ?w2\<lparr>w_in := (w_in ?w2)(w_next w := rest)\<rparr>)"
    using receiveMessage_frame [of ?w2 ?c "connectAck_message kConnectAckResponseProtocol" rest] k1 answers(1) c
    by (simp add: answered_def awaiting_answer_def open_client_def)
  then have r3: "ds_reached user B s ?s3"
    by (intro at_goes_on [OF at_start [OF r2, of ?U, simplified, OF refl]]) simp
  have s3: "dp_task ?s3 ?U = Some ?add" "dp_task ?s3 ?T = Some (AckAdd r)" "0 \<le> tr_clientSocketFd r"
      "sin_addr (tr_clientAddr r) = sin_addr other" "cn_clients (dp_connector ?s3) (sin_addr other) = None"
    using fresh r k1(3) by simp_all
  note race = race_for_address [OF s3(1,2) req c(1) s3(3) r(3) c(2) s3(4,5), of user B]
  have "w_closes (dp_world ?s3) = w_closes w" by (simp add: answered_def awaiting_answer_def)
  with r3 race r(1) s3(1,2) show ?thesis
    by (intro exI [of _ ?s3] exI [of _ ?add] exI [of _ r]) (simp del: ds_exec.simps)
qed

text \<open>
  C20. The callbacks of a connection can come in the wrong order. \<^verbatim>\<open>addClient\<close> starts the read loop before
  the handler calls the connect callback; when the other server closes at once, the read loop removes
  the client and calls the disconnect callback first. For the user, the last word on the address is that it is
  connected; no client with it is left.
\<close>

theorem disconnect_before_connect:
  assumes new: "DistributedServer_new name grp is port dh True True x v = Ret (Inr d, w)" "is \<noteq> []"
    and user: "leaves_server user" and s: "ds_reached user B (ds_start d w) s" "dp_task s TcpServerThread = None"
    and tcp: "srv_handlers (ds_tcpServer (dp_server s)) kConnectAckRequestProtocol = Some (Some HandleConnectAck)"
    and kernel: "w_script (dp_world s) = []" "0 \<le> w_next (dp_world s)"
      "w_conns (dp_world s) (srv_serverSocketFd (ds_tcpServer (dp_server s))) = src # cs"
      "w_in (dp_world s) (w_next (dp_world s)) = frame (connectAck_message kConnectAckRequestProtocol)"
    and fresh: "cn_clients (dp_connector s) (sin_addr src) = None"
  shows "\<exists>s'. ds_reached user B s s' \<and> dp_task s' TcpServerThread = None \<and>
    dp_events s' = dp_events s @ [PeerDisconnect (sin_addr src), PeerConnect (sin_addr src)] \<and>
    cn_clients (dp_connector s') (sin_addr src) = None"
proof -
  let ?T = TcpServerThread and ?a = "sin_addr src" and ?cn = "dp_connector s" and ?d = "dp_server s"
  let ?k = "length (cn_objects (dp_connector s))" and ?f = "w_next (dp_world s)"
  let ?w1 = "answered (srv_serverSocketFd (ds_tcpServer ?d)) cs [] (dp_world s)"
  note inv = ds_reached_inv [OF s(1) user ds_start_inv [OF new]]
  have in0: "w_in (dp_world s) ?f = frame (connectAck_message kConnectAckRequestProtocol) @ []" using kernel(4) by simp
  obtain r where r: "tr_clientSocketFd r = ?f" "tr_clientAddr r = src" "\<not> tr_keepAlive r"
    and r1: "ds_reached user B s (at_task ?T (Some (AckAdd r)) ?d ?w1 s)"
    by (rule tcp_thread_answers [OF ds_reached.start s(2) refl refl tcp kernel(1,2,3) in0, of user B])
  let ?r = "r\<lparr>tr_keepAlive := True\<rparr>" and ?d1 = "?d\<lparr>ds_connector := with_peer ?a (accepted_client r) ?cn\<rparr>"
  let ?s2 = "at_task ?T (Some (AckCallback ?r)) ?d1 ?w1 s"
  have "ds_exec user B (AckAdd r) ?d ?w1 = Ret (Inr (AckCallback ?r), [], ?d1, ?w1)"
    using exec_AckAdd [of r user B ?d ?w1] r kernel(2) fresh by simp
  with r1 have r2: "ds_reached user B s ?s2" by (rule at_goes_on)
  have inv2: "ds_pool_inv True True ?s2" by (rule ds_reached_inv [OF r2 user inv])
  have k: "running ?k ?s2" using ds_pool_invD(8) [OF inv] by (auto simp: running_def with_peer_def)
  have cl: "client_of ?k (dp_connector ?s2) = accepted_client r" by (simp add: with_peer_def)
  have a: "address_of ?k (dp_connector ?s2) = ?a" using r(2) unfolding cl by simp
  obtain st mo w2 where m: "TcpClient_receiveMessage (accepted_client r) ?w1 = ((st, mo), w2)"
    by (metis prod.exhaust)
  then have rcv: "TcpClient_receiveMessage (client_of ?k (dp_connector ?s2)) (dp_world ?s2) = ((st, mo), w2)"
    unfolding cl by simp
  have end_of_stream: "st \<noteq> OkStatus"
    using m r(1) kernel(1,2) by (auto simp: TcpClient_receiveMessage_def readMessage_def os_recv_def os_answer_def
        answered_def kMessageHeaderLength_def)
  obtain s3 where s3: "ds_reached user B s s3" "dp_task s3 = dp_task ?s2"
      "dp_events s3 = dp_events ?s2 @ (if True then [PeerDisconnect ?a] else [])"
      "cn_clients (dp_connector s3) ?a = None" "ds_has_connect_callback (dp_server s3) = True"
    by (rule read_loop_ends [OF inv2 r2 k a rcv end_of_stream])
  have t3: "dp_task s3 ?T = Some (AckCallback ?r)" by (simp add: s3(2))
  have "ds_exec user B (AckCallback ?r) (dp_server s3) (dp_world s3) =
      Ret (Inl OkStatus, [PeerConnect ?a], dp_server s3, dp_world s3)"
    using r(2) s3(5) by (simp add: TcpRequest_destroy_def TcpRequest_terminate_def)
  from at_returns [OF at_start [OF s3(1) t3] this] s3(3,4)
  show ?thesis by (intro exI conjI) (assumption, simp_all)
qed

section \<open>Witnesses\<close>

text \<open>A user whose handlers answer OK, and a server of it, made in a process without faults.\<close>

definition quiet_user :: "(message list option, string, world) user_handlers" where
  "quiet_user h req d w = Ret (OkStatus, [], d, w)"

lemma quiet_user_leaves [simp]: "leaves_server quiet_user"
  by (simp add: leaves_server_def quiet_user_def)

definition new_server :: "((string + (message list option, string) distributed_server) \<times> world) outcome" where
  "new_server = DistributedServer_new ''eth0'' ''239.0.0.1'' [''10.0.0.1''] 7000 None True True None serving_world"

lemma sample_new:
  obtains d w where "new_server = Ret (Inr d, w)" "w_script w = []" "0 \<le> w_next w"
    "srv_handlers (ds_tcpServer d) kConnectAckRequestProtocol = Some (Some HandleConnectAck)"
    "cn_clients (ds_connector d) = Map.empty" "\<not> cl_isSocketOpen (ds_multicastClient d)"
  by (auto simp: new_server_def DistributedServer_new_def TcpServer_new_def UdpServer_new_def serving_world_def
        tcp_setup_def udp_setup_def os_socket_def os_new_fd_def os_setsockopt_def os_bind_def os_listen_def
        os_control_def os_answer_def os_add_membership_def Server_addHandler_def sizeof_sockaddr_def
        ai_addrlen_def Connector_new_def MulticastClient_new_def Client_new_def client.defs multicast_client.defs)

text \<open>The same server when a connection of another server is there to be accepted.\<close>

lemma sample_visited:
  obtains d w s where "new_server = Ret (Inr d, w)" "ds_reached quiet_user list_buffer (ds_start d w) s"
    "dp_task s = (\<lambda>t. None)" "dp_events s = []" "cn_clients (dp_connector s) = Map.empty"
    "srv_handlers (ds_tcpServer (dp_server s)) kConnectAckRequestProtocol = Some (Some HandleConnectAck)"
    "w_script (dp_world s) = []" "0 \<le> w_next (dp_world s)" "w_conns (dp_world s) = (\<lambda>f. [null_sockaddr])"
    "w_in (dp_world s) = (\<lambda>f. frame (connectAck_message kConnectAckRequestProtocol))"
proof -
  obtain d w where new: "new_server = Ret (Inr d, w)" "w_script w = []" "0 \<le> w_next w"
    "srv_handlers (ds_tcpServer d) kConnectAckRequestProtocol = Some (Some HandleConnectAck)"
    "cn_clients (ds_connector d) = Map.empty" by (rule sample_new)
  let ?s = "ds_start d w"
  let ?s' = "?s\<lparr>dp_world := (dp_world ?s)\<lparr>w_in := (\<lambda>f. frame (connectAck_message kConnectAckRequestProtocol)),
    w_dgrams := w_dgrams w, w_conns := (\<lambda>f. [null_sockaddr]), w_resolve := w_resolve w, w_freed := w_freed w,
    w_stack := w_stack w, w_script := []\<rparr>\<rparr>"
  have "ds_step quiet_user list_buffer ?s ?s'" by (rule ds_step.network)
  then have "ds_reached quiet_user list_buffer ?s ?s'" by (rule ds_reached.step [OF ds_reached.start])
  with new show ?thesis by (intro that [of d w ?s']) (simp_all add: ds_start_def)
qed

theorem server_threads_inv_witness:
  "\<exists>d w s. new_server = Ret (Inr d, w) \<and> ds_reached quiet_user list_buffer (ds_start d w) s \<and>
     connects (dp_events s) = length (cn_objects (dp_connector s))"
proof -
  obtain d w s where s: "new_server = Ret (Inr d, w)" "ds_reached quiet_user list_buffer (ds_start d w) s"
    "dp_task s = (\<lambda>t. None)" by (rule sample_visited)
  show ?thesis
    using server_threads_inv [OF s(1) [unfolded new_server_def] _ quiet_user_leaves s(2)] s by auto
qed

text \<open>And when the TCP thread has answered it.\<close>

lemma sample_answering:
  obtains d w s r where "new_server = Ret (Inr d, w)" "ds_reached quiet_user list_buffer (ds_start d w) s"
    "dp_task s TcpServerThread = Some (AckAdd r)"
proof -
  obtain d w s where s: "new_server = Ret (Inr d, w)" "ds_reached quiet_user list_buffer (ds_start d w) s"
    "dp_task s = (\<lambda>t. None)"
    "srv_handlers (ds_tcpServer (dp_server s)) kConnectAckRequestProtocol = Some (Some HandleConnectAck)"
    "w_script (dp_world s) = []" "0 \<le> w_next (dp_world s)" "w_conns (dp_world s) = (\<lambda>f. [null_sockaddr])"
    "w_in (dp_world s) = (\<lambda>f. frame (connectAck_message kConnectAckRequestProtocol))" by (rule sample_visited)
  have in0: "w_conns (dp_world s) (srv_serverSocketFd (ds_tcpServer (dp_server s))) = null_sockaddr # []"
    "w_in (dp_world s) (w_next (dp_world s)) = frame (connectAck_message kConnectAckRequestProtocol) @ []"
    using s(7,8) by simp_all
  have idle: "dp_task s TcpServerThread = None" using s(3) by simp
  obtain r where "ds_reached quiet_user list_buffer (ds_start d w)
      (at_task TcpServerThread (Some (AckAdd r)) (dp_server s)
        (answered (srv_serverSocketFd (ds_tcpServer (dp_server s))) [] [] (dp_world s)) s)"
    by (rule tcp_thread_answers [OF s(2) idle refl refl s(4,5,6) in0])
  with s(1) show ?thesis by (rule that) simp
qed

theorem server_lifetime_witness:
  "\<exists>d w1 w2 threads d' v'. new_server = Ret (Inr d, w1) \<and> DistributedServer_destroy [] d w1 = Ret w2 \<and>
     w_open w2 = w_open serving_world \<and>
     DistributedServer_run d serving_world = Some (threads, Ret (OkStatus, d', v')) \<and>
     DistributedServer_destroy threads d' v' = Undef"
proof -
  obtain d w where d: "new_server = Ret (Inr d, w)" "\<not> cl_isSocketOpen (ds_multicastClient d)"
    by (rule sample_new)
  then have "multicast_ok (ds_multicastClient d) serving_world"
    using fds_okD(2) [OF fds_ok_serving] by (simp add: multicast_ok_def)
  then obtain d' v' where r: "DistributedServer_run d serving_world =
      Some ([TcpServerThread, UdpServerThread], Ret (OkStatus, d', v'))"
    using connect_loop_sends [of d serving_world] by (auto simp: DistributedServer_run_def)
  note life = server_lifetime [OF d(1) [unfolded new_server_def] fds_ok_serving]
  obtain w2 where "DistributedServer_destroy [] d w = Ret w2" "w_open w2 = w_open serving_world"
    using life by blast
  moreover have "DistributedServer_destroy [TcpServerThread, UdpServerThread] d' v' = Undef"
    using life r by blast
  ultimately show ?thesis using d(1) r by blast
qed



text \<open>
  A server that is sent an announcement and a connection from one address: the first connection it
  opens, descriptor 5, gives the answer, the first one it accepts, descriptor 6, the request.
\<close>

definition crossing_world :: world where
  "crossing_world = sample_world
     \<lparr>w_resolve := (\<lambda>host service. Some [\<lparr>ai_family = AF_INET, ai_addr = null_sockaddr\<rparr>]),
      w_in := (\<lambda>f. frame (connectAck_message
        (if f = 5 then kConnectAckResponseProtocol else kConnectAckRequestProtocol))),
      w_conns := (\<lambda>f. [ai_addr (w_freed sample_world)]),
      w_dgrams := (\<lambda>f. [(null_sockaddr, encode_header \<lparr>len = 2, protocol = kConnectRequestProtocol\<rparr>),
                        (null_sockaddr, le16 7000)])\<rparr>"

theorem crossing_announcements_witness:
  "\<exists>s1 c r. ds_reached quiet_user list_buffer (ds_start sample_server crossing_world) s1 \<and>
     dp_task s1 UdpServerThread = Some c \<and> dp_task s1 TcpServerThread = Some (AckAdd r) \<and>
     (\<exists>s2. ds_reached quiet_user list_buffer s1 s2 \<and> dp_task s2 UdpServerThread = Some c \<and>
        ds_exec quiet_user list_buffer c (dp_server s2) (dp_world s2) = Undef) \<and>
     (\<exists>s3. ds_reached quiet_user list_buffer s1 s3 \<and> w_closes (dp_world s3) = [6, 6])"
proof -
  let ?s = "ds_start sample_server crossing_world" and ?p = "\<lparr>ai_family = AF_INET, ai_addr = null_sockaddr\<rparr>"
  have net: "reachable (inet_ntop (sin_addr null_sockaddr)) 7000 ?p crossing_world"
    by (simp add: crossing_world_def reachable_def ai_addrlen_def sizeof_sockaddr_def AF_INET6_def)
  from crossing_announcements [where s = ?s and user = quiet_user and B = list_buffer, OF _ _ _ _ _ _ _ _ _ _ _ _ net,
      of sample_server "''eth0''" "[]" "[]" "ai_addr (w_freed sample_world)" "[]" "[]" "[]"]
  show ?thesis
    by (fastforce simp: ds_start_def crossing_world_def sample_server_def Connector_new_def simp del: ds_exec.simps)
qed

theorem disconnect_before_connect_witness:
  "\<exists>d w s. new_server = Ret (Inr d, w) \<and> ds_reached quiet_user list_buffer (ds_start d w) s \<and>
     dp_events s = [PeerDisconnect 0, PeerConnect 0] \<and> cn_clients (dp_connector s) 0 = None"
proof -
  obtain d w s where s: "new_server = Ret (Inr d, w)" "ds_reached quiet_user list_buffer (ds_start d w) s"
    "dp_task s = (\<lambda>t. None)" "dp_events s = []" "cn_clients (dp_connector s) = Map.empty"
    "srv_handlers (ds_tcpServer (dp_server s)) kConnectAckRequestProtocol = Some (Some HandleConnectAck)"
    "w_script (dp_world s) = []" "0 \<le> w_next (dp_world s)" "w_conns (dp_world s) = (\<lambda>f. [null_sockaddr])"
    "w_in (dp_world s) = (\<lambda>f. frame (connectAck_message kConnectAckRequestProtocol))" by (rule sample_visited)
  from disconnect_before_connect [OF s(1) [unfolded new_server_def] _ quiet_user_leaves s(2) _ s(6,7,8), of null_sockaddr "[]"] s
  obtain s' where "ds_reached quiet_user list_buffer s s'" "dp_events s' = [PeerDisconnect 0, PeerConnect 0]"
    "cn_clients (dp_connector s') 0 = None" by auto
  with s(1,2) show ?thesis using ds_reached_trans by blast
qed

end
