(* ===== verification/Spec2Isabelle.thy ===== *)
theory Spec2Isabelle
  imports DemoNetwork Concurrency ConnectorThreads DistributedThreads
begin

text \<open>
  servercc is a C++ library of TCP servers, UDP servers and clients, and of distributed servers
  that find each other by multicast and then exchange requests and responses over shared
  connections. This development models the library under \<^verbatim>\<open>src/servercc\<close> and the programs under
  \<^verbatim>\<open>src/demos\<close>, and proves what its parts promise and how they work together.

  \<^bold>\<open>The program.\<close> A message is an 8-byte packed header (length and protocol) and a body. Servers
  read a message from a connection or a pair of datagrams and hand it, as a request, to the handler
  registered for its protocol. Clients send messages. A connector keeps one TCP client for each
  peer and, on each connection, a channel manager: it multiplexes up to 1024 request channels
  of this side and 1024 response channels for the peer, by appending a channel id to every
  message. A distributed server owns one server of each kind, a connector and a multicast client;
  it announces itself, connects to the servers that announce themselves, and forwards every request,
  from wherever it came, to the handlers of the user.

  \<^bold>\<open>The theories\<close>, each with the files it models:

  \<^item> \<open>Prelude\<close>: machine types, the outcome of a C++ computation (\<open>Ret\<close>, \<open>Undef\<close> for undefined
    behaviour, \<open>Block\<close> for a wait without end), little-endian images of integers, memory copies,
    decimal numbers. \<open>Status\<close>: \<^verbatim>\<open>absl::Status\<close> as the code uses it, \<^verbatim>\<open>types/include/macros.h\<close>.
    \<open>Sockets\<close>: the system calls of the code over a record of what a process sees of the kernel.
  \<^item> \<open>Message\<close>: \<^verbatim>\<open>types\<close>, with \<^verbatim>\<open>readMessage\<close>, \<^verbatim>\<open>writeMessage\<close>, \<^verbatim>\<open>wrapMessage\<close> and \<^verbatim>\<open>unwrapMessage\<close>.
    Locales: \<open>byte_codec\<close> (fixed-width images; channel ids, ports, headers) and \<open>stream_writer\<close> (what a
    function that puts a message on a stream promises; \<^verbatim>\<open>writeMessage\<close> and \<^verbatim>\<open>TcpClient::sendMessage\<close>).
  \<^item> \<open>Registry\<close>: the contract \<open>handler_registry\<close> of the three handler tables. \<open>Requests\<close>:
    \<^verbatim>\<open>tcp_request.cc\<close>, \<^verbatim>\<open>udp_request.cc\<close> and the contract of \<^verbatim>\<open>request.h\<close>.
    \<open>Servers\<close>: \<^verbatim>\<open>server.h\<close>, \<^verbatim>\<open>tcp_server.cc\<close>, \<^verbatim>\<open>udp_server.cc\<close>; a loop that never returns is a number of
    turns. \<open>Clients\<close>: \<^verbatim>\<open>client.h\<close>, \<^verbatim>\<open>tcp_client.cc\<close>, \<^verbatim>\<open>multicast_client.cc\<close>, with the contract
    \<open>socket_client\<close> of both.
  \<^item> \<open>Channels\<close>, \<open>ChannelPool\<close>, \<open>ChannelProps\<close>: \<^verbatim>\<open>internal_channel.cc\<close>,
    \<^verbatim>\<open>internal_channel_manager.cc\<close>, \<^verbatim>\<open>internal_request.h\<close>. Operations first, then the invariant \<open>mg_inv\<close>
    and its preservation, then the pool of ids (\<open>id_pool\<close>), closing, forwarding and destruction.
  \<^item> \<open>Connector\<close>: \<^verbatim>\<open>connector.cc\<close>. \<open>Link\<close>: two connectors at the ends of one connection, in any order of
    their calls. \<open>ChannelLife\<close>: a channel from its opening to its end, for either kind.
  \<^item> \<open>Threads\<close>: accounts over the code that threads have still to run, and the contract \<open>mutex\<close> of code
    that uses a lock. \<open>Concurrency\<close> and \<open>ConnectorThreads\<close>: the channel manager, and \<^verbatim>\<open>addClient\<close>,
    \<^verbatim>\<open>sendRequest\<close> and \<^verbatim>\<open>runClient\<close> of the connector, cut into atomic instructions and run by any number
    of threads. Their three mutexes are interpretations of the contract.
  \<^item> \<open>Distributed\<close>: \<^verbatim>\<open>distributed_server.cc\<close>. \<open>HandlerSteps\<close>: the turns of its server threads, cut
    before the handler, and \<^verbatim>\<open>handleConnect\<close> and \<^verbatim>\<open>handleConnectAck\<close>, cut where they call the network or
    the connector (\<open>ds_task\<close>, \<open>ds_exec\<close>). \<open>DistributedThreads\<close>: one server with its two server threads, a
    read loop for each peer and the calls of the user (\<open>ds_pool\<close>, \<open>ds_step\<close>), and its destruction.
  \<^item> \<open>Discovery\<close>: two such servers from the announcement to the
    connection from which the runs of \<open>Link\<close> start. \<open>Demos\<close>, \<open>DistributedDemo\<close> and \<open>Shell\<close>: the five
    demo programs, the last of them with the server that answers its shell. \<open>DemoNetwork\<close>: two processes
    of that demo, from the announcement to a session.

  \<^bold>\<open>State and operations.\<close> A C++ object is a record with the fields of the class, a method a function
  from the object (and the world) to a result and the changed object. Shared objects, channels
  behind \<^verbatim>\<open>shared_ptr\<close> and the clients of a connector, live in lists and pointers are positions. A
  destructor is a function that runs where the object goes out of scope. A callback the user gives is
  an event in the result; a thread started for a handler is an event too.

  \<^bold>\<open>What the lemmas show.\<close>
  \<^item> Messages: frames are read back as written, for every kernel behaviour an OK read took one
    frame; wrapping and unwrapping are inverse, with the exact cases in which they fail or leave a
    buffer.
  \<^item> Servers and clients: dispatch by protocol, descriptors of the constructors, loops and clients
    accounted for, errors of the code (a failed datagram served, leaks).
  \<^item> Channels: the invariant in every reachable state, 1024 ids handed out exclusively, one end
    message for each channel, destruction ends; which messages of a peer lead outside the arrays.
  \<^item> Threads on a manager: no id is lost or owned twice and messages stay whole under every interleaving, some
    thread can always go on; run without interference the instructions do what the operations do;
    two races that end in a null pointer and in a channel with two owners.
  \<^item> Threads on a connector: each client has one read loop, which erases the entry of that client and no
    other; a thread goes on, waits, or follows an iterator or a manager that is gone, and nothing else goes
    wrong; four schedules in which this happens.
  \<^item> Connections: a connection refines one queue for each channel and direction, whatever the
    order of calls, and every message sent can be brought to its buffer; requests reach their
    handlers and responses return.
  \<^item> Threads in a distributed server: one read loop and one call of each callback for every client, in every
    interleaving; the two steps of a handler that can go wrong, and that nothing keeps it from ending
    otherwise; the steps in a row are the handlers of \<open>Distributed\<close>; two announcements that cross, and
    callbacks in the wrong order.
  \<^item> Distributed servers: announcing, connecting, acknowledging, the whole discovery of two servers,
    dispatch, and the errors on these paths. Demos: what is typed at one end is printed at the other;
    a session of any number of lines at the shell of a distributed server comes back line by line, also
    when the two servers have only just found each other.

  \<^bold>\<open>Bounds.\<close> The kernel's choices are a script, a finite list of answers; after its end calls succeed.
  A statement about all worlds is therefore one about all kernels that stop injecting faults at some point; one
  with an empty script assumes none. Loops that wait for the network are given as many turns as a
  statement needs; \<^verbatim>\<open>DistributedServer::run\<close>, which repeats until it succeeds, is a partial function with
  a proof that it returns. The closing of channels, which calls itself through the callbacks, the
  loops of the demo handlers, the shell and the steps of a handler are total, with measures. The bounds of the code are kept: 1024 channels,
  32-bit lengths, 16-bit ports.

  \<^bold>\<open>Parameters.\<close> \<^verbatim>\<open>MessageBuffer\<close> of the library libcc is the record \<open>message_buffer\<close>, and \<open>fifo_buffer\<close> states
  its documented behaviour as a queue, \<open>closing_buffer\<close> that a wait on a closed, empty one fails;
  \<open>list_buffer\<close> is an instance of both. When an insertion makes a hash table grow is an argument
  (\<open>grows\<close>), and so are the handlers of the user and what other threads do while the shell waits.
  What memory holds before it is written (\<open>w_stack\<close>, \<open>w_freed\<close>, \<open>self_init\<close>) is arbitrary.

  \<^bold>\<open>Not modelled.\<close> Each of the three theories on threads cuts one layer, and what it calls of the layers below is a
  single step: a turn of a read loop and a call of the connector in \<open>DistributedThreads\<close>, an
  operation of a manager in \<open>ConnectorThreads\<close>. Data races on the set of peers, on the handler table of the
  distributed server and on that of the connector, which are used without a lock, are not undefined in the model.
  Whether a timed read ends
  in time is an argument, time itself is not modelled. Closing is not a step of \<open>Link\<close>, because there the statement would be false:
  \<open>late_end_closes_new_channel\<close> shows a channel that loses messages to the end of an earlier one.
  Logging, the texts of the standard error output, umbrella headers and build files have no content
  to model.
\<close>

end
